(* ===== verification/Prelude.thy ===== *)
theory Prelude
  imports Main "HOL-Library.Word" "HOL-Library.AList" "HOL-Library.List_Lexorder"
    "HOL-Library.Char_ord" "HOL-Library.Product_Lexorder" "HOL-Library.Multiset"
begin

text \<open>
  Shared material of the development: Rust's fixed-width arithmetic on machine words, instants and
  durations, Rust's hash maps as association lists, errors as sums, and the generic lemmas the
  component theories use.  The collections \<open>machine_int\<close> and \<open>hash_map\<close> hold the characterising
  equations that \<open>simp add:\<close> and \<open>auto simp:\<close> take.
\<close>

named_theorems machine_int \<open>characterisations of Rust's checked and saturating operations\<close>
named_theorems hash_map \<open>lookup after an update of a hash map\<close>

section \<open>Machine integers\<close>

text \<open>
  \<open>u8\<close>, \<open>u32\<close> and \<open>u64\<close> are machine words.  Rust's \<open>checked_*\<close> operations return \<open>None\<close> when the
  exact result does not fit, its \<open>saturating_*\<close> operations return the nearest representable value.
\<close>

type_synonym u8 = "8 word"
type_synonym u32 = "32 word"
type_synonym u64 = "64 word"

definition checked_add :: "'a::len word \<Rightarrow> 'a word \<Rightarrow> 'a word option" where
  "checked_add a b = (if unat a + unat b < 2 ^ LENGTH('a) then Some (a + b) else None)"

definition checked_sub :: "'a::len word \<Rightarrow> 'a word \<Rightarrow> 'a word option" where
  "checked_sub a b = (if unat b \<le> unat a then Some (a - b) else None)"

definition checked_mul :: "'a::len word \<Rightarrow> 'a word \<Rightarrow> 'a word option" where
  "checked_mul a b = (if unat a * unat b < 2 ^ LENGTH('a) then Some (a * b) else None)"

definition saturating_add :: "'a::len word \<Rightarrow> 'a word \<Rightarrow> 'a word" where
  "saturating_add a b = (if unat a + unat b < 2 ^ LENGTH('a) then a + b else - 1)"

definition saturating_sub :: "'a::len word \<Rightarrow> 'a word \<Rightarrow> 'a word" where
  "saturating_sub a b = (if unat b \<le> unat a then a - b else 0)"

definition saturating_mul :: "'a::len word \<Rightarrow> 'a word \<Rightarrow> 'a word" where
  "saturating_mul a b = (if unat a * unat b < 2 ^ LENGTH('a) then a * b else - 1)"

text \<open>\<open>uN::try_from\<close> of a natural number (a \<open>usize\<close> or a wider unsigned value).\<close>

definition try_from_nat :: "nat \<Rightarrow> 'a::len word option" where
  "try_from_nat n = (if n < 2 ^ LENGTH('a) then Some (of_nat n) else None)"

text \<open>\<open>i64\<close> values are integers; conversions and additions check the range.\<close>

definition i64_try_from :: "int \<Rightarrow> int option" where
  "i64_try_from x = (if - (2 ^ 63) \<le> x \<and> x < 2 ^ 63 then Some x else None)"

definition checked_add_i64 :: "int \<Rightarrow> int \<Rightarrow> int option" where
  "checked_add_i64 a b = i64_try_from (a + b)"

text \<open>Division of signed integers truncates towards zero; \<open>div_euclid\<close> by a positive divisor is
  the floor division of HOL.\<close>

definition trunc_div :: "int \<Rightarrow> int \<Rightarrow> int" where
  "trunc_div a b = sgn a * sgn b * (\<bar>a\<bar> div \<bar>b\<bar>)"

section \<open>Instants and durations\<close>

text \<open>
  The code's \<open>OffsetDateTime\<close> and \<open>Duration\<close> values are represented by their nanosecond counts
  (\<open>unix_timestamp_nanos\<close>, \<open>whole_nanoseconds\<close>), so that their comparison, sum and difference are
  those of the integers.
\<close>

type_synonym instant = int
type_synonym duration = int

definition milliseconds :: "int \<Rightarrow> duration" where
  "milliseconds n = n * 1000000"

definition seconds :: "int \<Rightarrow> duration" where
  "seconds n = n * 1000000000"

definition whole_milliseconds :: "duration \<Rightarrow> int" where
  "whole_milliseconds d = trunc_div d 1000000"

section \<open>Hash maps\<close>

text \<open>
  A \<open>HashMap\<close> is an association list with distinct keys.  The order of the list is the iteration
  order of the map, which Rust leaves unspecified: a statement about every list holds for every
  iteration order.
\<close>

type_synonym ('k, 'v) hmap = "('k \<times> 'v) list"

abbreviation hm_get :: "('k, 'v) hmap \<Rightarrow> 'k \<Rightarrow> 'v option" where
  "hm_get m k \<equiv> map_of m k"

abbreviation hm_insert :: "'k \<Rightarrow> 'v \<Rightarrow> ('k, 'v) hmap \<Rightarrow> ('k, 'v) hmap" where
  "hm_insert k v m \<equiv> AList.update k v m"

abbreviation hm_remove :: "'k \<Rightarrow> ('k, 'v) hmap \<Rightarrow> ('k, 'v) hmap" where
  "hm_remove k m \<equiv> AList.delete k m"

abbreviation hm_ok :: "('k, 'v) hmap \<Rightarrow> bool" where
  "hm_ok m \<equiv> distinct (map fst m)"

section \<open>Lemmas\<close>

subsection \<open>Machine integers\<close>

lemma u64_bound: "unat (a :: u64) < 2 ^ 64"
  using unsigned_less[of a, where ?'a = nat] by simp

lemma u32_bound: "unat (a :: u32) < 2 ^ 32"
  using unsigned_less[of a, where ?'a = nat] by simp

lemma unat_ucast_up:
  "LENGTH('a) \<le> LENGTH('b) \<Longrightarrow> unat (ucast (w :: 'a::len word) :: 'b::len word) = unat w"
  by (simp add: unsigned_ucast_eq take_bit_nat_eq_self_iff)
    (metis order_less_le_trans power_increasing one_le_numeral unsigned_less)

lemma unat_ucast_down:
  "unat (w :: 'a::len word) < 2 ^ LENGTH('b) \<Longrightarrow> unat (ucast w :: 'b::len word) = unat w"
  by (simp add: unsigned_ucast_eq take_bit_nat_eq_self_iff)

lemma unat_max_word: "unat (- 1 :: 'a::len word) = 2 ^ LENGTH('a) - 1"
proof -
  have "unat (- 1 :: 'a word) = nat (2 ^ LENGTH('a) - 1)"
    by (simp add: unat_eq_nat_uint unsigned_minus_1_eq_mask mask_eq_exp_minus_1)
  then show ?thesis by (simp add: nat_diff_distrib nat_power_eq)
qed

lemma checked_add_Some [machine_int]:
  "checked_add a b = Some (c :: 'a::len word) \<longleftrightarrow> unat c = unat a + unat b"
proof
  assume "checked_add a b = Some c"
  then show "unat c = unat a + unat b"
    by (auto simp: checked_add_def unat_word_ariths split: if_splits)
next
  assume eq: "unat c = unat a + unat b"
  then have "unat a + unat b < 2 ^ LENGTH('a)"
    by (metis unsigned_less)
  with eq show "checked_add a b = Some c"
    by (auto simp: checked_add_def unat_word_ariths word_unat_eq_iff)
qed

lemma checked_add_None [machine_int]:
  "checked_add a b = (None :: 'a::len word option) \<longleftrightarrow> 2 ^ LENGTH('a) \<le> unat a + unat b"
  by (auto simp: checked_add_def)

lemma checked_sub_Some [machine_int]:
  "checked_sub a b = Some (c :: 'a::len word) \<longleftrightarrow> unat b \<le> unat a \<and> unat c = unat a - unat b"
  by (auto simp: checked_sub_def unat_sub word_le_nat_alt word_unat_eq_iff split: if_splits)

lemma checked_sub_None [machine_int]:
  "checked_sub a b = None \<longleftrightarrow> unat a < unat (b :: 'a::len word)"
  by (auto simp: checked_sub_def)

lemma checked_mul_Some [machine_int]:
  "checked_mul a b = Some (c :: 'a::len word) \<longleftrightarrow> unat c = unat a * unat b"
proof
  assume "checked_mul a b = Some c"
  then show "unat c = unat a * unat b"
    by (auto simp: checked_mul_def unat_word_ariths split: if_splits)
next
  assume eq: "unat c = unat a * unat b"
  then have "unat a * unat b < 2 ^ LENGTH('a)"
    by (metis unsigned_less)
  with eq show "checked_mul a b = Some c"
    by (auto simp: checked_mul_def unat_word_ariths word_unat_eq_iff)
qed

lemma unat_saturating_add [machine_int]:
  "unat (saturating_add a b :: 'a::len word) = min (unat a + unat b) (2 ^ LENGTH('a) - 1)"
  by (auto simp: saturating_add_def unat_word_ariths unat_max_word)

lemma unat_saturating_sub [machine_int]:
  "unat (saturating_sub a b :: 'a::len word) = unat a - unat b"
  by (auto simp: saturating_sub_def unat_sub word_le_nat_alt)

lemma unat_saturating_mul [machine_int]:
  "unat (saturating_mul a b :: 'a::len word) = min (unat a * unat b) (2 ^ LENGTH('a) - 1)"
  by (auto simp: saturating_mul_def unat_word_ariths unat_max_word)

lemma try_from_nat_Some [machine_int]:
  "try_from_nat n = Some (c :: 'a::len word) \<longleftrightarrow> unat c = n"
  by (auto simp: try_from_nat_def unat_of_nat split: if_splits)

lemma i64_try_from_Some [machine_int]:
  "i64_try_from x = Some y \<longleftrightarrow> y = x \<and> - (2 ^ 63) \<le> x \<and> x < 2 ^ 63"
  by (auto simp: i64_try_from_def)

lemma checked_add_i64_Some [machine_int]:
  "checked_add_i64 a b = Some y \<longleftrightarrow> y = a + b \<and> - (2 ^ 63) \<le> a + b \<and> a + b < 2 ^ 63"
  by (auto simp: checked_add_i64_def i64_try_from_def)

text \<open>The code equations compare binary integers, not unary natural numbers.\<close>

lemma unat_le_uint: "unat a \<le> unat b \<longleftrightarrow> uint a \<le> uint (b :: 'a::len word)"
  by (simp only: uint_nat of_nat_le_iff)

lemma unat_sum_less_power:
  "unat a + unat b < 2 ^ n \<longleftrightarrow> uint (a :: 'a::len word) + uint (b :: 'a word) < 2 ^ n"
proof -
  have "unat a + unat b < 2 ^ n \<longleftrightarrow> int (unat a + unat b) < int (2 ^ n)" by (simp only: of_nat_less_iff)
  then show ?thesis by (simp only: of_nat_add uint_nat[symmetric] of_nat_power of_nat_numeral)
qed

lemma unat_prod_less_power:
  "unat a * unat b < 2 ^ n \<longleftrightarrow> uint (a :: 'a::len word) * uint (b :: 'a word) < 2 ^ n"
proof -
  have "unat a * unat b < 2 ^ n \<longleftrightarrow> int (unat a * unat b) < int (2 ^ n)" by (simp only: of_nat_less_iff)
  then show ?thesis by (simp only: of_nat_mult uint_nat[symmetric] of_nat_power of_nat_numeral)
qed

lemma checked_code [code]:
  "checked_add a b = (if uint a + uint b < 2 ^ LENGTH('a) then Some (a + b) else None)"
  "checked_sub a b = (if uint b \<le> uint a then Some (a - b) else None)"
  "checked_mul a b = (if uint a * uint b < 2 ^ LENGTH('a) then Some (a * b) else (None :: 'a::len word option))"
  by (simp_all only: checked_add_def checked_sub_def checked_mul_def unat_le_uint unat_sum_less_power
      unat_prod_less_power)

lemma try_from_nat_code [code]:
  "try_from_nat n = (if int n < 2 ^ LENGTH('a) then Some (of_nat n) else (None :: 'a::len word option))"
proof -
  have "n < 2 ^ LENGTH('a) \<longleftrightarrow> int n < int (2 ^ LENGTH('a))" by (simp only: of_nat_less_iff)
  then show ?thesis by (simp only: try_from_nat_def of_nat_power of_nat_numeral)
qed

lemma saturating_code [code]:
  "saturating_add a b = (if uint a + uint b < 2 ^ LENGTH('a) then a + b else - 1)"
  "saturating_sub a b = (if uint b \<le> uint a then a - b else 0)"
  "saturating_mul a b = (if uint a * uint b < 2 ^ LENGTH('a) then a * b else (- 1 :: 'a::len word))"
  by (simp_all only: saturating_add_def saturating_sub_def saturating_mul_def unat_le_uint unat_sum_less_power
      unat_prod_less_power)

lemma trunc_div_nonneg: "0 \<le> a \<Longrightarrow> 0 < b \<Longrightarrow> trunc_div a b = a div b"
  by (auto simp: trunc_div_def sgn_if)

lemma distinct_map_eq: "distinct (map f xs) \<Longrightarrow> x \<in> set xs \<Longrightarrow> y \<in> set xs \<Longrightarrow> f x = f y \<Longrightarrow> x = y"
  by (simp add: distinct_map inj_on_def)

subsection \<open>Hash maps\<close>

declare update_conv' [hash_map] delete_conv' [hash_map]

lemma hm_get_insert [hash_map]:
  "hm_get (hm_insert k v m) k' = (if k' = k then Some v else hm_get m k')"
  by (simp add: update_conv')

lemma hm_get_remove [hash_map]:
  "hm_get (hm_remove k m) k' = (if k' = k then None else hm_get m k')"
  by (simp add: delete_conv')

lemma hm_ok_insert: "hm_ok m \<Longrightarrow> hm_ok (hm_insert k v m)"
  by (rule distinct_update)

lemma hm_ok_remove: "hm_ok m \<Longrightarrow> hm_ok (hm_remove k m)"
  by (rule distinct_delete)

lemma hm_insert_fresh: "k \<notin> fst ` set m \<Longrightarrow> hm_insert k v m = m @ [(k, v)]"
  by (induction m) auto

lemma hm_insert_subset: "set (hm_insert k v m) \<subseteq> insert (k, v) (set m)"
  by (induction m) auto

lemma set_hm_insert: "hm_ok m \<Longrightarrow> set (hm_insert k v m) = insert (k, v) {e \<in> set m. fst e \<noteq> k}"
  by (induction m) force+

text \<open>Summing over the entries of a hash map, and what an update does to the sum.\<close>

definition hm_sum :: "('k \<Rightarrow> 'v \<Rightarrow> 'a::comm_monoid_add) \<Rightarrow> ('k, 'v) hmap \<Rightarrow> 'a" where
  "hm_sum g m = (\<Sum>(k, v)\<leftarrow>m. g k v)"

lemma hm_sum_simps [simp]: "hm_sum g [] = 0" "hm_sum g ((k, v) # m) = g k v + hm_sum g m"
  by (simp_all add: hm_sum_def)

lemma hm_sum_insert:
  "hm_sum g (hm_insert k v m) + (case hm_get m k of None \<Rightarrow> 0 | Some w \<Rightarrow> g k w) = hm_sum g m + g k v"
proof (induction m)
  case (Cons e m)
  obtain k' v' where e: "e = (k', v')" by force
  show ?case
  proof (cases "k' = k")
    case True
    then show ?thesis by (simp add: e ac_simps)
  next
    case False
    then have "hm_sum g (hm_insert k v (e # m)) + (case hm_get (e # m) k of None \<Rightarrow> 0 | Some w \<Rightarrow> g k w)
        = g k' v' + (hm_sum g (hm_insert k v m) + (case hm_get m k of None \<Rightarrow> 0 | Some w \<Rightarrow> g k w))"
      by (simp add: e ac_simps)
    then show ?thesis by (simp add: Cons.IH e ac_simps)
  qed
qed simp

lemma hm_sum_remove:
  "hm_ok m \<Longrightarrow> hm_sum g (hm_remove k m) + (case hm_get m k of None \<Rightarrow> 0 | Some w \<Rightarrow> g k w) = hm_sum g m"
proof (induction m)
  case (Cons e m)
  obtain k' v' where e: "e = (k', v')" by force
  show ?case
  proof (cases "k' = k")
    case True
    then have "hm_remove k m = m" using Cons.prems by (simp add: e delete_idem)
    then show ?thesis using True by (simp add: e ac_simps)
  next
    case False
    then show ?thesis using Cons by (simp add: e ac_simps)
  qed
qed simp

lemma hm_get_mem: "hm_ok m \<Longrightarrow> hm_get m k = Some v \<longleftrightarrow> (k, v) \<in> set m"
  by simp

text \<open>
  The interface the stores rely on: a keyed table with its lookup, insertion and removal.  What a
  client derives from the three laws is proved once.
\<close>

locale keyed_table =
  fixes get :: "'t \<Rightarrow> 'k \<Rightarrow> 'v option"
    and put :: "'k \<Rightarrow> 'v \<Rightarrow> 't \<Rightarrow> 't"
    and del :: "'k \<Rightarrow> 't \<Rightarrow> 't"
  assumes get_put: "get (put k v t) k' = (if k' = k then Some v else get t k')"
    and get_del: "get (del k t) k' = (if k' = k then None else get t k')"
begin

lemma put_frame: "k' \<noteq> k \<Longrightarrow> get (put k v t) k' = get t k'"
  by (simp add: get_put)

lemma put_over: "get (put k v (put k w t)) = get (put k v t)"
  by (rule ext) (simp add: get_put)

lemma puts_commute: "k \<noteq> l \<Longrightarrow> get (put k v (put l w t)) = get (put l w (put k v t))"
  by (rule ext) (simp add: get_put)

lemma get_fold_put:
  "get (fold (\<lambda>(k, v). put k v) kvs t) x =
     (case map_of (rev kvs) x of Some v \<Rightarrow> Some v | None \<Rightarrow> get t x)"
proof (induction kvs arbitrary: t)
  case Nil
  then show ?case by simp
next
  case (Cons kv kvs)
  obtain k v where kv: "kv = (k, v)" by force
  have "get (fold (\<lambda>(k, v). put k v) (kv # kvs) t) x =
      (case map_of (rev kvs) x of Some v \<Rightarrow> Some v | None \<Rightarrow> get (put k v t) x)"
    using Cons.IH[of "put k v t"] kv by simp
  then show ?case
    by (auto simp: kv get_put map_add_def split: option.splits)
qed

end

interpretation hm: keyed_table "\<lambda>m k. hm_get m k" "\<lambda>k v m. hm_insert k v m" "\<lambda>k m. hm_remove k m"
  by unfold_locales (simp_all add: hash_map)

subsection \<open>Lists\<close>

lemma sorted_sort_key_less:
  "distinct xs \<Longrightarrow> sorted_wrt (<) (sort (xs :: 'a::linorder list))"
  by (simp add: strict_sorted_iff)

lemma sort_key_strict:
  "distinct (map f xs) \<Longrightarrow> sorted_wrt (<) (map (f :: 'a \<Rightarrow> 'b::linorder) (sort_key f xs))"
  by (simp add: strict_sorted_iff distinct_map)

text \<open>The entries of a hash map that pass a filter, mapped and sorted by their keys.\<close>

lemma hm_filter_listing:
  assumes "hm_ok m" and "inj_on f (fst ` set (filter P m))"
  shows "distinct (map (\<lambda>(k, v). f k) (filter P m))"
proof -
  have "distinct (map fst (filter P m))" using assms(1) by (rule distinct_map_filter)
  then have "distinct (map f (map fst (filter P m)))"
    using assms(2) by (simp only: distinct_map[of f] set_map simp_thms)
  then show ?thesis by (simp add: comp_def case_prod_beta')
qed

lemma set_remdups_adj_sorted: "sorted xs \<Longrightarrow> distinct (remdups_adj (xs :: 'a::linorder list))"
  by (induction xs rule: remdups_adj.induct) auto

text \<open>Lists of one length compare at the last position once their prefixes agree.\<close>

lemma list_less_snoc:
  assumes "length xs = length (ys :: 'a::linorder list)"
  shows "xs @ [a] < ys @ [b] \<longleftrightarrow> xs < ys \<or> (xs = ys \<and> a < b)"
  using assms
proof (induction xs ys rule: list_induct2)
  case Nil
  then show ?case by simp
next
  case (Cons x xs y ys)
  then show ?case by auto
qed

end
