(* ===== verification/Decimal.thy ===== *)
theory Decimal
  imports Prelude
begin

text \<open>
  Rust's decimal formatting and parsing of integers, as the metadata keys use them: \<open>Display\<close> of
  \<open>u64\<close> and \<open>i64\<close>, the zero-padded form \<open>{:020}\<close>, and \<open>str::parse\<close> with its error cases (empty
  input, a character that is not a digit, a value out of range).
\<close>

section \<open>Definitions\<close>

definition digit_char :: "nat \<Rightarrow> char" where
  "digit_char d = char_of (48 + d)"

definition char_digit :: "char \<Rightarrow> nat option" where
  "char_digit c = (if 48 \<le> (of_char c :: nat) \<and> (of_char c :: nat) \<le> 57 then Some (of_char c - 48) else None)"

fun decimal :: "nat \<Rightarrow> string" where
  "decimal n = (if n < 10 then [digit_char n] else decimal (n div 10) @ [digit_char (n mod 10)])"

declare decimal.simps [simp del]

definition decimal_int :: "int \<Rightarrow> string" where
  "decimal_int i = (if i < 0 then CHR ''-'' # decimal (nat (- i)) else decimal (nat i))"

text \<open>\<open>format!("{:0w}", n)\<close>: zeros fill the number up to the width.\<close>

definition decimal_padded :: "nat \<Rightarrow> nat \<Rightarrow> string" where
  "decimal_padded w n = replicate (w - length (decimal n)) (CHR ''0'') @ decimal n"

fun digits_value :: "nat \<Rightarrow> string \<Rightarrow> nat option" where
  "digits_value acc [] = Some acc"
| "digits_value acc (c # cs) =
     (case char_digit c of None \<Rightarrow> None | Some d \<Rightarrow> digits_value (acc * 10 + d) cs)"

definition parse_digits :: "string \<Rightarrow> nat option" where
  "parse_digits s = (if s = [] then None else digits_value 0 s)"

text \<open>\<open>parse::<u64>\<close> takes an optional plus sign, \<open>parse::<i64>\<close> an optional sign.\<close>

definition parse_u64 :: "string \<Rightarrow> u64 option" where
  "parse_u64 s =
     (case parse_digits (case s of c # cs \<Rightarrow> if c = CHR ''+'' then cs else s | [] \<Rightarrow> []) of
        None \<Rightarrow> None
      | Some n \<Rightarrow> try_from_nat n)"

definition parse_i64 :: "string \<Rightarrow> int option" where
  "parse_i64 s =
     (case s of
        [] \<Rightarrow> None
      | c # cs \<Rightarrow>
          if c = CHR ''-'' then
            (case parse_digits cs of None \<Rightarrow> None | Some n \<Rightarrow> i64_try_from (- int n))
          else
            (case parse_digits (if c = CHR ''+'' then cs else s) of
               None \<Rightarrow> None
             | Some n \<Rightarrow> i64_try_from (int n)))"

text \<open>\<open>rsplit_once(sep)\<close>: the text before and after the last occurrence of the separator.\<close>

fun split_once :: "'a \<Rightarrow> 'a list \<Rightarrow> ('a list \<times> 'a list) option" where
  "split_once sep [] = None"
| "split_once sep (c # cs) =
     (if c = sep then Some ([], cs)
      else map_option (\<lambda>(l, r). (c # l, r)) (split_once sep cs))"

definition rsplit_once :: "'a \<Rightarrow> 'a list \<Rightarrow> ('a list \<times> 'a list) option" where
  "rsplit_once sep s = map_option (\<lambda>(l, r). (rev r, rev l)) (split_once sep (rev s))"

section \<open>Lemmas\<close>

lemma of_char_digit_char: "d < 10 \<Longrightarrow> (of_char (digit_char d) :: nat) = 48 + d"
  by (simp add: digit_char_def)

lemma char_digit_digit_char [simp]: "d < 10 \<Longrightarrow> char_digit (digit_char d) = Some d"
  by (simp add: char_digit_def of_char_digit_char)

lemma digit_char_less: "a < 10 \<Longrightarrow> b < 10 \<Longrightarrow> digit_char a < digit_char b \<longleftrightarrow> a < b"
  by (simp add: less_char_def of_char_digit_char)

lemma digit_char_inj: "a < 10 \<Longrightarrow> b < 10 \<Longrightarrow> digit_char a = digit_char b \<longleftrightarrow> a = b"
  by (metis char_digit_digit_char option.inject)

lemma zero_char: "CHR ''0'' = digit_char 0"
proof -
  have "(of_char (CHR ''0'') :: nat) = 48" by simp
  then have "char_of (48 :: nat) = CHR ''0''" by (metis char_of_char)
  then show ?thesis by (simp add: digit_char_def)
qed

lemma char_digit_signs [simp]:
  "char_digit (CHR ''-'') = None" "char_digit (CHR ''+'') = None" "char_digit (CHR ''#'') = None"
  by (simp_all add: char_digit_def)

lemma digits_value_append:
  "digits_value acc (xs @ ys) = Option.bind (digits_value acc xs) (\<lambda>v. digits_value v ys)"
  by (induction acc xs rule: digits_value.induct) (auto split: option.splits)

lemma decimal_nonempty: "decimal n \<noteq> []"
  by (subst decimal.simps) simp

lemma digits_value_decimal: "digits_value 0 (decimal n) = Some n"
proof (induction n rule: decimal.induct)
  case (1 n)
  then show ?case
    by (subst decimal.simps) (auto simp: digits_value_append)
qed

lemma parse_digits_decimal: "parse_digits (decimal n) = Some n"
  by (simp add: parse_digits_def decimal_nonempty digits_value_decimal)

lemma decimal_digits: "c \<in> set (decimal n) \<Longrightarrow> \<exists>d < 10. c = digit_char d"
proof (induction n rule: decimal.induct)
  case (1 n)
  show ?case
  proof (cases "n < 10")
    case True
    with "1.prems" show ?thesis by (auto simp: decimal.simps[of n])
  next
    case False
    with "1.prems" have "c \<in> set (decimal (n div 10)) \<or> c = digit_char (n mod 10)"
      by (auto simp: decimal.simps[of n])
    then show ?thesis
    proof
      assume "c \<in> set (decimal (n div 10))"
      with False show ?thesis by (rule "1.IH")
    next
      assume "c = digit_char (n mod 10)"
      then show ?thesis by (intro exI[of _ "n mod 10"]) simp
    qed
  qed
qed

lemma decimal_no_sign:
  "CHR ''-'' \<notin> set (decimal n)" "CHR ''+'' \<notin> set (decimal n)" "CHR ''#'' \<notin> set (decimal n)"
  using decimal_digits char_digit_digit_char char_digit_signs by (metis option.distinct(1))+

lemma parse_u64_decimal [simp]: "parse_u64 (decimal (unat w)) = Some w"
proof -
  obtain c cs where eq: "decimal (unat w) = c # cs"
    using decimal_nonempty by (cases "decimal (unat w)") auto
  then have "c \<noteq> CHR ''+''"
    using decimal_no_sign(2)[of "unat w"] by auto
  then show ?thesis
    using parse_digits_decimal[of "unat w"]
    by (simp add: parse_u64_def eq machine_int)
qed

lemma parse_i64_decimal:
  assumes "- (2 ^ 63) \<le> i" "i < 2 ^ 63"
  shows "parse_i64 (decimal_int i) = Some i"
proof (cases "i < 0")
  case True
  then show ?thesis
    using assms by (simp add: parse_i64_def decimal_int_def parse_digits_decimal i64_try_from_def)
next
  case False
  obtain c cs where eq: "decimal (nat i) = c # cs"
    using decimal_nonempty by (cases "decimal (nat i)") auto
  then have "c \<noteq> CHR ''+''" "c \<noteq> CHR ''-''"
    using decimal_no_sign[of "nat i"] by auto
  then show ?thesis
    using False assms parse_digits_decimal[of "nat i"]
    by (simp add: parse_i64_def decimal_int_def eq i64_try_from_def)
qed

lemma decimal_int_no_hash: "CHR ''#'' \<notin> set (decimal_int i)"
  using decimal_no_sign(3) by (auto simp: decimal_int_def)

lemma split_once_prefix:
  "sep \<notin> set xs \<Longrightarrow> split_once sep (xs @ sep # ys) = Some (xs, ys)"
  by (induction xs) auto

lemma rsplit_once_suffix:
  "sep \<notin> set ys \<Longrightarrow> rsplit_once sep (xs @ sep # ys) = Some (xs, ys)"
  using split_once_prefix[of sep "rev ys" "rev xs"] by (simp add: rsplit_once_def)

subsection \<open>Fixed-width decimals\<close>

text \<open>The last \<open>k\<close> decimal digits, most significant first.\<close>

fun fixed_decimal :: "nat \<Rightarrow> nat \<Rightarrow> string" where
  "fixed_decimal 0 n = []"
| "fixed_decimal (Suc k) n = fixed_decimal k (n div 10) @ [digit_char (n mod 10)]"

lemma length_fixed_decimal [simp]: "length (fixed_decimal k n) = k"
  by (induction k arbitrary: n) auto

lemma fixed_decimal_zero: "fixed_decimal k 0 = replicate k (CHR ''0'')"
  by (induction k) (auto simp: zero_char replicate_append_same)

lemma length_decimal: "n < 10 ^ k \<Longrightarrow> 0 < k \<Longrightarrow> length (decimal n) \<le> k"
proof (induction n arbitrary: k rule: decimal.induct)
  case (1 n)
  show ?case
  proof (cases "n < 10")
    case True
    with "1.prems" show ?thesis by (simp add: decimal.simps[of n])
  next
    case False
    then obtain j where k: "k = Suc j" and j: "0 < j"
      using "1.prems" by (cases k; cases "k - 1") auto
    then have "n div 10 < 10 ^ j"
      using "1.prems"(1) by (simp add: less_mult_imp_div_less mult.commute)
    with "1.IH"[of j] False j show ?thesis
      by (simp add: decimal.simps[of n] k)
  qed
qed

lemma decimal_padded_Suc:
  assumes "10 \<le> n"
  shows "decimal_padded (Suc k) n = decimal_padded k (n div 10) @ [digit_char (n mod 10)]"
  using assms by (simp add: decimal_padded_def decimal.simps[of n])

lemma decimal_padded_fixed: "0 < k \<Longrightarrow> n < 10 ^ k \<Longrightarrow> decimal_padded k n = fixed_decimal k n"
proof (induction k arbitrary: n)
  case 0
  then show ?case by simp
next
  case (Suc k)
  show ?case
  proof (cases "n < 10")
    case True
    then show ?thesis
      by (simp add: decimal_padded_def decimal.simps[of n] fixed_decimal_zero)
  next
    case False
    then have "0 < k" using Suc.prems by (auto intro: gr0I)
    moreover have "n div 10 < 10 ^ k"
      using Suc.prems(2) by (simp add: less_mult_imp_div_less mult.commute)
    ultimately have "decimal_padded k (n div 10) = fixed_decimal k (n div 10)"
      by (rule Suc.IH)
    with False show ?thesis by (simp add: decimal_padded_Suc)
  qed
qed

lemma less_iff_div_mod: "(m::nat) < n \<longleftrightarrow> m div 10 < n div 10 \<or> (m div 10 = n div 10 \<and> m mod 10 < n mod 10)"
proof -
  have "m = m div 10 * 10 + m mod 10" "n = n div 10 * 10 + n mod 10"
    and "m mod 10 < 10" "n mod 10 < 10"
    by simp_all
  then show ?thesis by linarith
qed

lemma eq_iff_div_mod: "(m::nat) = n \<longleftrightarrow> m div 10 = n div 10 \<and> m mod 10 = n mod 10"
  by (metis div_mult_mod_eq)

lemma fixed_decimal_inj:
  "m < 10 ^ k \<Longrightarrow> n < 10 ^ k \<Longrightarrow> fixed_decimal k m = fixed_decimal k n \<longleftrightarrow> m = n"
proof (induction k arbitrary: m n)
  case 0
  then show ?case by simp
next
  case (Suc k)
  then have "fixed_decimal k (m div 10) = fixed_decimal k (n div 10) \<longleftrightarrow> m div 10 = n div 10"
    by (simp add: less_mult_imp_div_less mult.commute)
  then show ?case
    by (simp add: digit_char_inj eq_iff_div_mod[of m n])
qed

text \<open>On numbers of at most \<open>k\<close> digits the fixed-width form is strictly monotone for the
  lexicographic order of strings.\<close>

lemma fixed_decimal_less:
  "m < 10 ^ k \<Longrightarrow> n < 10 ^ k \<Longrightarrow> fixed_decimal k m < fixed_decimal k n \<longleftrightarrow> m < n"
proof (induction k arbitrary: m n)
  case 0
  then show ?case by simp
next
  case (Suc k)
  then have div: "m div 10 < 10 ^ k" "n div 10 < 10 ^ k"
    by (simp_all add: less_mult_imp_div_less mult.commute)
  have "fixed_decimal (Suc k) m < fixed_decimal (Suc k) n \<longleftrightarrow>
      m div 10 < n div 10 \<or> (m div 10 = n div 10 \<and> m mod 10 < n mod 10)"
    using Suc.IH[OF div] fixed_decimal_inj[OF div]
    by (simp add: list_less_snoc digit_char_less)
  then show ?case by (simp only: less_iff_div_mod[symmetric])
qed

end
