(* ===== verification/Types.thy ===== *)
theory Types
  imports Decimal
begin

text \<open>
  The shared domain types of \<open>blob-stream-types/src/lib.rs\<close> and the blob keys and byte ranges of
  \<open>blob-stream-blob-store/src/lib.rs\<close>: virtual partitions, record batches, sequence ranges, cursors,
  metadata windows and segment ids.  Code outside the repository is a parameter: the representable
  range of \<open>OffsetDateTime\<close> and the SipHash function.
\<close>

section \<open>Virtual partitions\<close>

type_synonym VirtualPartitionId = u32

datatype VirtualPartitionCountError = VirtualPartitionCountError

definition virtual_partition_count :: "u32 \<Rightarrow> u32 \<Rightarrow> VirtualPartitionCountError + u32" where
  "virtual_partition_count partition_count num_writers =
     (case checked_mul partition_count num_writers of
        None \<Rightarrow> Inl VirtualPartitionCountError
      | Some n \<Rightarrow> Inr n)"

text \<open>
  The hash is SipHash-1-3 with zero keys fed with two writes, the little-endian length of the key
  and the key: the parameter maps the chunks written to the digest.
\<close>

definition le_bytes :: "u64 \<Rightarrow> u8 list" where
  "le_bytes w = map (\<lambda>i. ucast (drop_bit (8 * i) w)) [0..<8]"

definition partition_hash :: "(u8 list list \<Rightarrow> u64) \<Rightarrow> u8 list \<Rightarrow> u64" where
  "partition_hash sip13 record_key = sip13 [le_bytes (of_nat (length record_key)), record_key]"

text \<open>The remainder by a zero partition count panics: \<open>None\<close>.\<close>

definition logical_partition_for_key ::
    "(u8 list list \<Rightarrow> u64) \<Rightarrow> u8 list \<Rightarrow> u32 \<Rightarrow> u32 option" where
  "logical_partition_for_key sip13 record_key partition_count =
     (if partition_count = 0 then None
      else let logical_partition = partition_hash sip13 record_key mod ucast partition_count
           in Some (case try_from_nat (unat logical_partition) of Some p \<Rightarrow> p | None \<Rightarrow> 0))"

definition virtual_partition_for_logical :: "u32 \<Rightarrow> u32 \<Rightarrow> u32 \<Rightarrow> VirtualPartitionId" where
  "virtual_partition_for_logical logical_partition_id partition_count writer_id =
     saturating_add logical_partition_id (saturating_mul writer_id partition_count)"

definition virtual_partition_for_key ::
    "(u8 list list \<Rightarrow> u64) \<Rightarrow> u8 list \<Rightarrow> u32 \<Rightarrow> u32 \<Rightarrow> VirtualPartitionId option" where
  "virtual_partition_for_key sip13 record_key partition_count writer_id =
     map_option (\<lambda>logical. virtual_partition_for_logical logical partition_count writer_id)
       (logical_partition_for_key sip13 record_key partition_count)"

section \<open>Topic windows and limits\<close>

definition DEFAULT_METADATA_WINDOW_SIZE :: duration where
  "DEFAULT_METADATA_WINDOW_SIZE = seconds (5 * 60)"

definition DEFAULT_MAX_METADATA_PUBLICATION_LAG :: duration where
  "DEFAULT_MAX_METADATA_PUBLICATION_LAG = seconds 15"

datatype TopicMetadataWindowError = NonPositive | SubSecond

text \<open>The argument is the topic's optional \<open>metadata_window_size\<close>, converted to a duration.\<close>

definition topic_metadata_window_size :: "duration option \<Rightarrow> TopicMetadataWindowError + duration" where
  "topic_metadata_window_size configured =
     (let metadata_window_size =
        (case configured of None \<Rightarrow> DEFAULT_METADATA_WINDOW_SIZE | Some d \<Rightarrow> d)
      in if \<not> 0 < metadata_window_size then Inl NonPositive
         else if metadata_window_size mod seconds 1 \<noteq> 0 then Inl SubSecond
         else Inr metadata_window_size)"

section \<open>Timestamps\<close>

text \<open>
  \<open>OffsetDateTime\<close> represents the instants of a range whose ends are a parameter; conversions
  from Unix timestamps fail or saturate outside it.
\<close>

type_synonym date_range = "instant \<times> instant"

definition checked_instant :: "date_range \<Rightarrow> int \<Rightarrow> instant option" where
  "checked_instant dates nanos = (if fst dates \<le> nanos \<and> nanos \<le> snd dates then Some nanos else None)"

definition saturating_instant :: "date_range \<Rightarrow> int \<Rightarrow> instant" where
  "saturating_instant dates nanos = max (fst dates) (min (snd dates) nanos)"

definition offset_datetime_from_unix_millis :: "date_range \<Rightarrow> int \<Rightarrow> instant" where
  "offset_datetime_from_unix_millis dates timestamp_ms =
     saturating_instant dates (milliseconds timestamp_ms)"

definition offset_datetime_from_unix_millis_checked :: "date_range \<Rightarrow> int \<Rightarrow> instant option" where
  "offset_datetime_from_unix_millis_checked dates timestamp_ms =
     checked_instant dates (timestamp_ms * 1000000)"

definition unix_millis_from_offset_datetime :: "instant \<Rightarrow> int option" where
  "unix_millis_from_offset_datetime timestamp = i64_try_from (timestamp div 1000000)"

definition offset_datetime_from_unix_seconds :: "date_range \<Rightarrow> int \<Rightarrow> instant" where
  "offset_datetime_from_unix_seconds dates timestamp_seconds =
     saturating_instant dates (seconds timestamp_seconds)"

section \<open>Records, ranges and cursors\<close>

record Record =
  payload :: "u8 list"
  event_ts_ms :: int

definition new_record :: "u8 list \<Rightarrow> int \<Rightarrow> Record" where
  "new_record bytes ts = \<lparr>payload = bytes, event_ts_ms = ts\<rparr>"

record BatchSummary =
  record_count :: u32
  summary_payload_bytes :: u64

record RecordBatch =
  rb_virtual_partition_id :: VirtualPartitionId
  rb_records :: "Record list"

definition summary_from_records :: "Record list \<Rightarrow> BatchSummary option" where
  "summary_from_records records =
     (case records of
        [] \<Rightarrow> None
      | first # rest \<Rightarrow>
          let payload_bytes =
                fold (\<lambda>record total. total + of_nat (length (payload record))) rest
                  (of_nat (length (payload first)))
          in (case try_from_nat (length records) of
                None \<Rightarrow> None
              | Some n \<Rightarrow> Some \<lparr>record_count = n, summary_payload_bytes = payload_bytes\<rparr>))"

definition batch_summary :: "RecordBatch \<Rightarrow> BatchSummary option" where
  "batch_summary batch = summary_from_records (rb_records batch)"

record SeqRange =
  seq_start :: u64
  seq_end :: u64

definition seq_range_len :: "SeqRange \<Rightarrow> u64" where
  "seq_range_len r = saturating_add (saturating_sub (seq_end r) (seq_start r)) 1"

definition seq_range_is_empty :: "SeqRange \<Rightarrow> bool" where
  "seq_range_is_empty r \<longleftrightarrow> seq_end r < seq_start r"

record CommittedSourceCheckpoint =
  checkpoint_window_start_unix_seconds :: int
  checkpoint_snowflake_id :: u64

record CommittedCursor =
  cursor_virtual_partition_id :: VirtualPartitionId
  cursor_seq_end :: u64
  source_checkpoint :: "CommittedSourceCheckpoint option"

datatype CompressionCodec = NoCompression | Zstd

record Compression =
  codec :: CompressionCodec
  level :: "int option"

definition compression_none :: Compression where
  "compression_none = \<lparr>codec = NoCompression, level = None\<rparr>"

definition compression_zstd :: "int \<Rightarrow> Compression" where
  "compression_zstd l = \<lparr>codec = Zstd, level = Some l\<rparr>"

datatype BlobKey = BlobKey string

primrec blob_key_str :: "BlobKey \<Rightarrow> string" where
  "blob_key_str (BlobKey s) = s"

record ByteRange =
  byte_start :: u64
  byte_end :: u64

definition byte_range_len :: "ByteRange \<Rightarrow> u64" where
  "byte_range_len r = saturating_sub (byte_end r) (byte_start r)"

definition byte_range_is_empty :: "ByteRange \<Rightarrow> bool" where
  "byte_range_is_empty r \<longleftrightarrow> byte_end r \<le> byte_start r"

record BatchMetadata =
  seq_range :: SeqRange
  byte_range :: ByteRange
  payload_bytes :: u64

section \<open>Windows and segment ids\<close>

record TopicWindowKey =
  window_topic :: string
  window_start_unix_seconds :: int

definition topic_window_key_format :: "TopicWindowKey \<Rightarrow> string" where
  "topic_window_key_format key =
     window_topic key @ ''#'' @ decimal_int (window_start_unix_seconds key)"

record Window =
  window_start :: instant
  window_size :: duration

text \<open>\<open>div_euclid\<close> panics on a zero divisor: \<open>None\<close>.\<close>

definition window_for_timestamp :: "date_range \<Rightarrow> instant \<Rightarrow> duration \<Rightarrow> Window option" where
  "window_for_timestamp dates timestamp wsize =
     (if wsize = 0 then None
      else
        let quotient = (if 0 < wsize then timestamp div wsize else - (timestamp div (- wsize)));
            start_nanoseconds = quotient * wsize
        in Some \<lparr>window_start = (case checked_instant dates start_nanoseconds of
                                   Some t \<Rightarrow> t | None \<Rightarrow> 0),
                 window_size = wsize\<rparr>)"

definition window_key :: "Window \<Rightarrow> string \<Rightarrow> TopicWindowKey" where
  "window_key window topic =
     \<lparr>window_topic = topic, window_start_unix_seconds = window_start window div seconds 1\<rparr>"

type_synonym SnowflakeId = u64

definition snowflake_format_lex :: "SnowflakeId \<Rightarrow> string" where
  "snowflake_format_lex i = decimal_padded 20 (unat i)"

section \<open>Lemmas\<close>

lemma unat_ucast_u32_u64 [simp]: "unat (ucast (w :: u32) :: u64) = unat w"
  by (simp add: unat_ucast_up)

lemma logical_partition_for_key_bound:
  assumes "logical_partition_for_key sip13 key n = Some p"
  shows "unat p < unat n \<and> unat p = unat (partition_hash sip13 key) mod unat n"
proof -
  have n: "0 < unat n" "unat n < 2 ^ 32"
    using assms u32_bound[of n] by (auto simp: logical_partition_for_key_def unat_gt_0 split: if_splits)
  let ?l = "partition_hash sip13 key mod ucast n"
  have l: "unat ?l = unat (partition_hash sip13 key) mod unat n"
    by (simp add: unat_mod_distrib)
  then have "unat ?l < 2 ^ 32"
    using n by (metis mod_less_divisor order_less_trans)
  then have "unat p = unat ?l"
    using assms by (auto simp: logical_partition_for_key_def Let_def try_from_nat_def unat_ucast_down
        split: if_splits)
  with l n show ?thesis by simp
qed

lemma virtual_partition_for_logical_exact:
  assumes "unat n * unat w < 2 ^ 32" "unat l < unat n" "unat writer < unat w"
  shows "unat (virtual_partition_for_logical l n writer) = unat writer * unat n + unat l"
proof -
  have "unat writer * unat n + unat n \<le> unat w * unat n"
    using assms(3) by (metis Suc_leI mult_Suc mult_le_mono1 add.commute)
  with assms show ?thesis
    by (simp add: virtual_partition_for_logical_def machine_int mult.commute)
qed

lemma virtual_partition_for_logical_bound:
  assumes "unat n * unat w < 2 ^ 32" "unat l < unat n" "unat writer < unat w"
  shows "unat (virtual_partition_for_logical l n writer) < unat n * unat w"
proof -
  have "(unat writer + 1) * unat n \<le> unat w * unat n"
    using assms(3) by (intro mult_le_mono1) simp
  then show ?thesis
    using assms(2) by (simp add: virtual_partition_for_logical_exact[OF assms] mult.commute)
qed

lemma window_for_timestamp_bounds:
  assumes "0 < wsize" "window_for_timestamp dates ts wsize = Some w" "fst dates \<le> ts div wsize * wsize" "ts \<le> snd dates"
  shows "window_start w = ts div wsize * wsize"
proof -
  have "ts div wsize * wsize \<le> ts"
    using assms(1) by (metis add.commute add_le_cancel_left div_mult_mod_eq pos_mod_sign add.right_neutral)
  with assms show ?thesis
    by (auto simp: window_for_timestamp_def Let_def checked_instant_def)
qed

lemma div_mult_bounds:
  assumes "0 < (wsize :: int)"
  shows "ts div wsize * wsize \<le> ts" "ts < ts div wsize * wsize + wsize"
  using assms by (smt (verit) div_mult_mod_eq pos_mod_bound pos_mod_sign)+

lemma u64_less_pow10: "unat (i :: u64) < 10 ^ 20"
proof -
  have "(2 :: nat) ^ 64 < 10 ^ 20" by simp
  with u64_bound[of i] show ?thesis by (rule order_less_trans)
qed

lemma snowflake_format_lex_fixed: "snowflake_format_lex i = fixed_decimal 20 (unat i)"
  unfolding snowflake_format_lex_def by (rule decimal_padded_fixed[OF _ u64_less_pow10]) simp

lemma snowflake_format_lex_less: "snowflake_format_lex i < snowflake_format_lex j \<longleftrightarrow> i < j"
  unfolding snowflake_format_lex_fixed word_less_nat_alt
  by (rule fixed_decimal_less[OF u64_less_pow10 u64_less_pow10])

lemma snowflake_format_lex_eq: "snowflake_format_lex i = snowflake_format_lex j \<longleftrightarrow> i = j"
  unfolding snowflake_format_lex_fixed word_unat_eq_iff
  by (rule fixed_decimal_inj[OF u64_less_pow10 u64_less_pow10])

lemma snowflake_format_lex_le: "snowflake_format_lex i \<le> snowflake_format_lex j \<longleftrightarrow> i \<le> j"
  using snowflake_format_lex_less[of j i] by (simp add: linorder_not_less[symmetric])

lemma digits_value_replicate_zero: "digits_value 0 (replicate k (CHR ''0'') @ s) = digits_value 0 s"
  by (induction k) (simp_all add: zero_char)

lemma parse_snowflake_format_lex: "parse_u64 (snowflake_format_lex i) = Some i"
proof -
  let ?s = "snowflake_format_lex i"
  have "digits_value 0 ?s = Some (unat i)"
    by (simp add: snowflake_format_lex_def decimal_padded_def digits_value_replicate_zero digits_value_decimal)
  moreover have "length ?s = 20"
    by (simp add: snowflake_format_lex_fixed)
  then obtain c cs where s: "?s = c # cs" by (cases ?s) auto
  moreover have "c \<noteq> CHR ''+''"
    using calculation by auto
  ultimately show ?thesis
    by (simp add: parse_u64_def parse_digits_def machine_int)
qed

section \<open>Properties\<close>

text \<open>
  Claim C32.  Routing of record keys is exact and injective per writer: for a topic whose virtual
  partition count fits \<open>u32\<close> (what \<open>virtual_partition_count\<close> checks), a key of writer \<open>w\<close> lands on
  a virtual partition of that writer's block \<open>[w * n, (w + 1) * n)\<close>, inside the topic, with the
  logical partition recovered as the remainder by the partition count; two writers therefore never
  share a virtual partition, whatever the hash function.
\<close>

theorem virtual_partition_for_key_in_writer_block:
  assumes "virtual_partition_count n writers = Inr vp_total" and "writer < writers"
    and "virtual_partition_for_key sip13 key n writer = Some vp"
  shows "unat writer * unat n \<le> unat vp \<and> unat vp < (unat writer + 1) * unat n \<and> vp < vp_total
    \<and> unat vp mod unat n = unat (partition_hash sip13 key) mod unat n
    \<and> unat vp div unat n = unat writer"
proof -
  have vp_total: "unat vp_total = unat n * unat writers"
    using assms(1) by (auto simp: virtual_partition_count_def machine_int split: option.splits)
  obtain l where l: "logical_partition_for_key sip13 key n = Some l"
    and vp: "vp = virtual_partition_for_logical l n writer"
    using assms(3) by (auto simp: virtual_partition_for_key_def)
  have lt: "unat l < unat n" and leq: "unat l = unat (partition_hash sip13 key) mod unat n"
    using logical_partition_for_key_bound[OF l] by auto
  have w: "unat writer < unat writers"
    using assms(2) by (simp add: word_less_nat_alt)
  have fits: "unat n * unat writers < 2 ^ 32"
    using vp_total u32_bound[of vp_total] by simp
  have exact: "unat vp = unat writer * unat n + unat l"
    unfolding vp by (rule virtual_partition_for_logical_exact[OF fits lt w])
  have "(unat writer + 1) * unat n \<le> unat writers * unat n"
    using w by (intro mult_le_mono1) simp
  then have "unat vp < unat vp_total"
    using exact lt by (simp add: vp_total mult.commute)
  with exact lt leq show ?thesis by (simp add: word_less_nat_alt)
qed

theorem virtual_partition_for_key_in_writer_block_witness:
  "virtual_partition_count 4 3 = Inr 12 \<and> (2 :: u32) < 3
   \<and> virtual_partition_for_key (\<lambda>_. 7) [1, 2] 4 2 = Some 11
   \<and> unat (11 :: u32) div unat (4 :: u32) = unat (2 :: u32)"
proof -
  have c: "virtual_partition_count 4 3 = Inr 12"
    by (simp add: virtual_partition_count_def checked_mul_def)
  have k: "virtual_partition_for_key (\<lambda>_. 7) [1, 2] 4 2 = Some 11"
    by (simp add: virtual_partition_for_key_def logical_partition_for_key_def partition_hash_def
        virtual_partition_for_logical_def try_from_nat_def saturating_add_def saturating_mul_def)
  have w: "(2 :: u32) < 3" by simp
  show ?thesis
    using c k w virtual_partition_for_key_in_writer_block[OF c w k] by blast
qed

text \<open>
  The fixed-width segment sort key is an order embedding: the lexicographic order of the
  strings that the metadata table sorts and filters by is the numeric order of the segment ids, and
  parsing a sort key gives back its id.
\<close>

theorem snowflake_format_lex_order:
  "(snowflake_format_lex i \<le> snowflake_format_lex j \<longleftrightarrow> i \<le> j)
   \<and> (snowflake_format_lex i = snowflake_format_lex j \<longleftrightarrow> i = j)
   \<and> parse_u64 (snowflake_format_lex i) = Some i \<and> length (snowflake_format_lex i) = 20"
  using snowflake_format_lex_le snowflake_format_lex_eq parse_snowflake_format_lex
  by (simp add: snowflake_format_lex_fixed)

text \<open>
  Windows tile the time line: for a window size that \<open>topic_metadata_window_size\<close>
  accepts, every instant whose window is representable lies in the half-open window it is mapped to,
  the window start is a whole second and a multiple of the size, and two instants share a window
  exactly when they share the aligned start.
\<close>

theorem window_for_timestamp_tiles:
  assumes "topic_metadata_window_size configured = Inr wsize"
    and "window_for_timestamp dates ts wsize = Some w"
    and "fst dates \<le> ts div wsize * wsize" and "ts \<le> snd dates"
  shows "window_start w \<le> ts \<and> ts < window_start w + window_size w
    \<and> window_start w mod wsize = 0 \<and> window_start w mod seconds 1 = 0
    \<and> window_start_unix_seconds (window_key w topic) * seconds 1 = window_start w"
proof -
  have wsize: "0 < wsize" "wsize mod seconds 1 = 0"
    using assms(1) by (auto simp: topic_metadata_window_size_def Let_def split: if_splits)
  have start: "window_start w = ts div wsize * wsize"
    by (rule window_for_timestamp_bounds[OF wsize(1) assms(2-4)])
  have ws: "window_size w = wsize"
    using assms(2) by (auto simp: window_for_timestamp_def Let_def split: if_splits)
  have sec: "window_start w mod seconds 1 = 0"
    unfolding start using wsize(2) by (simp add: mod_mult_right_eq mod_eq_0_iff_dvd)
  have "window_start_unix_seconds (window_key w topic) * seconds 1 = window_start w"
    using sec div_mult_mod_eq[of "window_start w" "seconds 1"] by (simp add: window_key_def)
  with start ws sec div_mult_bounds[OF wsize(1), of ts] show ?thesis by simp
qed

theorem window_for_timestamp_tiles_witness:
  "topic_metadata_window_size None = Inr 300000000000
   \<and> window_for_timestamp (0, 10 ^ 18) 700000000001 300000000000
       = Some \<lparr>window_start = 600000000000, window_size = 300000000000\<rparr>
   \<and> window_start_unix_seconds
       (window_key \<lparr>window_start = 600000000000, window_size = 300000000000\<rparr> ''t'') * seconds 1
       = 600000000000"
proof -
  have s: "topic_metadata_window_size None = Inr 300000000000"
    by (simp add: topic_metadata_window_size_def DEFAULT_METADATA_WINDOW_SIZE_def seconds_def)
  have w: "window_for_timestamp (0, 10 ^ 18) 700000000001 300000000000
       = Some \<lparr>window_start = 600000000000, window_size = 300000000000\<rparr>"
    by (simp add: window_for_timestamp_def checked_instant_def)
  show ?thesis
    using s w window_for_timestamp_tiles[OF s w] by simp
qed

end
