(* ===== verification/Lease_Contracts.thy ===== *)
theory Lease_Contracts
  imports Prelude
begin

text \<open>
  The contracts that the broker and the consumer coordinator expect of a lease store, stated over
  the store's operations and proved to have their consequences once: exclusive ownership until
  expiry, fencing epochs that identify an owner, and reservations that never overlap.  The stores
  interpret them (\<open>Producer_Lease\<close>, \<open>Consumer_Lease\<close>, \<open>Membership\<close>).
\<close>

section \<open>Runs\<close>

text \<open>What the operations of a run return, in order, for those that return something.\<close>

fun run_outputs :: "('op \<Rightarrow> 's \<Rightarrow> 's) \<Rightarrow> ('op \<Rightarrow> 's \<Rightarrow> 'g option) \<Rightarrow> 'op list \<Rightarrow> 's \<Rightarrow> 'g list" where
  "run_outputs step out [] s = []"
| "run_outputs step out (op # ops) s =
     (case out op s of
        None \<Rightarrow> run_outputs step out ops (step op s)
      | Some g \<Rightarrow> g # run_outputs step out ops (step op s))"

lemma run_outputs_later:
  assumes "out op s = Some g" "Suc j < length (run_outputs step out (op # ops) s)"
  shows "run_outputs step out (op # ops) s ! Suc j \<in> set (run_outputs step out ops (step op s))"
  using assms by auto

section \<open>Exclusive ownership\<close>

text \<open>
  A row is owned until its expiry.  The law: an operation by an actor that does not own a row leaves
  the row as it is while the row has not expired.
\<close>

locale exclusive_lease =
  fixes step :: "'op \<Rightarrow> 's \<Rightarrow> 's"
    and row :: "'s \<Rightarrow> 'k \<Rightarrow> 'r option"
    and owner :: "'r \<Rightarrow> 'o"
    and expiry :: "'r \<Rightarrow> int"
    and actor :: "'op \<Rightarrow> 'o"
    and at_time :: "'op \<Rightarrow> int"
  assumes foreign_step_keeps_live_row:
    "row s k = Some r \<Longrightarrow> at_time op < expiry r \<Longrightarrow> actor op \<noteq> owner r \<Longrightarrow> row (step op s) k = Some r"
begin

lemma foreign_run_keeps_live_row:
  assumes "row s k = Some r"
    and "\<forall>op \<in> set ops. at_time op < expiry r \<and> actor op \<noteq> owner r"
  shows "row (fold step ops s) k = Some r"
  using assms
proof (induction ops arbitrary: s)
  case Nil
  then show ?case by simp
next
  case (Cons op ops)
  then have "row (step op s) k = Some r"
    by (intro foreign_step_keeps_live_row) auto
  with Cons show ?case by simp
qed

end

section \<open>Fencing epochs\<close>

text \<open>
  A row carries an epoch.  The laws: an operation keeps the row's owner and epoch, or installs a row
  with a larger epoch; rows never disappear; an authorisation that an operation returns carries the
  owner and the epoch of the row it leaves behind.
\<close>

locale fenced_lease =
  fixes step :: "'op \<Rightarrow> 's \<Rightarrow> 's"
    and row :: "'s \<Rightarrow> 'k \<Rightarrow> 'r option"
    and owner :: "'r \<Rightarrow> 'o"
    and epoch :: "'r \<Rightarrow> nat"
    and grant :: "'op \<Rightarrow> 's \<Rightarrow> ('k \<times> 'o \<times> nat) option"
  assumes epoch_step:
    "row s k = Some r \<Longrightarrow> \<exists>r'. row (step op s) k = Some r'
       \<and> (epoch r < epoch r' \<or> epoch r = epoch r' \<and> owner r = owner r')"
    and grant_row:
    "grant op s = Some (k, ow, e) \<Longrightarrow> \<exists>r'. row (step op s) k = Some r' \<and> owner r' = ow \<and> epoch r' = e"
begin

lemma grants_after_row:
  assumes "row s k = Some r" and "(k, ow, e) \<in> set (run_outputs step grant ops s)"
  shows "epoch r < e \<or> epoch r = e \<and> owner r = ow"
  using assms
proof (induction ops arbitrary: s r)
  case Nil
  then show ?case by simp
next
  case (Cons op ops)
  obtain r' where r': "row (step op s) k = Some r'"
    and mono: "epoch r < epoch r' \<or> epoch r = epoch r' \<and> owner r = owner r'"
    using epoch_step[OF Cons.prems(1), of op] by blast
  from Cons.prems(2) consider "grant op s = Some (k, ow, e)" | "(k, ow, e) \<in> set (run_outputs step grant ops (step op s))"
    by (auto split: option.splits)
  then show ?case
  proof cases
    case 1
    then show ?thesis using grant_row[of op s k ow e] r' mono by auto
  next
    case 2
    with Cons.IH[OF r'] mono show ?thesis by auto
  qed
qed

text \<open>Two authorisations with one epoch have one owner, and epochs never decrease along a run.\<close>

lemma grants_epoch_identifies_owner:
  assumes "i < j" "j < length (run_outputs step grant ops s)"
    and "run_outputs step grant ops s ! i = (k, ow, e)" and "run_outputs step grant ops s ! j = (k, ow', e')"
  shows "e < e' \<or> e = e' \<and> ow = ow'"
  using assms
proof (induction ops arbitrary: s i j)
  case Nil
  then show ?case by simp
next
  case (Cons op ops)
  show ?case
  proof (cases "grant op s")
    case None
    with Cons.prems Cons.IH show ?thesis by simp
  next
    case (Some g)
    then have gs: "run_outputs step grant (op # ops) s = g # run_outputs step grant ops (step op s)" by simp
    obtain j' where j: "j = Suc j'" using Cons.prems(1) by (cases j) auto
    show ?thesis
    proof (cases i)
      case 0
      then have g: "g = (k, ow, e)" using Cons.prems(3) gs by simp
      obtain r where r: "row (step op s) k = Some r" "owner r = ow" "epoch r = e"
        using grant_row Some g by blast
      have "(k, ow', e') \<in> set (run_outputs step grant ops (step op s))"
        using Cons.prems(2,4) run_outputs_later[of _ op s] Some j by metis
      with grants_after_row[OF r(1)] r show ?thesis by auto
    next
      case (Suc i')
      with Cons.prems gs j Cons.IH[of i' j' "step op s"] show ?thesis by simp
    qed
  qed
qed

end

section \<open>Reservations\<close>

text \<open>
  A store hands out ranges of numbers per key.  The laws: a granted range starts at or above the
  key's mark, is not empty and moves the mark past its end; no operation lowers a mark.
\<close>

locale range_reservation =
  fixes step :: "'op \<Rightarrow> 's \<Rightarrow> 's"
    and mark :: "'s \<Rightarrow> 'k \<Rightarrow> nat"
    and reserved :: "'op \<Rightarrow> 's \<Rightarrow> ('k \<times> nat \<times> nat) option"
  assumes mark_mono: "mark s k \<le> mark (step op s) k"
    and reserved_fresh: "reserved op s = Some (k, a, b) \<Longrightarrow> mark s k \<le> a \<and> a \<le> b \<and> b < mark (step op s) k"
begin

lemma reservations_above_mark:
  "(k, a, b) \<in> set (run_outputs step reserved ops s) \<Longrightarrow> mark s k \<le> a \<and> a \<le> b"
proof (induction ops arbitrary: s)
  case Nil
  then show ?case by simp
next
  case (Cons op ops)
  from Cons.prems consider "reserved op s = Some (k, a, b)" | "(k, a, b) \<in> set (run_outputs step reserved ops (step op s))"
    by (auto split: option.splits)
  then show ?case
  proof cases
    case 1
    then show ?thesis using reserved_fresh by blast
  next
    case 2
    with Cons.IH mark_mono[of s k op] show ?thesis by fastforce
  qed
qed

text \<open>Ranges of one key are disjoint and appear in increasing order, whoever asked for them.\<close>

lemma reservations_increasing:
  assumes "i < j" "j < length (run_outputs step reserved ops s)"
    and "run_outputs step reserved ops s ! i = (k, a, b)" and "run_outputs step reserved ops s ! j = (k, a', b')"
  shows "b < a'"
  using assms
proof (induction ops arbitrary: s i j)
  case Nil
  then show ?case by simp
next
  case (Cons op ops)
  show ?case
  proof (cases "reserved op s")
    case None
    with Cons.prems Cons.IH show ?thesis by simp
  next
    case (Some g)
    then have gs: "run_outputs step reserved (op # ops) s = g # run_outputs step reserved ops (step op s)" by simp
    obtain j' where j: "j = Suc j'" using Cons.prems(1) by (cases j) auto
    show ?thesis
    proof (cases i)
      case 0
      then have g: "g = (k, a, b)" using Cons.prems(3) gs by simp
      have "b < mark (step op s) k" using reserved_fresh Some g by blast
      moreover have "(k, a', b') \<in> set (run_outputs step reserved ops (step op s))"
        using Cons.prems(2,4) run_outputs_later[of _ op s] Some j by metis
      ultimately show ?thesis using reservations_above_mark by fastforce
    next
      case (Suc i')
      with Cons.prems gs j Cons.IH[of i' j' "step op s"] show ?thesis by simp
    qed
  qed
qed

end

section \<open>Last accepted write\<close>

text \<open>
  A store keeps a value per key and reports the writes it accepts.  The law: an operation changes the
  value of a key exactly when it reports a write for that key, and then to the value it reports.
\<close>

locale last_write_register =
  fixes step :: "'op \<Rightarrow> 's \<Rightarrow> 's"
    and content :: "'s \<Rightarrow> 'k \<Rightarrow> 'v option"
    and written :: "'op \<Rightarrow> 's \<Rightarrow> ('k \<times> 'v) option"
  assumes content_step:
    "content (step op s) k =
       (case written op s of Some (k', v) \<Rightarrow> if k' = k then Some v else content s k | None \<Rightarrow> content s k)"
begin

lemma content_run:
  "content (fold step ops s) k =
     (case map_of (rev (run_outputs step written ops s)) k of Some v \<Rightarrow> Some v | None \<Rightarrow> content s k)"
proof (induction ops arbitrary: s)
  case Nil
  then show ?case by simp
next
  case (Cons op ops)
  show ?case
    using Cons[of "step op s"] content_step[of op s k]
    by (auto simp: map_add_def split: option.splits prod.splits if_splits)
qed

end

end
