(* ===== verification/Consumer_Lease.thy ===== *)
theory Consumer_Lease
  imports Types Lease_Contracts
begin

text \<open>
  The consumer-group lease store of \<open>blob-stream-metadata-store\<close>: the lease types of \<open>lib.rs\<close> and
  the in-memory store of \<open>consumer_group_leases_memory.rs\<close>.  A row says which member of a group owns a
  virtual partition until when, and keeps the group's committed cursor across owners.
\<close>

section \<open>Lease types\<close>

record ConsumerGroupLeaseKey =
  clk_topic :: string
  clk_group_id :: string
  clk_virtual_partition_id :: VirtualPartitionId

definition consumer_lease_partition_key :: "ConsumerGroupLeaseKey \<Rightarrow> string" where
  "consumer_lease_partition_key key = clk_topic key @ ''#'' @ clk_group_id key"

definition consumer_lease_sort_key :: "ConsumerGroupLeaseKey \<Rightarrow> string" where
  "consumer_lease_sort_key key = decimal (unat (clk_virtual_partition_id key))"

record ConsumerGroupLease =
  cgl_key :: ConsumerGroupLeaseKey
  cgl_owner_id :: string
  cgl_generation :: u64
  cgl_lease_expiration_ts_ms :: int
  cgl_last_heartbeat_ts_ms :: int
  cgl_committed_cursor :: "CommittedCursor option"
  cgl_committed_ts_ms :: "int option"

datatype ConsumerGroupLeaseTransition =
    Initial
  | Retained
  | GracefulHandoff string u64 int int
    \<comment> \<open>previous owner, previous generation, its last heartbeat, the release time\<close>
  | ExpiryTakeover string u64 int
    \<comment> \<open>previous owner, previous generation, its last heartbeat\<close>

record ConsumerGroupLeasePredecessor =
  pred_owner_id :: string
  pred_generation :: u64
  pred_last_heartbeat_ts_ms :: int
  pred_graceful_release_ts_ms :: "int option"

definition consumer_group_lease_transition ::
    "ConsumerGroupLeasePredecessor option \<Rightarrow> string \<Rightarrow> ConsumerGroupLeaseTransition" where
  "consumer_group_lease_transition previous owner =
   (case previous of
      None \<Rightarrow> Initial
    | Some p \<Rightarrow>
       if pred_owner_id p = owner then Retained
       else case pred_graceful_release_ts_ms p of
         Some released \<Rightarrow>
           GracefulHandoff (pred_owner_id p) (pred_generation p) (pred_last_heartbeat_ts_ms p) released
       | None \<Rightarrow>
           ExpiryTakeover (pred_owner_id p) (pred_generation p) (pred_last_heartbeat_ts_ms p))"

datatype ConsumerGroupAssignmentOutcome =
    Assigned ConsumerGroupLease "ConsumerGroupLease option" ConsumerGroupLeaseTransition
  | AssignmentHeldByOther ConsumerGroupLease

datatype ConsumerGroupHeartbeatOutcome =
    ConsumerHeartbeatRenewed ConsumerGroupLease
  | ConsumerHeartbeatHeldByOther ConsumerGroupLease
  | ConsumerHeartbeatExpired

datatype ConsumerGroupCommitOutcome =
    Committed ConsumerGroupLease
  | CommitHeldByOther ConsumerGroupLease
  | CommitExpired

datatype ConsumerGroupReleaseOutcome =
    ConsumerReleased
  | ConsumerReleaseHeldByOther ConsumerGroupLease
  | ConsumerReleaseExpired

section \<open>The in-memory store\<close>

datatype ConsumerLeaseError =
    CurrentTimeOutOfRange
  | LeaseDurationOutOfRange
  | ConsumerExpirationOverflow
  | CursorPartitionMismatch

record ConsumerLeaseState =
  owner_id :: string
  generation :: u64
  lease_expiration_ts_ms :: int
  last_heartbeat_ts_ms :: int
  committed_cursor :: "CommittedCursor option"
  committed_ts_ms :: "int option"
  graceful_release_ts_ms :: "int option"

type_synonym ConsumerLeaseStore = "(ConsumerGroupLeaseKey, ConsumerLeaseState) hmap"

definition consumer_is_expired :: "ConsumerLeaseState \<Rightarrow> int \<Rightarrow> bool" where
  "consumer_is_expired state now_ts_ms \<longleftrightarrow> lease_expiration_ts_ms state \<le> now_ts_ms"

definition consumer_to_lease :: "ConsumerLeaseState \<Rightarrow> ConsumerGroupLeaseKey \<Rightarrow> ConsumerGroupLease" where
  "consumer_to_lease state key =
     \<lparr>cgl_key = key, cgl_owner_id = owner_id state, cgl_generation = generation state,
      cgl_lease_expiration_ts_ms = lease_expiration_ts_ms state,
      cgl_last_heartbeat_ts_ms = last_heartbeat_ts_ms state,
      cgl_committed_cursor = committed_cursor state,
      cgl_committed_ts_ms = committed_ts_ms state\<rparr>"

definition validate_cursor :: "ConsumerGroupLeaseKey \<Rightarrow> CommittedCursor \<Rightarrow> ConsumerLeaseError option" where
  "validate_cursor key cursor =
     (if clk_virtual_partition_id key \<noteq> cursor_virtual_partition_id cursor
      then Some CursorPartitionMismatch else None)"

definition consumer_expires_at :: "int \<Rightarrow> int \<Rightarrow> ConsumerLeaseError + int" where
  "consumer_expires_at now_ts_ms lease_duration_ms =
     (case checked_add_i64 now_ts_ms lease_duration_ms of
        None \<Rightarrow> Inl ConsumerExpirationOverflow
      | Some t \<Rightarrow> Inr t)"

text \<open>The conversions at the head of every operation.\<close>

definition current_ts_ms :: "instant \<Rightarrow> ConsumerLeaseError + int" where
  "current_ts_ms now =
     (case unix_millis_from_offset_datetime now of
        None \<Rightarrow> Inl CurrentTimeOutOfRange
      | Some t \<Rightarrow> Inr t)"

definition lease_duration_ms :: "duration \<Rightarrow> ConsumerLeaseError + int" where
  "lease_duration_ms d =
     (case i64_try_from (whole_milliseconds d) of
        None \<Rightarrow> Inl LeaseDurationOutOfRange
      | Some t \<Rightarrow> Inr t)"

definition list_group_leases :: "ConsumerLeaseStore \<Rightarrow> string \<Rightarrow> string \<Rightarrow> ConsumerGroupLease list" where
  "list_group_leases store topic group_id =
     sort_key (\<lambda>lease. clk_virtual_partition_id (cgl_key lease))
       (map (\<lambda>(key, state). consumer_to_lease state key)
         (filter (\<lambda>(key, _). clk_topic key = topic \<and> clk_group_id key = group_id) store))"

definition list_active_leases ::
    "ConsumerLeaseStore \<Rightarrow> string list \<Rightarrow> instant \<Rightarrow> ConsumerLeaseError + ConsumerGroupLease list" where
  "list_active_leases store topics now =
   (case current_ts_ms now of
      Inl e \<Rightarrow> Inl e
    | Inr now_ts_ms \<Rightarrow>
       Inr (sort_key (\<lambda>lease. (clk_topic (cgl_key lease), clk_group_id (cgl_key lease),
                              clk_virtual_partition_id (cgl_key lease)))
         (map (\<lambda>(key, state). consumer_to_lease state key)
           (filter (\<lambda>(key, state). clk_topic key \<in> set topics
                      \<and> now_ts_ms < lease_expiration_ts_ms state) store))))"

definition assign_partition ::
    "ConsumerLeaseStore \<Rightarrow> ConsumerGroupLeaseKey \<Rightarrow> string \<Rightarrow> u64 \<Rightarrow> instant \<Rightarrow> duration
     \<Rightarrow> (ConsumerLeaseError + ConsumerGroupAssignmentOutcome) \<times> ConsumerLeaseStore" where
  "assign_partition store key owner gen now lease_duration =
   (case current_ts_ms now of Inl e \<Rightarrow> (Inl e, store) | Inr now_ts_ms \<Rightarrow>
   (case lease_duration_ms lease_duration of Inl e \<Rightarrow> (Inl e, store) | Inr duration_ms \<Rightarrow>
   (case consumer_expires_at now_ts_ms duration_ms of Inl e \<Rightarrow> (Inl e, store) | Inr expires \<Rightarrow>
   (case hm_get store key of
      None \<Rightarrow>
        (let lease = \<lparr>owner_id = owner, generation = gen, lease_expiration_ts_ms = expires,
                      last_heartbeat_ts_ms = now_ts_ms, committed_cursor = None,
                      committed_ts_ms = None, graceful_release_ts_ms = None\<rparr>
         in (Inr (Assigned (consumer_to_lease lease key) None Initial), hm_insert key lease store))
    | Some previous \<Rightarrow>
        if consumer_is_expired previous now_ts_ms then
          (let transition = consumer_group_lease_transition
                 (Some \<lparr>pred_owner_id = owner_id previous, pred_generation = generation previous,
                        pred_last_heartbeat_ts_ms = last_heartbeat_ts_ms previous,
                        pred_graceful_release_ts_ms = graceful_release_ts_ms previous\<rparr>) owner;
               state = previous\<lparr>owner_id := owner, generation := gen,
                 lease_expiration_ts_ms := expires, last_heartbeat_ts_ms := now_ts_ms,
                 graceful_release_ts_ms := None\<rparr>
           in (Inr (Assigned (consumer_to_lease state key) (Some (consumer_to_lease previous key)) transition),
               hm_insert key state store))
        else if owner_id previous = owner then
          (if gen < generation previous
           then (Inr (AssignmentHeldByOther (consumer_to_lease previous key)), store)
           else
             let state = previous\<lparr>generation := gen, lease_expiration_ts_ms := expires,
                   last_heartbeat_ts_ms := now_ts_ms, graceful_release_ts_ms := None\<rparr>
             in (Inr (Assigned (consumer_to_lease state key) (Some (consumer_to_lease previous key)) Retained),
                 hm_insert key state store))
        else (Inr (AssignmentHeldByOther (consumer_to_lease previous key)), store)))))"

definition heartbeat_partition ::
    "ConsumerLeaseStore \<Rightarrow> ConsumerGroupLeaseKey \<Rightarrow> string \<Rightarrow> u64 \<Rightarrow> instant \<Rightarrow> duration
     \<Rightarrow> CommittedCursor option
     \<Rightarrow> (ConsumerLeaseError + ConsumerGroupHeartbeatOutcome) \<times> ConsumerLeaseStore" where
  "heartbeat_partition store key owner gen now lease_duration cursor =
   (case (case cursor of None \<Rightarrow> None | Some c \<Rightarrow> validate_cursor key c) of
      Some e \<Rightarrow> (Inl e, store)
    | None \<Rightarrow>
   (case current_ts_ms now of Inl e \<Rightarrow> (Inl e, store) | Inr now_ts_ms \<Rightarrow>
   (case lease_duration_ms lease_duration of Inl e \<Rightarrow> (Inl e, store) | Inr duration_ms \<Rightarrow>
   (case hm_get store key of
      None \<Rightarrow> (Inr ConsumerHeartbeatExpired, store)
    | Some state \<Rightarrow>
        if consumer_is_expired state now_ts_ms then (Inr ConsumerHeartbeatExpired, store)
        else if owner_id state \<noteq> owner \<or> generation state \<noteq> gen
        then (Inr (ConsumerHeartbeatHeldByOther (consumer_to_lease state key)), store)
        else case consumer_expires_at now_ts_ms duration_ms of
          Inl e \<Rightarrow> (Inl e, store)
        | Inr expires \<Rightarrow>
           let state1 = state\<lparr>lease_expiration_ts_ms := expires, last_heartbeat_ts_ms := now_ts_ms\<rparr>;
               state2 = (case cursor of
                           Some c \<Rightarrow> state1\<lparr>committed_cursor := Some c, committed_ts_ms := Some now_ts_ms\<rparr>
                         | None \<Rightarrow> state1)
           in (Inr (ConsumerHeartbeatRenewed (consumer_to_lease state2 key)), hm_insert key state2 store)))))"

definition commit_cursor ::
    "ConsumerLeaseStore \<Rightarrow> ConsumerGroupLeaseKey \<Rightarrow> string \<Rightarrow> u64 \<Rightarrow> instant \<Rightarrow> CommittedCursor
     \<Rightarrow> (ConsumerLeaseError + ConsumerGroupCommitOutcome) \<times> ConsumerLeaseStore" where
  "commit_cursor store key owner gen now cursor =
   (case validate_cursor key cursor of Some e \<Rightarrow> (Inl e, store) | None \<Rightarrow>
   (case current_ts_ms now of Inl e \<Rightarrow> (Inl e, store) | Inr now_ts_ms \<Rightarrow>
   (case hm_get store key of
      None \<Rightarrow> (Inr CommitExpired, store)
    | Some state \<Rightarrow>
        if consumer_is_expired state now_ts_ms then (Inr CommitExpired, store)
        else if owner_id state \<noteq> owner \<or> generation state \<noteq> gen
        then (Inr (CommitHeldByOther (consumer_to_lease state key)), store)
        else
          let state' = state\<lparr>committed_cursor := Some cursor, committed_ts_ms := Some now_ts_ms\<rparr>
          in (Inr (Committed (consumer_to_lease state' key)), hm_insert key state' store))))"

definition release_partition ::
    "ConsumerLeaseStore \<Rightarrow> ConsumerGroupLeaseKey \<Rightarrow> string \<Rightarrow> u64 \<Rightarrow> instant
     \<Rightarrow> (ConsumerLeaseError + ConsumerGroupReleaseOutcome) \<times> ConsumerLeaseStore" where
  "release_partition store key owner gen now =
   (case current_ts_ms now of Inl e \<Rightarrow> (Inl e, store) | Inr now_ts_ms \<Rightarrow>
   (case hm_get store key of
      None \<Rightarrow> (Inr ConsumerReleaseExpired, store)
    | Some state \<Rightarrow>
        if consumer_is_expired state now_ts_ms then (Inr ConsumerReleaseExpired, store)
        else if owner_id state \<noteq> owner \<or> generation state \<noteq> gen
        then (Inr (ConsumerReleaseHeldByOther (consumer_to_lease state key)), store)
        else
          let state' = state\<lparr>lease_expiration_ts_ms := now_ts_ms, last_heartbeat_ts_ms := now_ts_ms,
                graceful_release_ts_ms := Some now_ts_ms\<rparr>
          in (Inr ConsumerReleased, hm_insert key state' store)))"

section \<open>The store as a state machine\<close>

datatype consumer_lease_call =
    AssignCall duration
  | ConsumerHeartbeatCall duration "CommittedCursor option"
  | CommitCall CommittedCursor
  | ConsumerReleaseCall

record consumer_lease_op =
  cop_key :: ConsumerGroupLeaseKey
  cop_owner :: string
  cop_generation :: u64
  cop_now :: instant
  cop_call :: consumer_lease_call

definition consumer_lease_step :: "consumer_lease_op \<Rightarrow> ConsumerLeaseStore \<Rightarrow> ConsumerLeaseStore" where
  "consumer_lease_step op store =
   (let key = cop_key op; owner = cop_owner op; gen = cop_generation op; now = cop_now op
    in case cop_call op of
      AssignCall d \<Rightarrow> snd (assign_partition store key owner gen now d)
    | ConsumerHeartbeatCall d c \<Rightarrow> snd (heartbeat_partition store key owner gen now d c)
    | CommitCall c \<Rightarrow> snd (commit_cursor store key owner gen now c)
    | ConsumerReleaseCall \<Rightarrow> snd (release_partition store key owner gen now))"

text \<open>The cursor a call reports as committed, with its partition.\<close>

definition cursor_committed ::
    "consumer_lease_op \<Rightarrow> ConsumerLeaseStore \<Rightarrow> (ConsumerGroupLeaseKey \<times> CommittedCursor) option" where
  "cursor_committed op store =
   (let key = cop_key op; owner = cop_owner op; gen = cop_generation op; now = cop_now op
    in case cop_call op of
      ConsumerHeartbeatCall d (Some c) \<Rightarrow>
        (case fst (heartbeat_partition store key owner gen now d (Some c)) of
           Inr (ConsumerHeartbeatRenewed _) \<Rightarrow> Some (key, c) | _ \<Rightarrow> None)
    | CommitCall c \<Rightarrow>
        (case fst (commit_cursor store key owner gen now c) of
           Inr (Committed _) \<Rightarrow> Some (key, c) | _ \<Rightarrow> None)
    | _ \<Rightarrow> None)"

definition committed_cursor_of :: "ConsumerLeaseStore \<Rightarrow> ConsumerGroupLeaseKey \<Rightarrow> CommittedCursor option" where
  "committed_cursor_of store key = Option.bind (hm_get store key) committed_cursor"

section \<open>Rows under the operations\<close>

lemma current_ts_ms_Inr: "current_ts_ms now = Inr t \<Longrightarrow> t = now div 1000000"
  by (auto simp: current_ts_ms_def unix_millis_from_offset_datetime_def machine_int split: option.splits)

lemma consumer_expires_at_Inr: "consumer_expires_at t d = Inr e \<Longrightarrow> e = t + d"
  by (auto simp: consumer_expires_at_def machine_int split: option.splits)

lemmas consumer_op_defs = assign_partition_def heartbeat_partition_def commit_cursor_def release_partition_def

lemma consumer_step_frame:
  "k \<noteq> cop_key op \<Longrightarrow> hm_get (consumer_lease_step op store) k = hm_get store k"
  by (auto simp: consumer_lease_step_def consumer_op_defs hash_map Let_def
      split: consumer_lease_call.splits sum.splits option.splits)

lemma consumer_step_foreign_live:
  assumes "hm_get store (cop_key op) = Some r" "cop_now op div 1000000 < lease_expiration_ts_ms r"
    and "cop_owner op \<noteq> owner_id r"
  shows "consumer_lease_step op store = store"
  using assms
  by (auto simp: consumer_lease_step_def consumer_op_defs consumer_is_expired_def Let_def
      split: consumer_lease_call.splits sum.splits option.splits dest!: current_ts_ms_Inr)

interpretation consumer_exclusive: exclusive_lease consumer_lease_step hm_get owner_id lease_expiration_ts_ms
    cop_owner "\<lambda>op. cop_now op div 1000000"
proof
  fix store :: ConsumerLeaseStore and k r and op :: consumer_lease_op
  assume "hm_get store k = Some r" "cop_now op div 1000000 < lease_expiration_ts_ms r" "cop_owner op \<noteq> owner_id r"
  then show "hm_get (consumer_lease_step op store) k = Some r"
    using consumer_step_frame[of k op store] consumer_step_foreign_live[of store op r]
    by (cases "k = cop_key op") auto
qed

interpretation cursor_register: last_write_register consumer_lease_step committed_cursor_of cursor_committed
proof
  fix op store k
  show "committed_cursor_of (consumer_lease_step op store) k =
      (case cursor_committed op store of
         Some (k', v) \<Rightarrow> if k' = k then Some v else committed_cursor_of store k
       | None \<Rightarrow> committed_cursor_of store k)"
  proof (cases "k = cop_key op")
    case True
    then show ?thesis
      by (cases "cop_call op")
        (auto simp: consumer_lease_step_def cursor_committed_def committed_cursor_of_def consumer_op_defs
          hash_map Let_def split: sum.splits option.splits)
  next
    case False
    then show ?thesis
      using consumer_step_frame[OF False] by (auto simp: cursor_committed_def committed_cursor_of_def Let_def
          split: option.splits consumer_lease_call.splits sum.splits ConsumerGroupHeartbeatOutcome.splits
            ConsumerGroupCommitOutcome.splits)
  qed
qed

lemma assign_partition_cases:
  assumes "current_ts_ms now = Inr t" "lease_duration_ms d = Inr m" "consumer_expires_at t m = Inr e"
  shows "assign_partition store key owner gen now d =
   (let assigned = (\<lambda>state. \<lparr>owner_id = owner, generation = gen, lease_expiration_ts_ms = e,
          last_heartbeat_ts_ms = t, committed_cursor = Option.bind state committed_cursor,
          committed_ts_ms = Option.bind state committed_ts_ms, graceful_release_ts_ms = None\<rparr>);
        result = (\<lambda>transition. let state' = assigned (hm_get store key) in
          (Inr (Assigned (consumer_to_lease state' key)
                  (map_option (\<lambda>st. consumer_to_lease st key) (hm_get store key)) transition),
           hm_insert key state' store))
    in case hm_get store key of
         None \<Rightarrow> result Initial
       | Some row \<Rightarrow>
           if owner_id row = owner \<and> (consumer_is_expired row t \<or> generation row \<le> gen) then result Retained
           else if consumer_is_expired row t then result (case graceful_release_ts_ms row of
               Some r \<Rightarrow> GracefulHandoff (owner_id row) (generation row) (last_heartbeat_ts_ms row) r
             | None \<Rightarrow> ExpiryTakeover (owner_id row) (generation row) (last_heartbeat_ts_ms row))
           else (Inr (AssignmentHeldByOther (consumer_to_lease row key)), store))"
proof (cases "hm_get store key")
  case None
  with assms show ?thesis by (simp add: assign_partition_def Let_def)
next
  case (Some row)
  with assms show ?thesis
    by (cases row) (auto simp: assign_partition_def consumer_group_lease_transition_def Let_def
        linorder_not_less[symmetric] split: option.splits)
qed

definition lease_order :: "ConsumerGroupLeaseKey \<Rightarrow> string \<times> string \<times> VirtualPartitionId" where
  "lease_order key = (clk_topic key, clk_group_id key, clk_virtual_partition_id key)"

lemma inj_lease_order: "inj lease_order"
  by (rule injI) (simp add: lease_order_def)

lemma cgl_key_to_lease [simp]: "cgl_key (consumer_to_lease state key) = key"
  by (simp add: consumer_to_lease_def)

section \<open>Properties\<close>

text \<open>
  Claim C21.  Until a consumer lease expires, whatever other members of the group call leaves its row
  untouched: they can neither take the partition, release it nor move its cursor.
\<close>

theorem consumer_lease_exclusive:
  assumes "hm_get store key = Some row"
    and "\<forall>op \<in> set ops. cop_now op div 1000000 < lease_expiration_ts_ms row \<and> cop_owner op \<noteq> owner_id row"
  shows "hm_get (fold consumer_lease_step ops store) key = Some row"
  using assms by (rule consumer_exclusive.foreign_run_keeps_live_row)

theorem consumer_lease_exclusive_witness:
  "let key = \<lparr>clk_topic = ''t'', clk_group_id = ''g'', clk_virtual_partition_id = 2\<rparr>;
       row = \<lparr>owner_id = ''a'', generation = 4, lease_expiration_ts_ms = 10, last_heartbeat_ts_ms = 0,
              committed_cursor = None, committed_ts_ms = None, graceful_release_ts_ms = None\<rparr>;
       op = \<lparr>cop_key = key, cop_owner = ''b'', cop_generation = 5, cop_now = 9000000, cop_call = AssignCall 1000\<rparr>
   in hm_get (fold consumer_lease_step [op, op\<lparr>cop_call := ConsumerReleaseCall\<rparr>] [(key, row)]) key = Some row"
proof -
  let ?key = "\<lparr>clk_topic = ''t'', clk_group_id = ''g'', clk_virtual_partition_id = 2\<rparr>"
  let ?row = "\<lparr>owner_id = ''a'', generation = 4, lease_expiration_ts_ms = 10, last_heartbeat_ts_ms = 0,
      committed_cursor = None, committed_ts_ms = None, graceful_release_ts_ms = None\<rparr>"
  let ?op = "\<lparr>cop_key = ?key, cop_owner = ''b'', cop_generation = 5, cop_now = 9000000, cop_call = AssignCall 1000\<rparr>"
  show ?thesis
    unfolding Let_def by (rule consumer_lease_exclusive) simp_all
qed

text \<open>
  Claim C20.  The cursor the store holds for a partition after any sequence of calls, across renewals,
  releases and takeovers by other members, is the last one a call reported as committed, or the
  initial one when there was none.
\<close>

theorem committed_cursor_is_last_commit:
  "committed_cursor_of (fold consumer_lease_step ops store) key =
     (case map_of (rev (run_outputs consumer_lease_step cursor_committed ops store)) key of
        Some cursor \<Rightarrow> Some cursor
      | None \<Rightarrow> committed_cursor_of store key)"
  by (rule cursor_register.content_run)

text \<open>
  Claim C22.  A cursor is accepted only from the member that owns the unexpired lease, under the
  lease's current generation, and only for the partition of the lease.
\<close>

theorem cursor_commit_authorised:
  assumes "cursor_committed op store = Some (key, cursor)"
  shows "\<exists>row. hm_get store key = Some row \<and> cop_now op div 1000000 < lease_expiration_ts_ms row
    \<and> owner_id row = cop_owner op \<and> generation row = cop_generation op
    \<and> cursor_virtual_partition_id cursor = clk_virtual_partition_id key"
  using assms
  by (auto simp: cursor_committed_def heartbeat_partition_def commit_cursor_def validate_cursor_def
      consumer_is_expired_def Let_def dest!: current_ts_ms_Inr
      split: consumer_lease_call.splits sum.splits option.splits if_splits
        ConsumerGroupHeartbeatOutcome.splits ConsumerGroupCommitOutcome.splits)

theorem cursor_commit_authorised_witness:
  "let key = \<lparr>clk_topic = ''t'', clk_group_id = ''g'', clk_virtual_partition_id = 2\<rparr>;
       row = \<lparr>owner_id = ''a'', generation = 4, lease_expiration_ts_ms = 10, last_heartbeat_ts_ms = 0,
              committed_cursor = None, committed_ts_ms = None, graceful_release_ts_ms = None\<rparr>;
       cursor = \<lparr>cursor_virtual_partition_id = 2, cursor_seq_end = 17, source_checkpoint = None\<rparr>;
       op = \<lparr>cop_key = key, cop_owner = ''a'', cop_generation = 4, cop_now = 9000000, cop_call = CommitCall cursor\<rparr>
   in cursor_committed op [(key, row)] = Some (key, cursor)
      \<and> (\<exists>row'. hm_get [(key, row)] key = Some row' \<and> 9 < lease_expiration_ts_ms row')"
proof -
  let ?key = "\<lparr>clk_topic = ''t'', clk_group_id = ''g'', clk_virtual_partition_id = 2\<rparr>"
  let ?row = "\<lparr>owner_id = ''a'', generation = 4, lease_expiration_ts_ms = 10, last_heartbeat_ts_ms = 0,
      committed_cursor = None, committed_ts_ms = None, graceful_release_ts_ms = None\<rparr>"
  let ?cursor = "\<lparr>cursor_virtual_partition_id = 2, cursor_seq_end = 17, source_checkpoint = None\<rparr>"
  let ?op = "\<lparr>cop_key = ?key, cop_owner = ''a'', cop_generation = 4, cop_now = 9000000, cop_call = CommitCall ?cursor\<rparr>"
  have "cursor_committed ?op [(?key, ?row)] = Some (?key, ?cursor)" by code_simp
  with cursor_commit_authorised[OF this] show ?thesis by (simp add: Let_def)
qed



text \<open>
  The active leases the store lists for some topics are exactly the rows of those topics
  that have not expired, one per partition, in the order of topic, group and partition.
\<close>

theorem list_active_leases_exact:
  assumes "hm_ok store" and "list_active_leases store topics now = Inr leases"
  shows "set leases = {consumer_to_lease row key | key row. hm_get store key = Some row
            \<and> clk_topic key \<in> set topics \<and> now div 1000000 < lease_expiration_ts_ms row}
    \<and> sorted_wrt (<) (map (\<lambda>l. (clk_topic (cgl_key l), clk_group_id (cgl_key l), clk_virtual_partition_id (cgl_key l))) leases)"
proof -
  let ?t = "now div 1000000"
  let ?rows = "filter (\<lambda>(key, state). clk_topic key \<in> set topics \<and> ?t < lease_expiration_ts_ms state) store"
  let ?f = "\<lambda>l. lease_order (cgl_key l)"
  have leases: "leases = sort_key ?f (map (\<lambda>(key, state). consumer_to_lease state key) ?rows)"
    using assms(2) by (auto simp: list_active_leases_def lease_order_def split: sum.splits dest!: current_ts_ms_Inr)
  have "distinct (map (\<lambda>(k, v). lease_order k) ?rows)"
    using assms(1) by (rule hm_filter_listing) (rule inj_on_subset[OF inj_lease_order subset_UNIV])
  then have "distinct (map ?f (map (\<lambda>(key, state). consumer_to_lease state key) ?rows))"
    by (simp add: comp_def case_prod_beta')
  from sort_key_strict[OF this] show ?thesis
    using assms(1) by (auto simp: leases lease_order_def)
qed

theorem list_active_leases_exact_witness:
  "let key = (\<lambda>p. \<lparr>clk_topic = ''t'', clk_group_id = ''g'', clk_virtual_partition_id = p\<rparr>);
       row = (\<lambda>e. \<lparr>owner_id = ''a'', generation = 4, lease_expiration_ts_ms = e, last_heartbeat_ts_ms = 0,
              committed_cursor = None, committed_ts_ms = None, graceful_release_ts_ms = None\<rparr>);
       store = [(key 7, row 20), (key 2, row 5), (key 3, row 30)];
       leases = [consumer_to_lease (row 30) (key 3), consumer_to_lease (row 20) (key 7)]
   in list_active_leases store [''t''] 10000000 = Inr leases
      \<and> set leases = {consumer_to_lease r k | k r. hm_get store k = Some r
            \<and> clk_topic k \<in> set [''t''] \<and> 10 < lease_expiration_ts_ms r}"
proof -
  let ?key = "\<lambda>p. \<lparr>clk_topic = ''t'', clk_group_id = ''g'', clk_virtual_partition_id = p\<rparr>"
  let ?row = "\<lambda>e. \<lparr>owner_id = ''a'', generation = 4, lease_expiration_ts_ms = e, last_heartbeat_ts_ms = 0,
      committed_cursor = None, committed_ts_ms = None, graceful_release_ts_ms = None\<rparr>"
  let ?store = "[(?key 7, ?row 20), (?key 2, ?row 5), (?key 3, ?row 30)]"
  let ?leases = "[consumer_to_lease (?row 30) (?key 3), consumer_to_lease (?row 20) (?key 7)]"
  have ok: "hm_ok ?store" and l: "list_active_leases ?store [''t''] 10000000 = Inr ?leases"
    by code_simp+
  show ?thesis
    using l list_active_leases_exact[OF ok l] unfolding Let_def by simp
qed

end
