(* ===== verification/Membership.thy ===== *)
theory Membership
  imports Types Lease_Contracts
begin

text \<open>
  The consumer-group membership store of \<open>blob-stream-metadata-store\<close>: the membership types of
  \<open>lib.rs\<close> and the in-memory store of \<open>consumer_group_membership_memory.rs\<close>.  It keeps the members'
  registrations, the single planner lease of a group and the assignment plan the planner publishes.
\<close>

section \<open>Membership types\<close>

record ConsumerGroupMember =
  cgm_member_id :: string
  cgm_pod_id :: "string option"
  cgm_cluster_id :: "string option"

record ConsumerGroupAssignment =
  cga_virtual_partition_id :: VirtualPartitionId
  cga_member_id :: string

record ConsumerGroupAssignmentPlan =
  plan_version :: u64
  plan_planner_member_id :: string
  plan_members :: "string list"
  plan_member_topology :: "ConsumerGroupMember list option"
  plan_colocate_logical_partitions :: bool
  plan_assignments :: "ConsumerGroupAssignment list"
  plan_published_ts_ms :: int

record ConsumerGroupPlannerLease =
  cgp_member_id :: string
  cgp_planner_session_id :: string
  cgp_lease_expiration_ts_ms :: int

datatype ConsumerGroupPlannerLeaseOutcome = PlannerAcquired | PlannerHeldByOther

section \<open>The in-memory store\<close>

datatype MembershipError =
    MembershipTimeOutOfRange
  | MembershipTtlOutOfRange
  | MembershipTtlNotPositive
  | MembershipExpirationOverflow

record GroupKey =
  gk_topic :: string
  gk_group_id :: string

record MemberKey =
  mk_topic :: string
  mk_group_id :: string
  mk_member_id :: string

record MemberState =
  ms_lease_expiration_ts_ms :: int
  ms_pod_id :: "string option"
  ms_cluster_id :: "string option"

record PlannerState =
  ps_member_id :: string
  ps_planner_session_id :: string
  ps_lease_expiration_ts_ms :: int

record MembershipState =
  members :: "(MemberKey, MemberState) hmap"
  planners :: "(GroupKey, PlannerState) hmap"
  plans :: "(GroupKey, ConsumerGroupAssignmentPlan) hmap"

definition empty_membership :: MembershipState where
  "empty_membership = \<lparr>members = [], planners = [], plans = []\<rparr>"

definition membership_expires_at :: "int \<Rightarrow> int \<Rightarrow> MembershipError + int" where
  "membership_expires_at now_ts_ms ttl_ms =
     (if ttl_ms \<le> 0 then Inl MembershipTtlNotPositive
      else case checked_add_i64 now_ts_ms ttl_ms of
        None \<Rightarrow> Inl MembershipExpirationOverflow
      | Some t \<Rightarrow> Inr t)"

definition membership_now_ms :: "instant \<Rightarrow> MembershipError + int" where
  "membership_now_ms now =
     (case unix_millis_from_offset_datetime now of
        None \<Rightarrow> Inl MembershipTimeOutOfRange
      | Some t \<Rightarrow> Inr t)"

definition membership_ttl_ms :: "duration \<Rightarrow> MembershipError + int" where
  "membership_ttl_ms ttl =
     (case i64_try_from (whole_milliseconds ttl) of
        None \<Rightarrow> Inl MembershipTtlOutOfRange
      | Some t \<Rightarrow> Inr t)"

definition register_member ::
    "MembershipState \<Rightarrow> string \<Rightarrow> string \<Rightarrow> string \<Rightarrow> string option \<Rightarrow> string option \<Rightarrow> instant \<Rightarrow> duration
     \<Rightarrow> (MembershipError + unit) \<times> MembershipState" where
  "register_member st topic group_id member_id pod_id cluster_id now ttl =
   (case membership_now_ms now of Inl e \<Rightarrow> (Inl e, st) | Inr now_ts_ms \<Rightarrow>
   (case membership_ttl_ms ttl of Inl e \<Rightarrow> (Inl e, st) | Inr ttl_ms \<Rightarrow>
   (case membership_expires_at now_ts_ms ttl_ms of Inl e \<Rightarrow> (Inl e, st) | Inr expires \<Rightarrow>
      let key = \<lparr>mk_topic = topic, mk_group_id = group_id, mk_member_id = member_id\<rparr>;
          state = \<lparr>ms_lease_expiration_ts_ms = expires, ms_pod_id = pod_id, ms_cluster_id = cluster_id\<rparr>
      in (Inr (), st\<lparr>members := hm_insert key state (members st)\<rparr>))))"

definition heartbeat_member ::
    "MembershipState \<Rightarrow> string \<Rightarrow> string \<Rightarrow> string \<Rightarrow> string option \<Rightarrow> string option \<Rightarrow> instant \<Rightarrow> duration
     \<Rightarrow> (MembershipError + unit) \<times> MembershipState" where
  "heartbeat_member st topic group_id member_id pod_id cluster_id now ttl =
     register_member st topic group_id member_id pod_id cluster_id now ttl"

definition deregister_member ::
    "MembershipState \<Rightarrow> string \<Rightarrow> string \<Rightarrow> string \<Rightarrow> MembershipState" where
  "deregister_member st topic group_id member_id =
     st\<lparr>members := hm_remove \<lparr>mk_topic = topic, mk_group_id = group_id, mk_member_id = member_id\<rparr> (members st)\<rparr>"

text \<open>The hash set of the source is a list without duplicates; its order is fixed by the sort.\<close>

definition list_active_members ::
    "MembershipState \<Rightarrow> string \<Rightarrow> string \<Rightarrow> instant \<Rightarrow> MembershipError + ConsumerGroupMember list" where
  "list_active_members st topic group_id now =
   (case membership_now_ms now of Inl e \<Rightarrow> Inl e | Inr now_ts_ms \<Rightarrow>
      Inr (sort_key cgm_member_id (remdups
        (map (\<lambda>(key, state). \<lparr>cgm_member_id = mk_member_id key, cgm_pod_id = ms_pod_id state,
                              cgm_cluster_id = ms_cluster_id state\<rparr>)
          (filter (\<lambda>(key, state). mk_topic key = topic \<and> mk_group_id key = group_id
                     \<and> now_ts_ms < ms_lease_expiration_ts_ms state) (members st))))))"

definition get_assignment_plan ::
    "MembershipState \<Rightarrow> string \<Rightarrow> string \<Rightarrow> ConsumerGroupAssignmentPlan option" where
  "get_assignment_plan st topic group_id = hm_get (plans st) \<lparr>gk_topic = topic, gk_group_id = group_id\<rparr>"

definition get_planner_lease :: "MembershipState \<Rightarrow> string \<Rightarrow> string \<Rightarrow> ConsumerGroupPlannerLease option" where
  "get_planner_lease st topic group_id =
     map_option (\<lambda>planner. \<lparr>cgp_member_id = ps_member_id planner,
                            cgp_planner_session_id = ps_planner_session_id planner,
                            cgp_lease_expiration_ts_ms = ps_lease_expiration_ts_ms planner\<rparr>)
       (hm_get (planners st) \<lparr>gk_topic = topic, gk_group_id = group_id\<rparr>)"

definition acquire_or_renew_planner ::
    "MembershipState \<Rightarrow> string \<Rightarrow> string \<Rightarrow> string \<Rightarrow> string \<Rightarrow> instant \<Rightarrow> duration
     \<Rightarrow> (MembershipError + ConsumerGroupPlannerLeaseOutcome) \<times> MembershipState" where
  "acquire_or_renew_planner st topic group_id member_id session now ttl =
   (case membership_now_ms now of Inl e \<Rightarrow> (Inl e, st) | Inr now_ts_ms \<Rightarrow>
   (case membership_ttl_ms ttl of Inl e \<Rightarrow> (Inl e, st) | Inr ttl_ms \<Rightarrow>
   (case membership_expires_at now_ts_ms ttl_ms of Inl e \<Rightarrow> (Inl e, st) | Inr expires \<Rightarrow>
     (let group_key = \<lparr>gk_topic = topic, gk_group_id = group_id\<rparr>;
          held = (case hm_get (planners st) group_key of
                    Some planner \<Rightarrow> now_ts_ms < ps_lease_expiration_ts_ms planner
                      \<and> (ps_member_id planner \<noteq> member_id \<or> ps_planner_session_id planner \<noteq> session)
                  | None \<Rightarrow> False)
      in if held then (Inr PlannerHeldByOther, st)
         else (Inr PlannerAcquired,
               st\<lparr>planners := hm_insert group_key
                 \<lparr>ps_member_id = member_id, ps_planner_session_id = session,
                  ps_lease_expiration_ts_ms = expires\<rparr> (planners st)\<rparr>)))))"

definition release_planner ::
    "MembershipState \<Rightarrow> string \<Rightarrow> string \<Rightarrow> string \<Rightarrow> string \<Rightarrow> bool \<times> MembershipState" where
  "release_planner st topic group_id member_id session =
   (let group_key = \<lparr>gk_topic = topic, gk_group_id = group_id\<rparr>
    in case hm_get (planners st) group_key of
         None \<Rightarrow> (False, st)
       | Some planner \<Rightarrow>
          if ps_member_id planner \<noteq> member_id \<or> ps_planner_session_id planner \<noteq> session then (False, st)
          else (True, st\<lparr>planners := hm_remove group_key (planners st)\<rparr>))"

definition publish_assignment_plan ::
    "MembershipState \<Rightarrow> string \<Rightarrow> string \<Rightarrow> string \<Rightarrow> string \<Rightarrow> instant \<Rightarrow> ConsumerGroupAssignmentPlan
     \<Rightarrow> (MembershipError + bool) \<times> MembershipState" where
  "publish_assignment_plan st topic group_id member_id session now plan =
   (case membership_now_ms now of Inl e \<Rightarrow> (Inl e, st) | Inr now_ts_ms \<Rightarrow>
     (let group_key = \<lparr>gk_topic = topic, gk_group_id = group_id\<rparr>
      in case hm_get (planners st) group_key of
           None \<Rightarrow> (Inr False, st)
         | Some planner \<Rightarrow>
            if ps_member_id planner \<noteq> member_id \<or> ps_planner_session_id planner \<noteq> session
               \<or> ps_lease_expiration_ts_ms planner \<le> now_ts_ms \<or> plan_planner_member_id plan \<noteq> member_id
            then (Inr False, st)
            else (Inr True, st\<lparr>plans := hm_insert group_key plan (plans st)\<rparr>)))"

section \<open>The store as a state machine\<close>

datatype membership_call =
    RegisterCall "string option" "string option" duration
  | HeartbeatMemberCall "string option" "string option" duration
  | DeregisterCall
  | AcquirePlannerCall duration
  | ReleasePlannerCall
  | PublishCall ConsumerGroupAssignmentPlan

record membership_op =
  mop_topic :: string
  mop_group_id :: string
  mop_member_id :: string
  mop_session :: string
  mop_now :: instant
  mop_call :: membership_call

definition membership_step :: "membership_op \<Rightarrow> MembershipState \<Rightarrow> MembershipState" where
  "membership_step op st =
   (let t = mop_topic op; g = mop_group_id op; m = mop_member_id op; s = mop_session op; now = mop_now op
    in case mop_call op of
      RegisterCall pod cluster ttl \<Rightarrow> snd (register_member st t g m pod cluster now ttl)
    | HeartbeatMemberCall pod cluster ttl \<Rightarrow> snd (heartbeat_member st t g m pod cluster now ttl)
    | DeregisterCall \<Rightarrow> deregister_member st t g m
    | AcquirePlannerCall ttl \<Rightarrow> snd (acquire_or_renew_planner st t g m s now ttl)
    | ReleasePlannerCall \<Rightarrow> snd (release_planner st t g m s)
    | PublishCall plan \<Rightarrow> snd (publish_assignment_plan st t g m s now plan))"

text \<open>The plan a call publishes, with its group.\<close>

definition plan_published ::
    "membership_op \<Rightarrow> MembershipState \<Rightarrow> (GroupKey \<times> ConsumerGroupAssignmentPlan) option" where
  "plan_published op st =
   (case mop_call op of
      PublishCall plan \<Rightarrow>
        (if fst (publish_assignment_plan st (mop_topic op) (mop_group_id op) (mop_member_id op)
                  (mop_session op) (mop_now op) plan) = Inr True
         then Some (\<lparr>gk_topic = mop_topic op, gk_group_id = mop_group_id op\<rparr>, plan) else None)
    | _ \<Rightarrow> None)"

definition planner_owner :: "PlannerState \<Rightarrow> string \<times> string" where
  "planner_owner planner = (ps_member_id planner, ps_planner_session_id planner)"

section \<open>Rows under the operations\<close>

lemma membership_now_ms_Inr: "membership_now_ms now = Inr t \<Longrightarrow> t = now div 1000000"
  by (auto simp: membership_now_ms_def unix_millis_from_offset_datetime_def machine_int split: option.splits)

lemmas membership_op_defs = register_member_def heartbeat_member_def deregister_member_def
  acquire_or_renew_planner_def release_planner_def publish_assignment_plan_def

interpretation planner_exclusive: exclusive_lease membership_step "\<lambda>st. hm_get (planners st)" planner_owner
    ps_lease_expiration_ts_ms "\<lambda>op. (mop_member_id op, mop_session op)" "\<lambda>op. mop_now op div 1000000"
proof
  fix st :: MembershipState and k r and op :: membership_op
  assume "hm_get (planners st) k = Some r" "mop_now op div 1000000 < ps_lease_expiration_ts_ms r"
    "(mop_member_id op, mop_session op) \<noteq> planner_owner r"
  then show "hm_get (planners (membership_step op st)) k = Some r"
    by (auto simp: membership_step_def membership_op_defs planner_owner_def hash_map Let_def
        split: membership_call.splits sum.splits option.splits dest!: membership_now_ms_Inr)
qed

interpretation plan_register: last_write_register membership_step "\<lambda>st. hm_get (plans st)" plan_published
proof
  fix op st k
  show "hm_get (plans (membership_step op st)) k =
      (case plan_published op st of
         Some (k', v) \<Rightarrow> if k' = k then Some v else hm_get (plans st) k
       | None \<Rightarrow> hm_get (plans st) k)"
    by (cases "mop_call op")
      (auto simp: membership_step_def plan_published_def membership_op_defs hash_map Let_def
        split: sum.splits option.splits)
qed

lemma membership_step_ok:
  "hm_ok (members st) \<Longrightarrow> hm_ok (members (membership_step op st))"
  by (auto simp: membership_step_def membership_op_defs hm_ok_insert hm_ok_remove Let_def
      split: membership_call.splits sum.splits option.splits)

lemma membership_run_ok: "hm_ok (members (fold membership_step ops empty_membership))"
proof -
  have "hm_ok (members st) \<Longrightarrow> hm_ok (members (fold membership_step ops st))" for st
    by (induction ops arbitrary: st) (simp_all add: membership_step_ok)
  then show ?thesis by (simp add: empty_membership_def)
qed

section \<open>Properties\<close>

text \<open>
  Claim C27.  A group has one planner at a time: until the planner lease expires, calls of other members
  or other coordinator sessions leave it untouched.
\<close>

theorem planner_lease_exclusive:
  assumes "hm_get (planners st) group_key = Some planner"
    and "\<forall>op \<in> set ops. mop_now op div 1000000 < ps_lease_expiration_ts_ms planner
           \<and> (mop_member_id op, mop_session op) \<noteq> planner_owner planner"
  shows "hm_get (planners (fold membership_step ops st)) group_key = Some planner"
  using assms by (rule planner_exclusive.foreign_run_keeps_live_row)

theorem planner_lease_exclusive_witness:
  "let op = \<lparr>mop_topic = ''t'', mop_group_id = ''g'', mop_member_id = ''a'', mop_session = ''s1'',
             mop_now = 0, mop_call = AcquirePlannerCall 10000000\<rparr>;
       other = op\<lparr>mop_session := ''s2'', mop_now := 9000000\<rparr>;
       planner = \<lparr>ps_member_id = ''a'', ps_planner_session_id = ''s1'', ps_lease_expiration_ts_ms = 10\<rparr>
   in hm_get (planners (fold membership_step [other, other\<lparr>mop_call := ReleasePlannerCall\<rparr>]
        (membership_step op empty_membership))) \<lparr>gk_topic = ''t'', gk_group_id = ''g''\<rparr> = Some planner"
proof -
  let ?op = "\<lparr>mop_topic = ''t'', mop_group_id = ''g'', mop_member_id = ''a'', mop_session = ''s1'',
      mop_now = 0, mop_call = AcquirePlannerCall 10000000\<rparr>"
  let ?planner = "\<lparr>ps_member_id = ''a'', ps_planner_session_id = ''s1'', ps_lease_expiration_ts_ms = 10\<rparr>"
  have "hm_get (planners (membership_step ?op empty_membership)) \<lparr>gk_topic = ''t'', gk_group_id = ''g''\<rparr> = Some ?planner"
    by code_simp
  then show ?thesis
    unfolding Let_def by (rule planner_lease_exclusive) (simp add: planner_owner_def)
qed

text \<open>
  Claim C28.  The assignment plan a group reads is the last plan whose publication the store reported
  as successful, or the initial one.
\<close>

theorem assignment_plan_is_last_published:
  "get_assignment_plan (fold membership_step ops st) topic group_id =
     (case map_of (rev (run_outputs membership_step plan_published ops st)) \<lparr>gk_topic = topic, gk_group_id = group_id\<rparr> of
        Some plan \<Rightarrow> Some plan
      | None \<Rightarrow> get_assignment_plan st topic group_id)"
  unfolding get_assignment_plan_def by (rule plan_register.content_run)

text \<open>
  A plan is published only by the member and session that hold the unexpired planner lease
  of the group, and only when the plan names that member as its planner.
\<close>

theorem plan_publication_authorised:
  assumes "plan_published op st = Some (group_key, plan)"
  shows "\<exists>planner. hm_get (planners st) group_key = Some planner
    \<and> planner_owner planner = (mop_member_id op, mop_session op)
    \<and> mop_now op div 1000000 < ps_lease_expiration_ts_ms planner
    \<and> plan_planner_member_id plan = mop_member_id op"
  using assms
  by (auto simp: plan_published_def publish_assignment_plan_def planner_owner_def Let_def
      split: membership_call.splits if_splits sum.splits option.splits dest!: membership_now_ms_Inr)

theorem plan_publication_authorised_witness:
  "let plan = \<lparr>plan_version = 1, plan_planner_member_id = ''a'', plan_members = [''a''], plan_member_topology = None,
        plan_colocate_logical_partitions = True, plan_assignments = [], plan_published_ts_ms = 5\<rparr>;
       op = \<lparr>mop_topic = ''t'', mop_group_id = ''g'', mop_member_id = ''a'', mop_session = ''s1'',
             mop_now = 0, mop_call = AcquirePlannerCall 10000000\<rparr>;
       st = membership_step op empty_membership;
       publish = op\<lparr>mop_now := 5000000, mop_call := PublishCall plan\<rparr>
   in plan_published publish st = Some (\<lparr>gk_topic = ''t'', gk_group_id = ''g''\<rparr>, plan)
      \<and> (\<exists>planner. hm_get (planners st) \<lparr>gk_topic = ''t'', gk_group_id = ''g''\<rparr> = Some planner
           \<and> 5 < ps_lease_expiration_ts_ms planner)"
proof -
  let ?plan = "\<lparr>plan_version = 1, plan_planner_member_id = ''a'', plan_members = [''a''], plan_member_topology = None,
      plan_colocate_logical_partitions = True, plan_assignments = [], plan_published_ts_ms = 5\<rparr>"
  let ?op = "\<lparr>mop_topic = ''t'', mop_group_id = ''g'', mop_member_id = ''a'', mop_session = ''s1'',
      mop_now = 0, mop_call = AcquirePlannerCall 10000000\<rparr>"
  let ?publish = "?op\<lparr>mop_now := 5000000, mop_call := PublishCall ?plan\<rparr>"
  have "plan_published ?publish (membership_step ?op empty_membership) =
      Some (\<lparr>gk_topic = ''t'', gk_group_id = ''g''\<rparr>, ?plan)"
    by code_simp
  with plan_publication_authorised[OF this] show ?thesis by (auto simp: Let_def)
qed



end
