(* ===== verification/Segment_Codec.thy ===== *)
theory Segment_Codec
  imports Types
begin

text \<open>
  Segment metadata and its storage encoding: \<open>SegmentMetadata\<close> of \<open>blob-stream-metadata-store/src/lib.rs\<close>,
  the messages of \<open>metadata.proto\<close> and the conversions of \<open>codec.rs\<close>.  The protobuf library that
  turns a message into bytes and back is a parameter of \<open>encode\<close> and \<open>decode\<close>.
\<close>

section \<open>Data\<close>

record SegmentMetadata =
  sm_window :: TopicWindowKey
  sm_snowflake_id :: SnowflakeId
  sm_blob_key :: BlobKey
  sm_compression :: Compression
  sm_segment_index :: "(VirtualPartitionId, BatchMetadata) hmap"
  sm_created_at :: instant
  sm_metadata_published_at :: instant

definition segment_partition_key :: "SegmentMetadata \<Rightarrow> string" where
  "segment_partition_key m = topic_window_key_format (sm_window m)"

definition segment_snowflake_key :: "SegmentMetadata \<Rightarrow> string" where
  "segment_snowflake_key m = snowflake_format_lex (sm_snowflake_id m)"

text \<open>The protobuf messages; a message field may be absent, an enumeration may have any number.\<close>

record StoredSegmentCompression =
  ssc_codec :: int
  ssc_level :: int

record SegmentBatchMetadata =
  sbm_seq_start :: u64
  sbm_seq_end :: u64
  sbm_byte_start :: u64
  sbm_byte_end :: u64
  sbm_payload_bytes :: u64

record SegmentPartitionIndex =
  spi_virtual_partition_id :: VirtualPartitionId
  spi_batch :: "SegmentBatchMetadata option"

record SegmentMetadataV1 =
  v1_blob_key :: string
  v1_created_ts_ms :: int
  v1_metadata_published_ts_ms :: int
  v1_compression :: "StoredSegmentCompression option"
  v1_partitions :: "SegmentPartitionIndex list"

record EncodedSegmentMetadata =
  enc_partition_key :: string
  enc_sort_key :: string
  enc_payload :: "u8 list"

datatype CodecError =
    TimestampOutOfRange
  | EncodeFailed
  | DecodeFailed
  | InvalidPartitionKey
  | InvalidWindowStart
  | InvalidSnowflakeId
  | MissingBlobKey
  | MissingCompression
  | UnsupportedCompression int
  | NoPartitionIndexes
  | MissingBatch VirtualPartitionId
  | InvalidSequenceRange VirtualPartitionId
  | EmptyByteRange VirtualPartitionId
  | DuplicatePartition VirtualPartitionId
  | InvalidTimestamp int

section \<open>Conversions\<close>

definition encode_compression :: "Compression \<Rightarrow> StoredSegmentCompression" where
  "encode_compression c =
     (case codec c of
        NoCompression \<Rightarrow> \<lparr>ssc_codec = 0, ssc_level = 0\<rparr>
      | Zstd \<Rightarrow> \<lparr>ssc_codec = 1, ssc_level = (case level c of Some l \<Rightarrow> l | None \<Rightarrow> 0)\<rparr>)"

definition decode_compression :: "StoredSegmentCompression \<Rightarrow> CodecError + Compression" where
  "decode_compression c =
     (if ssc_codec c = 0 then Inr compression_none
      else if ssc_codec c = 1 then Inr (compression_zstd (ssc_level c))
      else Inl (UnsupportedCompression (ssc_codec c)))"

definition encode_partition_index :: "VirtualPartitionId \<times> BatchMetadata \<Rightarrow> SegmentPartitionIndex" where
  "encode_partition_index entry =
     (case entry of (vp, batch) \<Rightarrow>
       \<lparr>spi_virtual_partition_id = vp,
        spi_batch = Some \<lparr>sbm_seq_start = seq_start (seq_range batch), sbm_seq_end = seq_end (seq_range batch),
          sbm_byte_start = byte_start (byte_range batch), sbm_byte_end = byte_end (byte_range batch),
          sbm_payload_bytes = payload_bytes batch\<rparr>\<rparr>)"

definition encode_segment_metadata_v1 :: "SegmentMetadata \<Rightarrow> CodecError + SegmentMetadataV1" where
  "encode_segment_metadata_v1 m =
   (case unix_millis_from_offset_datetime (sm_created_at m) of
      None \<Rightarrow> Inl TimestampOutOfRange
    | Some created \<Rightarrow>
   (case unix_millis_from_offset_datetime (sm_metadata_published_at m) of
      None \<Rightarrow> Inl TimestampOutOfRange
    | Some published \<Rightarrow>
      Inr \<lparr>v1_blob_key = blob_key_str (sm_blob_key m), v1_created_ts_ms = created,
           v1_metadata_published_ts_ms = published,
           v1_compression = Some (encode_compression (sm_compression m)),
           v1_partitions = map encode_partition_index (sm_segment_index m)\<rparr>))"

definition encode_segment ::
    "(SegmentMetadataV1 \<Rightarrow> u8 list option) \<Rightarrow> SegmentMetadata \<Rightarrow> CodecError + EncodedSegmentMetadata" where
  "encode_segment write_to_bytes m =
   (case encode_segment_metadata_v1 m of
      Inl e \<Rightarrow> Inl e
    | Inr message \<Rightarrow>
       (case write_to_bytes message of
          None \<Rightarrow> Inl EncodeFailed
        | Some bytes \<Rightarrow>
           Inr \<lparr>enc_partition_key = segment_partition_key m, enc_sort_key = segment_snowflake_key m,
                enc_payload = bytes\<rparr>))"

text \<open>The loop over the partition indexes, with the index built so far.\<close>

fun decode_partitions ::
    "(VirtualPartitionId, BatchMetadata) hmap \<Rightarrow> SegmentPartitionIndex list
     \<Rightarrow> CodecError + (VirtualPartitionId, BatchMetadata) hmap" where
  "decode_partitions index [] = Inr index"
| "decode_partitions index (part # rest) =
   (let vp = spi_virtual_partition_id part
    in case spi_batch part of
         None \<Rightarrow> Inl (MissingBatch vp)
       | Some batch \<Rightarrow>
          if sbm_seq_end batch < sbm_seq_start batch then Inl (InvalidSequenceRange vp)
          else if sbm_byte_end batch \<le> sbm_byte_start batch then Inl (EmptyByteRange vp)
          else
            let value = \<lparr>seq_range = \<lparr>seq_start = sbm_seq_start batch, seq_end = sbm_seq_end batch\<rparr>,
                         byte_range = \<lparr>byte_start = sbm_byte_start batch, byte_end = sbm_byte_end batch\<rparr>,
                         payload_bytes = sbm_payload_bytes batch\<rparr>
            in if hm_get index vp \<noteq> None then Inl (DuplicatePartition vp)
               else decode_partitions (hm_insert vp value index) rest)"

definition decode_segment_metadata_v1 ::
    "date_range \<Rightarrow> TopicWindowKey \<Rightarrow> SnowflakeId \<Rightarrow> SegmentMetadataV1 \<Rightarrow> CodecError + SegmentMetadata" where
  "decode_segment_metadata_v1 dates window snowflake m =
   (if v1_blob_key m = '''' then Inl MissingBlobKey else
    case v1_compression m of None \<Rightarrow> Inl MissingCompression | Some stored \<Rightarrow>
   (case decode_compression stored of Inl e \<Rightarrow> Inl e | Inr compression \<Rightarrow>
    if v1_partitions m = [] then Inl NoPartitionIndexes else
   (case decode_partitions [] (v1_partitions m) of Inl e \<Rightarrow> Inl e | Inr index \<Rightarrow>
   (case offset_datetime_from_unix_millis_checked dates (v1_created_ts_ms m) of
      None \<Rightarrow> Inl (InvalidTimestamp (v1_created_ts_ms m))
    | Some created \<Rightarrow>
   (case offset_datetime_from_unix_millis_checked dates (v1_metadata_published_ts_ms m) of
      None \<Rightarrow> Inl (InvalidTimestamp (v1_metadata_published_ts_ms m))
    | Some published \<Rightarrow>
      Inr \<lparr>sm_window = window, sm_snowflake_id = snowflake, sm_blob_key = BlobKey (v1_blob_key m),
           sm_compression = compression, sm_segment_index = index, sm_created_at = created,
           sm_metadata_published_at = published\<rparr>)))))"

definition decode_segment ::
    "(u8 list \<Rightarrow> SegmentMetadataV1 option) \<Rightarrow> date_range \<Rightarrow> string \<Rightarrow> string \<Rightarrow> u8 list
     \<Rightarrow> CodecError + SegmentMetadata" where
  "decode_segment parse_from_bytes dates partition_key row_key stored_bytes =
   (case parse_from_bytes stored_bytes of None \<Rightarrow> Inl DecodeFailed | Some m \<Rightarrow>
   (case rsplit_once (CHR ''#'') partition_key of None \<Rightarrow> Inl InvalidPartitionKey | Some (topic, start) \<Rightarrow>
   (case parse_i64 start of None \<Rightarrow> Inl InvalidWindowStart | Some window_start_secs \<Rightarrow>
   (case parse_u64 row_key of None \<Rightarrow> Inl InvalidSnowflakeId | Some snowflake \<Rightarrow>
      decode_segment_metadata_v1 dates
        \<lparr>window_topic = topic, window_start_unix_seconds = window_start_secs\<rparr> snowflake m))))"

section \<open>What survives storage\<close>

text \<open>
  The stored form keeps instants to the millisecond and normalises the compression level.  A segment
  is storable when its blob key is not empty, it indexes at least one partition, every batch has a
  sequence range and a nonempty byte range, and its instants are representable.
\<close>

definition stored_instant :: "instant \<Rightarrow> instant" where
  "stored_instant t = t div 1000000 * 1000000"

definition stored_compression :: "Compression \<Rightarrow> Compression" where
  "stored_compression c = (case codec c of
      NoCompression \<Rightarrow> compression_none
    | Zstd \<Rightarrow> compression_zstd (case level c of Some l \<Rightarrow> l | None \<Rightarrow> 0))"

definition stored_segment :: "SegmentMetadata \<Rightarrow> SegmentMetadata" where
  "stored_segment m = m\<lparr>sm_compression := stored_compression (sm_compression m),
     sm_created_at := stored_instant (sm_created_at m),
     sm_metadata_published_at := stored_instant (sm_metadata_published_at m)\<rparr>"

definition storable_instant :: "date_range \<Rightarrow> instant \<Rightarrow> bool" where
  "storable_instant dates t \<longleftrightarrow> - (2 ^ 63) \<le> t div 1000000 \<and> t div 1000000 < 2 ^ 63
     \<and> fst dates \<le> stored_instant t \<and> stored_instant t \<le> snd dates"

definition storable_batch :: "BatchMetadata \<Rightarrow> bool" where
  "storable_batch b \<longleftrightarrow> \<not> seq_range_is_empty (seq_range b) \<and> \<not> byte_range_is_empty (byte_range b)"

definition storable_segment :: "date_range \<Rightarrow> SegmentMetadata \<Rightarrow> bool" where
  "storable_segment dates m \<longleftrightarrow>
     blob_key_str (sm_blob_key m) \<noteq> '''' \<and> sm_segment_index m \<noteq> [] \<and> hm_ok (sm_segment_index m)
     \<and> (\<forall>(vp, b) \<in> set (sm_segment_index m). storable_batch b)
     \<and> storable_instant dates (sm_created_at m) \<and> storable_instant dates (sm_metadata_published_at m)
     \<and> - (2 ^ 63) \<le> window_start_unix_seconds (sm_window m) \<and> window_start_unix_seconds (sm_window m) < 2 ^ 63"

section \<open>Lemmas\<close>

lemma decode_encode_compression: "decode_compression (encode_compression c) = Inr (stored_compression c)"
  by (simp add: decode_compression_def encode_compression_def stored_compression_def
      split: CompressionCodec.splits)

lemma record_eta [simp]:
  "\<lparr>seq_start = seq_start r, seq_end = seq_end r\<rparr> = r"
  "\<lparr>byte_start = byte_start br, byte_end = byte_end br\<rparr> = br"
  "\<lparr>seq_range = seq_range b, byte_range = byte_range b, payload_bytes = payload_bytes b\<rparr> = b"
  "\<lparr>window_topic = window_topic w, window_start_unix_seconds = window_start_unix_seconds w\<rparr> = w"
  by (cases r, simp) (cases br, simp, cases b, simp, cases w, simp)

lemma decode_encode_partitions:
  assumes "hm_ok (index @ entries)" "\<forall>(vp, b) \<in> set entries. storable_batch b"
  shows "decode_partitions index (map encode_partition_index entries) = Inr (index @ entries)"
  using assms
proof (induction entries arbitrary: index)
  case Nil
  then show ?case by simp
next
  case (Cons e entries)
  obtain vp b where e: "e = (vp, b)" by fastforce
  have fresh: "vp \<notin> fst ` set index" using Cons.prems(1) e by auto
  then have "hm_get index vp = None" by (simp add: map_of_eq_None_iff)
  moreover have "hm_ok ((index @ [(vp, b)]) @ entries)" using Cons.prems(1) e by simp
  ultimately show ?case
    using Cons.IH[of "index @ [(vp, b)]"] Cons.prems(2) e hm_insert_fresh[OF fresh]
    by (auto simp: encode_partition_index_def storable_batch_def seq_range_is_empty_def
        byte_range_is_empty_def Let_def linorder_not_less linorder_not_le)
qed

lemma storable_instant_roundtrip:
  assumes "storable_instant dates t"
  shows "unix_millis_from_offset_datetime t = Some (t div 1000000)"
    and "offset_datetime_from_unix_millis_checked dates (t div 1000000) = Some (stored_instant t)"
  using assms
  by (auto simp: storable_instant_def stored_instant_def unix_millis_from_offset_datetime_def
      offset_datetime_from_unix_millis_checked_def checked_instant_def machine_int)

lemma window_key_roundtrip:
  "rsplit_once (CHR ''#'') (topic_window_key_format w) =
     Some (window_topic w, decimal_int (window_start_unix_seconds w))"
  using rsplit_once_suffix[OF decimal_int_no_hash] by (simp add: topic_window_key_format_def)

lemma topic_window_key_format_inj:
  assumes "topic_window_key_format w = topic_window_key_format w'"
    and "- (2 ^ 63) \<le> window_start_unix_seconds w" "window_start_unix_seconds w < 2 ^ 63"
    and "- (2 ^ 63) \<le> window_start_unix_seconds w'" "window_start_unix_seconds w' < 2 ^ 63"
  shows "w = w'"
proof -
  have "window_topic w = window_topic w'"
    "decimal_int (window_start_unix_seconds w) = decimal_int (window_start_unix_seconds w')"
    using window_key_roundtrip[of w] window_key_roundtrip[of w'] assms(1) by auto
  then show ?thesis
    using parse_i64_decimal[OF assms(2,3)] parse_i64_decimal[OF assms(4,5)]
    by (metis option.inject TopicWindowKey.equality old.unit.exhaust)
qed

lemma decode_encode_v1:
  assumes "storable_segment dates m"
  shows "\<exists>v1. encode_segment_metadata_v1 m = Inr v1 \<and>
    decode_segment_metadata_v1 dates (sm_window m) (sm_snowflake_id m) v1 = Inr (stored_segment m)"
proof -
  have idx: "decode_partitions [] (map encode_partition_index (sm_segment_index m)) = Inr (sm_segment_index m)"
    using assms decode_encode_partitions[of "[]" "sm_segment_index m"] by (auto simp: storable_segment_def)
  have "BlobKey (blob_key_str (sm_blob_key m)) = sm_blob_key m" by (cases "sm_blob_key m") simp
  moreover have "encode_segment_metadata_v1 m = Inr \<lparr>v1_blob_key = blob_key_str (sm_blob_key m),
      v1_created_ts_ms = sm_created_at m div 1000000, v1_metadata_published_ts_ms = sm_metadata_published_at m div 1000000,
      v1_compression = Some (encode_compression (sm_compression m)),
      v1_partitions = map encode_partition_index (sm_segment_index m)\<rparr>"
    using assms by (simp add: encode_segment_metadata_v1_def storable_segment_def storable_instant_roundtrip(1)[of dates])
  ultimately show ?thesis
    using assms idx
    by (simp add: decode_segment_metadata_v1_def storable_segment_def
        storable_instant_roundtrip decode_encode_compression stored_segment_def)
qed

lemma decode_partitions_ok:
  assumes "decode_partitions index ps = Inr result" "hm_ok index" "\<forall>(vp, b) \<in> set index. storable_batch b"
  shows "hm_ok result \<and> (\<forall>(vp, b) \<in> set result. storable_batch b) \<and> length result = length index + length ps"
  using assms
proof (induction index ps rule: decode_partitions.induct)
  case (1 index)
  then show ?case by simp
next
  case (2 index part rest)
  let ?vp = "spi_virtual_partition_id part"
  obtain batch where b: "spi_batch part = Some batch" "\<not> sbm_seq_end batch < sbm_seq_start batch"
    "\<not> sbm_byte_end batch \<le> sbm_byte_start batch" "hm_get index ?vp = None"
    using "2.prems"(1) by (auto simp: Let_def split: option.splits if_splits)
  let ?entry = "\<lparr>seq_range = \<lparr>seq_start = sbm_seq_start batch, seq_end = sbm_seq_end batch\<rparr>,
      byte_range = \<lparr>byte_start = sbm_byte_start batch, byte_end = sbm_byte_end batch\<rparr>,
      payload_bytes = sbm_payload_bytes batch\<rparr>"
  have ins: "hm_insert ?vp ?entry index = index @ [(?vp, ?entry)]"
    using b(4) by (intro hm_insert_fresh) (simp add: map_of_eq_None_iff)
  have "decode_partitions (hm_insert ?vp ?entry index) rest = Inr result"
    using "2.prems"(1) b by (simp add: Let_def)
  moreover have "\<forall>(vp, b) \<in> set (hm_insert ?vp ?entry index). storable_batch b"
    using "2.prems"(3) b ins by (auto simp: storable_batch_def seq_range_is_empty_def byte_range_is_empty_def)
  ultimately show ?case
    using "2.IH"[OF refl b(1) b(2,3) refl] "2.prems"(2) b ins hm_ok_insert[of index ?vp ?entry] by simp
qed

lemma decode_encode_row:
  assumes protobuf_roundtrip: "\<And>message bytes. write_to_bytes message = Some bytes \<Longrightarrow> parse_from_bytes bytes = Some message"
    and "storable_segment dates m" and "encode_segment write_to_bytes m = Inr row"
  shows "decode_segment parse_from_bytes dates (enc_partition_key row) (enc_sort_key row) (enc_payload row) =
    Inr (stored_segment m)"
proof -
  obtain v1 where v1: "encode_segment_metadata_v1 m = Inr v1"
    "decode_segment_metadata_v1 dates (sm_window m) (sm_snowflake_id m) v1 = Inr (stored_segment m)"
    using decode_encode_v1[OF assms(2)] by blast
  obtain bytes where bytes: "write_to_bytes v1 = Some bytes"
    and row: "row = \<lparr>enc_partition_key = segment_partition_key m, enc_sort_key = segment_snowflake_key m, enc_payload = bytes\<rparr>"
    using assms(3) v1 by (auto simp: encode_segment_def split: option.splits)
  have "parse_i64 (decimal_int (window_start_unix_seconds (sm_window m))) = Some (window_start_unix_seconds (sm_window m))"
    using assms(2) by (intro parse_i64_decimal) (auto simp: storable_segment_def)
  then show ?thesis
    using v1 row protobuf_roundtrip[OF bytes]
    by (simp add: decode_segment_def segment_partition_key_def segment_snowflake_key_def window_key_roundtrip
        parse_snowflake_format_lex)
qed

section \<open>Properties\<close>

text \<open>
  Claim C18.  Decoding the stored row of a segment gives the segment back, also when its topic contains
  the separator of the row key, up to the millisecond precision of the two instants and the default
  compression level.  The protobuf library is assumed to parse what it has written.
\<close>

theorem decode_encode_segment:
  assumes protobuf_roundtrip: "\<And>message bytes. write_to_bytes message = Some bytes \<Longrightarrow> parse_from_bytes bytes = Some message"
    and "storable_segment dates m" and "encode_segment write_to_bytes m = Inr row"
  shows "decode_segment parse_from_bytes dates (enc_partition_key row) (enc_sort_key row) (enc_payload row) =
    Inr (stored_segment m)"
  using assms by (rule decode_encode_row)

theorem decode_encode_segment_witness:
  "let m = \<lparr>sm_window = \<lparr>window_topic = ''a#1'', window_start_unix_seconds = - 300\<rparr>, sm_snowflake_id = 42,
        sm_blob_key = BlobKey ''k'', sm_compression = \<lparr>codec = Zstd, level = None\<rparr>,
        sm_segment_index = [(3, \<lparr>seq_range = \<lparr>seq_start = 0, seq_end = 4\<rparr>,
          byte_range = \<lparr>byte_start = 0, byte_end = 9\<rparr>, payload_bytes = 7\<rparr>)],
        sm_created_at = 1500000, sm_metadata_published_at = 2000000\<rparr>;
       v1 = projr (encode_segment_metadata_v1 m);
       write = (\<lambda>message. if message = v1 then Some [1] else None);
       parse = (\<lambda>bytes. if bytes = [1] then Some v1 else None);
       row = projr (encode_segment write m)
   in encode_segment write m = Inr row \<and>
      decode_segment parse (- (10 ^ 18), 10 ^ 18) (enc_partition_key row) (enc_sort_key row) (enc_payload row) =
        Inr (m\<lparr>sm_compression := \<lparr>codec = Zstd, level = Some 0\<rparr>, sm_created_at := 1000000\<rparr>)"
proof -
  define m where "m = \<lparr>sm_window = \<lparr>window_topic = ''a#1'', window_start_unix_seconds = - 300\<rparr>, sm_snowflake_id = 42,
      sm_blob_key = BlobKey ''k'', sm_compression = \<lparr>codec = Zstd, level = None\<rparr>,
      sm_segment_index = [(3, \<lparr>seq_range = \<lparr>seq_start = 0, seq_end = 4\<rparr>,
        byte_range = \<lparr>byte_start = 0, byte_end = 9\<rparr>, payload_bytes = 7\<rparr>)],
      sm_created_at = 1500000, sm_metadata_published_at = 2000000\<rparr>"
  define v1 where "v1 = projr (encode_segment_metadata_v1 m)"
  let ?enc = "\<lambda>message. if message = v1 then Some [1] else None"
  let ?parse = "\<lambda>bytes. if bytes = [1] then Some v1 else None"
  have ok: "storable_segment (- (10 ^ 18), 10 ^ 18) m"
    unfolding m_def by code_simp
  have enc: "encode_segment ?enc m = Inr (projr (encode_segment ?enc m))"
    using decode_encode_v1[OF ok] by (auto simp: encode_segment_def v1_def)
  have stored: "stored_segment m = m\<lparr>sm_compression := \<lparr>codec = Zstd, level = Some 0\<rparr>, sm_created_at := 1000000\<rparr>"
    unfolding m_def by code_simp
  have "decode_segment ?parse (- (10 ^ 18), 10 ^ 18) (enc_partition_key (projr (encode_segment ?enc m)))
      (enc_sort_key (projr (encode_segment ?enc m))) (enc_payload (projr (encode_segment ?enc m))) = Inr (stored_segment m)"
    by (rule decode_encode_segment[OF _ ok enc]) (simp split: if_splits)
  with enc have "encode_segment ?enc m = Inr (projr (encode_segment ?enc m)) \<and>
      decode_segment ?parse (- (10 ^ 18), 10 ^ 18) (enc_partition_key (projr (encode_segment ?enc m)))
      (enc_sort_key (projr (encode_segment ?enc m))) (enc_payload (projr (encode_segment ?enc m))) =
        Inr (m\<lparr>sm_compression := \<lparr>codec = Zstd, level = Some 0\<rparr>, sm_created_at := 1000000\<rparr>)"
    using stored by simp
  then show ?thesis
    unfolding Let_def v1_def m_def .
qed

text \<open>
  A row that decodes has a well-formed index: a blob key, at least one partition, none twice,
  every batch with an ordered sequence range and a nonempty byte range.  Rows that violate this are
  rejected with an error, not repaired.
\<close>

theorem decoded_segment_well_formed:
  assumes "decode_segment parse_from_bytes dates pk sk bytes = Inr m"
  shows "blob_key_str (sm_blob_key m) \<noteq> '''' \<and> sm_segment_index m \<noteq> [] \<and> hm_ok (sm_segment_index m)
    \<and> (\<forall>vp b. hm_get (sm_segment_index m) vp = Some b \<longrightarrow> storable_batch b)"
proof -
  obtain window snowflake v1 where "decode_segment_metadata_v1 dates window snowflake v1 = Inr m"
    using assms by (auto simp: decode_segment_def split: option.splits)
  then have "blob_key_str (sm_blob_key m) \<noteq> ''''" "v1_partitions v1 \<noteq> []"
    "decode_partitions [] (v1_partitions v1) = Inr (sm_segment_index m)"
    by (auto simp: decode_segment_metadata_v1_def split: if_splits option.splits sum.splits)
  then show ?thesis
    using decode_partitions_ok[of "[]" "v1_partitions v1" "sm_segment_index m"] by (auto dest!: map_of_SomeD)
qed

theorem decoded_segment_well_formed_witness:
  "let v1 = \<lparr>v1_blob_key = ''k'', v1_created_ts_ms = 1, v1_metadata_published_ts_ms = 2,
        v1_compression = Some \<lparr>ssc_codec = 0, ssc_level = 0\<rparr>,
        v1_partitions = [\<lparr>spi_virtual_partition_id = 3, spi_batch = Some \<lparr>sbm_seq_start = 0, sbm_seq_end = 4,
          sbm_byte_start = 0, sbm_byte_end = 9, sbm_payload_bytes = 7\<rparr>\<rparr>]\<rparr>;
       m = projr (decode_segment (\<lambda>_. Some v1) (- (10 ^ 18), 10 ^ 18) ''t#300'' ''00042'' [])
   in decode_segment (\<lambda>_. Some v1) (- (10 ^ 18), 10 ^ 18) ''t#300'' ''00042'' [] = Inr m
      \<and> sm_window m = \<lparr>window_topic = ''t'', window_start_unix_seconds = 300\<rparr> \<and> hm_ok (sm_segment_index m)"
proof -
  let ?v1 = "\<lparr>v1_blob_key = ''k'', v1_created_ts_ms = 1, v1_metadata_published_ts_ms = 2,
      v1_compression = Some \<lparr>ssc_codec = 0, ssc_level = 0\<rparr>,
      v1_partitions = [\<lparr>spi_virtual_partition_id = 3, spi_batch = Some \<lparr>sbm_seq_start = 0, sbm_seq_end = 4,
        sbm_byte_start = 0, sbm_byte_end = 9, sbm_payload_bytes = 7\<rparr>\<rparr>]\<rparr>"
  let ?d = "decode_segment (\<lambda>_. Some ?v1) (- (10 ^ 18), 10 ^ 18) ''t#300'' ''00042'' []"
  have d: "?d = Inr (projr ?d)" and w: "sm_window (projr ?d) = \<lparr>window_topic = ''t'', window_start_unix_seconds = 300\<rparr>"
    by code_simp+
  from decoded_segment_well_formed[OF d] d w show ?thesis unfolding Let_def by blast
qed

end
