(* ===== verification/Producer_Lease.thy ===== *)
theory Producer_Lease
  imports Types Lease_Contracts
begin

text \<open>
  The producer partition lease store of \<open>blob-stream-metadata-store\<close>: the lease types of
  \<open>lib.rs\<close> and the in-memory store of \<open>producer_partition_leases_memory.rs\<close>.  A lease row authorises
  one broker session to write a virtual partition until it expires, carries the fencing epoch and
  the high watermark of the sequence numbers reserved so far.
\<close>

section \<open>Lease types\<close>

record ProducerPartitionLeaseKey =
  lease_topic :: string
  lease_virtual_partition_id :: VirtualPartitionId

definition producer_lease_key_format :: "ProducerPartitionLeaseKey \<Rightarrow> string" where
  "producer_lease_key_format key =
     lease_topic key @ ''#'' @ decimal (unat (lease_virtual_partition_id key))"

record ProducerLeaseFence =
  fence_holder_id :: string
  fence_lease_epoch :: u64
  fence_lease_session_id :: string

record ProducerPartitionLease =
  lease_key :: ProducerPartitionLeaseKey
  lease_fence_of :: ProducerLeaseFence
  lease_expires_at :: instant
  lease_max_allocated_seq :: "u64 option"
  lease_first_sequence :: "u64 option"
  lease_last_handed_out_seq :: "u64 option"
  lease_progress_updated_at :: "instant option"

record ProducerSequenceProgress =
  progress_lease_sequence_start :: "u64 option"
  progress_last_handed_out_seq :: "u64 option"

definition default_progress :: ProducerSequenceProgress where
  "default_progress = \<lparr>progress_lease_sequence_start = None, progress_last_handed_out_seq = None\<rparr>"

record SequenceReservation =
  reservation_range :: SeqRange
  reservation_lease :: ProducerPartitionLease

datatype LeaseAcquireOutcome =
    LeaseAcquired ProducerPartitionLease
  | LeaseHeldByOther ProducerPartitionLease

datatype LeaseAcquireAndReserveOutcome =
    Acquired ProducerPartitionLease "SeqRange option"
  | HeldByOther ProducerPartitionLease

datatype LeaseHeartbeatOutcome =
    HeartbeatRenewed ProducerPartitionLease
  | HeartbeatHeldByOther ProducerPartitionLease
  | HeartbeatExpired

datatype SequenceReservationOutcome =
    Reserved SequenceReservation
  | ReservationHeldByOther ProducerPartitionLease
  | ReservationExpired

datatype LeaseReleaseOutcome =
    Released
  | ReleaseHeldByOther ProducerPartitionLease
  | ReleaseExpired

section \<open>The in-memory store\<close>

datatype LeaseStoreError =
    ReservationSizeZero
  | LeaseEpochOverflow
  | SequenceRangeOverflow
  | LeaseExpirationOverflow
  | UnrequestedReservation \<comment> \<open>the \<open>unreachable!\<close> of \<open>acquire_lease\<close>\<close>

record LeaseState =
  holder_id :: string
  lease_epoch :: u64
  lease_session_id :: string
  lease_expiration_at :: instant
  max_allocated_seq :: "u64 option"
  lease_sequence_start :: "u64 option"
  last_handed_out_seq :: "u64 option"
  sequence_progress_updated_at :: "instant option"

type_synonym LeaseStore = "(ProducerPartitionLeaseKey, LeaseState) hmap"

definition is_expired :: "LeaseState \<Rightarrow> instant \<Rightarrow> bool" where
  "is_expired state now \<longleftrightarrow> lease_expiration_at state \<le> now"

definition to_lease :: "LeaseState \<Rightarrow> ProducerPartitionLeaseKey \<Rightarrow> ProducerPartitionLease" where
  "to_lease state key =
     \<lparr>lease_key = key,
      lease_fence_of = \<lparr>fence_holder_id = holder_id state, fence_lease_epoch = lease_epoch state,
                        fence_lease_session_id = lease_session_id state\<rparr>,
      lease_expires_at = lease_expiration_at state,
      lease_max_allocated_seq = max_allocated_seq state,
      lease_first_sequence = lease_sequence_start state,
      lease_last_handed_out_seq = last_handed_out_seq state,
      lease_progress_updated_at = sequence_progress_updated_at state\<rparr>"

definition reserve_range :: "u64 option \<Rightarrow> u64 \<Rightarrow> LeaseStoreError + (SeqRange \<times> u64)" where
  "reserve_range current reservation_size =
     (case (case current of Some value \<Rightarrow> checked_add value 1 | None \<Rightarrow> Some 0) of
        None \<Rightarrow> Inl SequenceRangeOverflow
      | Some start \<Rightarrow>
          (case checked_add start (saturating_sub reservation_size 1) of
             None \<Rightarrow> Inl SequenceRangeOverflow
           | Some end_seq \<Rightarrow> Inr (\<lparr>seq_start = start, seq_end = end_seq\<rparr>, end_seq)))"

definition expires_at :: "date_range \<Rightarrow> instant \<Rightarrow> duration \<Rightarrow> LeaseStoreError + instant" where
  "expires_at dates now lease_duration =
     (case checked_instant dates (now + lease_duration) of
        None \<Rightarrow> Inl LeaseExpirationOverflow
      | Some t \<Rightarrow> Inr t)"

definition get_lease :: "LeaseStore \<Rightarrow> ProducerPartitionLeaseKey \<Rightarrow> ProducerPartitionLease option" where
  "get_lease store key = map_option (\<lambda>state. to_lease state key) (hm_get store key)"

text \<open>The row that \<open>entry(key).or_insert_with\<close> leaves in the map for an unknown key.\<close>

definition fresh_state :: "string \<Rightarrow> string \<Rightarrow> instant \<Rightarrow> LeaseState" where
  "fresh_state holder session expires =
     \<lparr>holder_id = holder, lease_epoch = 1, lease_session_id = session,
      lease_expiration_at = expires, max_allocated_seq = None, lease_sequence_start = None,
      last_handed_out_seq = None, sequence_progress_updated_at = None\<rparr>"

definition owned_by :: "LeaseState \<Rightarrow> string \<Rightarrow> string \<Rightarrow> bool" where
  "owned_by state holder session \<longleftrightarrow> holder_id state = holder \<and> lease_session_id state = session"

text \<open>
  The local bindings of \<open>acquire_lease_and_reserve_sequences\<close>: the map and the row behind \<open>entry\<close>,
  the epoch of the acquisition and the reservation it makes.
\<close>

definition entry_or_insert ::
    "LeaseStore \<Rightarrow> ProducerPartitionLeaseKey \<Rightarrow> LeaseState \<Rightarrow> LeaseStore \<times> LeaseState" where
  "entry_or_insert store key fresh =
     (case hm_get store key of
        Some state \<Rightarrow> (store, state)
      | None \<Rightarrow> (hm_insert key fresh store, fresh))"

definition acquire_epoch :: "LeaseState \<Rightarrow> bool \<Rightarrow> u64 option" where
  "acquire_epoch state takeover =
     (if takeover then checked_add (lease_epoch state) 1 else Some (lease_epoch state))"

definition acquire_reservation ::
    "LeaseState \<Rightarrow> u64 option \<Rightarrow> LeaseStoreError + (SeqRange \<times> u64) option" where
  "acquire_reservation state reservation_size =
     (case reservation_size of
        None \<Rightarrow> Inr None
      | Some n \<Rightarrow> map_sum id Some (reserve_range (max_allocated_seq state) n))"

definition acquire_lease_and_reserve_sequences ::
    "date_range \<Rightarrow> LeaseStore \<Rightarrow> ProducerPartitionLeaseKey \<Rightarrow> string \<Rightarrow> string \<Rightarrow> instant \<Rightarrow> duration
     \<Rightarrow> u64 option \<Rightarrow> ProducerSequenceProgress
     \<Rightarrow> (LeaseStoreError + LeaseAcquireAndReserveOutcome) \<times> LeaseStore" where
  "acquire_lease_and_reserve_sequences dates store key holder session now lease_duration
     reservation_size progress =
   (if reservation_size = Some 0 then (Inl ReservationSizeZero, store)
    else case expires_at dates now lease_duration of
      Inl e \<Rightarrow> (Inl e, store)
    | Inr expires \<Rightarrow>
       (case entry_or_insert store key (fresh_state holder session expires) of (guard, state) \<Rightarrow>
        if \<not> is_expired state now \<and> \<not> owned_by state holder session
        then (Inr (HeldByOther (to_lease state key)), guard)
        else
          let takeover = is_expired state now \<or> lease_session_id state \<noteq> session
          in case acquire_epoch state takeover of
               None \<Rightarrow> (Inl LeaseEpochOverflow, guard)
             | Some epoch \<Rightarrow>
                (case acquire_reservation state reservation_size of
                   Inl e \<Rightarrow> (Inl e, guard)
                 | Inr reservation \<Rightarrow>
                    (let state1 = (if takeover
                                   then state\<lparr>lease_epoch := epoch, lease_session_id := session\<rparr>
                                   else state);
                         state2 = state1\<lparr>holder_id := holder, lease_expiration_at := expires\<rparr>;
                         state3 = (case reservation of
                                     Some (_, updated) \<Rightarrow> state2\<lparr>max_allocated_seq := Some updated\<rparr>
                                   | None \<Rightarrow> state2);
                         range' = map_option fst reservation;
                         state4 = state3\<lparr>
                           lease_sequence_start :=
                             (case progress_lease_sequence_start progress of
                                Some b \<Rightarrow> Some b
                              | None \<Rightarrow> map_option seq_start range'),
                           last_handed_out_seq := progress_last_handed_out_seq progress,
                           sequence_progress_updated_at := Some now\<rparr>
                     in (Inr (Acquired (to_lease state4 key) range'), hm_insert key state4 guard)))))"

definition acquire_lease ::
    "date_range \<Rightarrow> LeaseStore \<Rightarrow> ProducerPartitionLeaseKey \<Rightarrow> string \<Rightarrow> string \<Rightarrow> instant \<Rightarrow> duration
     \<Rightarrow> ProducerSequenceProgress \<Rightarrow> (LeaseStoreError + LeaseAcquireOutcome) \<times> LeaseStore" where
  "acquire_lease dates store key holder session now lease_duration progress =
   (case acquire_lease_and_reserve_sequences dates store key holder session now lease_duration None
           progress of
      (Inl e, store') \<Rightarrow> (Inl e, store')
    | (Inr (Acquired lease None), store') \<Rightarrow> (Inr (LeaseAcquired lease), store')
    | (Inr (Acquired lease (Some _)), store') \<Rightarrow> (Inl UnrequestedReservation, store')
    | (Inr (HeldByOther lease), store') \<Rightarrow> (Inr (LeaseHeldByOther lease), store'))"

definition heartbeat_lease ::
    "date_range \<Rightarrow> LeaseStore \<Rightarrow> ProducerPartitionLeaseKey \<Rightarrow> string \<Rightarrow> string \<Rightarrow> instant \<Rightarrow> duration
     \<Rightarrow> ProducerSequenceProgress \<Rightarrow> (LeaseStoreError + LeaseHeartbeatOutcome) \<times> LeaseStore" where
  "heartbeat_lease dates store key holder session now lease_duration progress =
   (case hm_get store key of
      None \<Rightarrow> (Inr HeartbeatExpired, store)
    | Some state \<Rightarrow>
       if is_expired state now then (Inr HeartbeatExpired, store)
       else if \<not> owned_by state holder session
       then (Inr (HeartbeatHeldByOther (to_lease state key)), store)
       else case expires_at dates now lease_duration of
         Inl e \<Rightarrow> (Inl e, store)
       | Inr expires \<Rightarrow>
          let state' = state\<lparr>
                lease_expiration_at := expires,
                lease_sequence_start := progress_lease_sequence_start progress,
                last_handed_out_seq := progress_last_handed_out_seq progress,
                sequence_progress_updated_at := Some now\<rparr>
          in (Inr (HeartbeatRenewed (to_lease state' key)), hm_insert key state' store))"

definition reserve_sequences ::
    "LeaseStore \<Rightarrow> ProducerPartitionLeaseKey \<Rightarrow> string \<Rightarrow> string \<Rightarrow> instant \<Rightarrow> u64
     \<Rightarrow> ProducerSequenceProgress \<Rightarrow> (LeaseStoreError + SequenceReservationOutcome) \<times> LeaseStore" where
  "reserve_sequences store key holder session now reservation_size progress =
   (if reservation_size = 0 then (Inl ReservationSizeZero, store)
    else case hm_get store key of
      None \<Rightarrow> (Inr ReservationExpired, store)
    | Some state \<Rightarrow>
       if is_expired state now then (Inr ReservationExpired, store)
       else if \<not> owned_by state holder session
       then (Inr (ReservationHeldByOther (to_lease state key)), store)
       else case reserve_range (max_allocated_seq state) reservation_size of
         Inl e \<Rightarrow> (Inl e, store)
       | Inr (range', updated) \<Rightarrow>
          let state' = state\<lparr>
                max_allocated_seq := Some updated,
                lease_sequence_start :=
                  (case progress_lease_sequence_start progress of
                     Some s \<Rightarrow> Some s
                   | None \<Rightarrow> Some (seq_start range')),
                last_handed_out_seq := progress_last_handed_out_seq progress,
                sequence_progress_updated_at := Some now\<rparr>
          in (Inr (Reserved \<lparr>reservation_range = range', reservation_lease = to_lease state' key\<rparr>),
              hm_insert key state' store))"

definition release_lease ::
    "LeaseStore \<Rightarrow> ProducerPartitionLeaseKey \<Rightarrow> string \<Rightarrow> string \<Rightarrow> instant
     \<Rightarrow> ProducerSequenceProgress \<Rightarrow> (LeaseStoreError + LeaseReleaseOutcome) \<times> LeaseStore" where
  "release_lease store key holder session now progress =
   (case hm_get store key of
      None \<Rightarrow> (Inr ReleaseExpired, store)
    | Some state \<Rightarrow>
       if is_expired state now then (Inr ReleaseExpired, store)
       else if \<not> owned_by state holder session
       then (Inr (ReleaseHeldByOther (to_lease state key)), store)
       else
         let state' = state\<lparr>
               lease_expiration_at := now,
               lease_sequence_start := progress_lease_sequence_start progress,
               last_handed_out_seq := progress_last_handed_out_seq progress,
               sequence_progress_updated_at := Some now\<rparr>
         in (Inr Released, hm_insert key state' store))"

section \<open>The store as a state machine\<close>

text \<open>The calls of the store's trait, with the caller, its clock and the arguments.\<close>

datatype lease_call =
    AcquireCall duration ProducerSequenceProgress
  | AcquireAndReserveCall duration "u64 option" ProducerSequenceProgress
  | HeartbeatCall duration ProducerSequenceProgress
  | ReserveCall u64 ProducerSequenceProgress
  | ReleaseCall ProducerSequenceProgress

record lease_op =
  op_key :: ProducerPartitionLeaseKey
  op_holder :: string
  op_session :: string
  op_now :: instant
  op_call :: lease_call

definition lease_step :: "date_range \<Rightarrow> lease_op \<Rightarrow> LeaseStore \<Rightarrow> LeaseStore" where
  "lease_step dates op store =
   (let key = op_key op; h = op_holder op; s = op_session op; now = op_now op
    in case op_call op of
      AcquireCall d p \<Rightarrow> snd (acquire_lease dates store key h s now d p)
    | AcquireAndReserveCall d n p \<Rightarrow>
        snd (acquire_lease_and_reserve_sequences dates store key h s now d n p)
    | HeartbeatCall d p \<Rightarrow> snd (heartbeat_lease dates store key h s now d p)
    | ReserveCall n p \<Rightarrow> snd (reserve_sequences store key h s now n p)
    | ReleaseCall p \<Rightarrow> snd (release_lease store key h s now p))"

text \<open>The range a call returns, as the key with the first and the last number.\<close>

definition lease_reserved ::
    "date_range \<Rightarrow> lease_op \<Rightarrow> LeaseStore \<Rightarrow> (ProducerPartitionLeaseKey \<times> nat \<times> nat) option" where
  "lease_reserved dates op store =
   (let key = op_key op; h = op_holder op; s = op_session op; now = op_now op
    in case op_call op of
      AcquireAndReserveCall d n p \<Rightarrow>
        (case fst (acquire_lease_and_reserve_sequences dates store key h s now d n p) of
           Inr (Acquired _ (Some r)) \<Rightarrow> Some (key, unat (seq_start r), unat (seq_end r))
         | _ \<Rightarrow> None)
    | ReserveCall n p \<Rightarrow>
        (case fst (reserve_sequences store key h s now n p) of
           Inr (Reserved r) \<Rightarrow>
             Some (key, unat (seq_start (reservation_range r)), unat (seq_end (reservation_range r)))
         | _ \<Rightarrow> None)
    | _ \<Rightarrow> None)"

text \<open>The fence of the lease that a successful call returns.\<close>

definition lease_granted :: "date_range \<Rightarrow> lease_op \<Rightarrow> LeaseStore
    \<Rightarrow> (ProducerPartitionLeaseKey \<times> (string \<times> string) \<times> nat) option" where
  "lease_granted dates op store =
   (let key = op_key op; h = op_holder op; s = op_session op; now = op_now op;
        grant = (\<lambda>lease. Some (key, (fence_holder_id (lease_fence_of lease),
                                     fence_lease_session_id (lease_fence_of lease)),
                               unat (fence_lease_epoch (lease_fence_of lease))))
    in case op_call op of
      AcquireCall d p \<Rightarrow>
        (case fst (acquire_lease dates store key h s now d p) of
           Inr (LeaseAcquired lease) \<Rightarrow> grant lease | _ \<Rightarrow> None)
    | AcquireAndReserveCall d n p \<Rightarrow>
        (case fst (acquire_lease_and_reserve_sequences dates store key h s now d n p) of
           Inr (Acquired lease _) \<Rightarrow> grant lease | _ \<Rightarrow> None)
    | HeartbeatCall d p \<Rightarrow>
        (case fst (heartbeat_lease dates store key h s now d p) of
           Inr (HeartbeatRenewed lease) \<Rightarrow> grant lease | _ \<Rightarrow> None)
    | ReserveCall n p \<Rightarrow>
        (case fst (reserve_sequences store key h s now n p) of
           Inr (Reserved r) \<Rightarrow> grant (reservation_lease r) | _ \<Rightarrow> None)
    | ReleaseCall p \<Rightarrow> None)"

definition row_owner :: "LeaseState \<Rightarrow> string \<times> string" where
  "row_owner state = (holder_id state, lease_session_id state)"

definition next_seq_mark :: "LeaseStore \<Rightarrow> ProducerPartitionLeaseKey \<Rightarrow> nat" where
  "next_seq_mark store key =
     (case hm_get store key of
        None \<Rightarrow> 0
      | Some state \<Rightarrow> (case max_allocated_seq state of None \<Rightarrow> 0 | Some m \<Rightarrow> unat m + 1))"

section \<open>Rows under the operations\<close>

definition state_mark :: "LeaseState \<Rightarrow> nat" where
  "state_mark state = (case max_allocated_seq state of None \<Rightarrow> 0 | Some m \<Rightarrow> unat m + 1)"

text \<open>
  What one call may do to the row of its key: nothing, or leave a row owned by the caller.  A row
  that was there is renewed by its owner under the same epoch, or taken over after its expiry under
  the next epoch; its mark does not decrease.
\<close>

definition row_evolves ::
    "string \<times> string \<Rightarrow> instant \<Rightarrow> LeaseState option \<Rightarrow> LeaseState option \<Rightarrow> bool" where
  "row_evolves caller now old new \<longleftrightarrow>
     new = old \<or>
     (\<exists>state'. new = Some state' \<and> row_owner state' = caller \<and>
       (\<forall>state. old = Some state \<longrightarrow>
          (is_expired state now \<and> unat (lease_epoch state') = unat (lease_epoch state) + 1 \<or>
           \<not> is_expired state now \<and> row_owner state = caller \<and> lease_epoch state' = lease_epoch state)
          \<and> state_mark state \<le> state_mark state'))"

lemma row_evolves_refl [simp]: "row_evolves caller now old old"
  by (simp add: row_evolves_def)

lemma reserve_range_Inr:
  assumes "reserve_range current n = Inr (r, updated)"
  shows "updated = seq_end r"
    and "unat (seq_start r) = (case current of None \<Rightarrow> 0 | Some m \<Rightarrow> unat m + 1)"
    and "unat (seq_end r) = unat (seq_start r) + (unat n - 1)"
  using assms by (auto simp: reserve_range_def machine_int split: option.splits)

lemma next_seq_mark_row:
  "next_seq_mark store key = (case hm_get store key of None \<Rightarrow> 0 | Some state \<Rightarrow> state_mark state)"
  by (simp add: next_seq_mark_def state_mark_def split: option.splits)

lemmas lease_row_defs = row_owner_def owned_by_def state_mark_def fresh_state_def

lemma expires_at_Inr:
  "expires_at dates now d = Inr t \<longleftrightarrow> checked_instant dates (now + d) = Some t"
  by (simp add: expires_at_def split: option.splits)

lemma checked_add_fresh_epoch: "checked_add 1 1 = Some (2 :: u64)"
  by (simp add: checked_add_def)

lemma reserve_range_fresh: "\<exists>r. reserve_range None n = Inr r"
  using u64_bound[of "saturating_sub n 1"] by (auto simp: reserve_range_def checked_add_def)

text \<open>The successful branch of an acquisition, and the only ways it ends otherwise.\<close>

lemma acquire_fresh_succeeds:
  "\<exists>e. acquire_epoch (fresh_state h s expires) takeover = Some e"
  "\<exists>r. acquire_reservation (fresh_state h s expires) n = Inr r"
  using reserve_range_fresh[of "the n"]
  by (auto simp: acquire_epoch_def acquire_reservation_def fresh_state_def checked_add_fresh_epoch
      split: option.splits)

text \<open>The row an acquisition leaves behind.\<close>

lemma acquire_success:
  assumes "acquire_lease_and_reserve_sequences dates store key h s now d n p =
      (Inr (Acquired lease range'), store')"
  obtains state state' epoch reservation where
    "lease = to_lease state' key" "range' = map_option fst reservation"
    "state = (case hm_get store key of Some st \<Rightarrow> st | None \<Rightarrow> fresh_state h s (now + d))"
    "hm_get store' = (hm_get store)(key \<mapsto> state')"
    "n \<noteq> Some 0" "is_expired state now \<or> row_owner state = (h, s)"
    "acquire_epoch state (is_expired state now \<or> lease_session_id state \<noteq> s) = Some epoch"
    "acquire_reservation state n = Inr reservation"
    "row_owner state' = (h, s)" "lease_epoch state' = epoch" "lease_expiration_at state' = now + d"
    "max_allocated_seq state' =
       (case reservation of Some (_, u) \<Rightarrow> Some u | None \<Rightarrow> max_allocated_seq state)"
proof -
  have n: "n \<noteq> Some 0" using assms by (auto simp: acquire_lease_and_reserve_sequences_def)
  obtain expires where ex: "expires_at dates now d = Inr expires"
    using assms n by (auto simp: acquire_lease_and_reserve_sequences_def split: sum.splits)
  then have expires: "expires = now + d" by (auto simp: expires_at_Inr checked_instant_def split: if_splits)
  obtain guard state where en: "entry_or_insert store key (fresh_state h s expires) = (guard, state)"
    by fastforce
  have st: "state = (case hm_get store key of Some st \<Rightarrow> st | None \<Rightarrow> fresh_state h s (now + d))"
    and guard: "\<And>v. hm_get (hm_insert key v guard) = (hm_get store)(key \<mapsto> v)"
    using en expires by (auto simp: entry_or_insert_def hash_map fun_eq_iff split: option.splits)
  note body = assms[unfolded acquire_lease_and_reserve_sequences_def ex en if_not_P[OF n] sum.case prod.case]
  have free: "is_expired state now \<or> owned_by state h s" using body by (auto split: if_splits)
  then have nf: "\<not> (\<not> is_expired state now \<and> \<not> owned_by state h s)" by blast
  note body = body[unfolded if_not_P[OF nf] Let_def]
  obtain epoch where ep: "acquire_epoch state (is_expired state now \<or> lease_session_id state \<noteq> s) = Some epoch"
    using body by (auto split: option.splits)
  obtain reservation where rs: "acquire_reservation state n = Inr reservation"
    using body ep by (auto split: sum.splits)
  note body = body[unfolded ep rs option.case sum.case]
  from body obtain state' where state':
    "lease = to_lease state' key" "range' = map_option fst reservation" "store' = hm_insert key state' guard"
    "row_owner state' = (h, s)" "lease_epoch state' = epoch" "lease_expiration_at state' = expires"
    "max_allocated_seq state' =
       (case reservation of Some (_, u) \<Rightarrow> Some u | None \<Rightarrow> max_allocated_seq state)"
    using ep by (cases reservation) (auto simp: lease_row_defs acquire_epoch_def split: if_splits)
  show thesis
    using that[of state' reservation state epoch] state' st guard n free ep rs expires
    by (simp add: lease_row_defs fun_upd_def)
qed

text \<open>Every other outcome leaves the map as it was.\<close>

lemma acquire_other:
  assumes "acquire_lease_and_reserve_sequences dates store key h s now d n p = (res, store')"
    and "\<nexists>lease r. res = Inr (Acquired lease r)"
  shows "store' = store"
proof (rule ccontr)
  assume changed: "store' \<noteq> store"
  then have n: "n \<noteq> Some 0"
    using assms(1) by (auto simp: acquire_lease_and_reserve_sequences_def)
  obtain expires where ex: "expires_at dates now d = Inr expires"
    using assms(1) n changed by (auto simp: acquire_lease_and_reserve_sequences_def split: sum.splits)
  obtain guard state where en: "entry_or_insert store key (fresh_state h s expires) = (guard, state)"
    by fastforce
  note body = assms(1)[unfolded acquire_lease_and_reserve_sequences_def ex en if_not_P[OF n] sum.case prod.case]
  have "store' = guard"
    using body assms(2) by (auto simp: Let_def split: if_splits option.splits sum.splits)
  with changed en have state: "state = fresh_state h s expires"
    by (auto simp: entry_or_insert_def split: option.splits)
  obtain epoch where ep: "acquire_epoch state (is_expired state now \<or> lease_session_id state \<noteq> s) = Some epoch"
    using acquire_fresh_succeeds(1) state by blast
  obtain reservation where rs: "acquire_reservation state n = Inr reservation"
    using acquire_fresh_succeeds(2) state by blast
  have nf: "\<not> (\<not> is_expired state now \<and> \<not> owned_by state h s)"
    using state by (simp add: lease_row_defs)
  from body[unfolded if_not_P[OF nf] Let_def ep rs option.case sum.case prod.inject] assms(2)
  show False by blast
qed

lemma acquire_reservation_mark:
  assumes "acquire_reservation state n = Inr reservation"
    and "max_allocated_seq state' = (case reservation of Some (_, u) \<Rightarrow> Some u | None \<Rightarrow> max_allocated_seq state)"
  shows "state_mark state \<le> state_mark state'"
    and "map_option fst reservation = Some r \<Longrightarrow>
      unat (seq_start r) = state_mark state \<and> seq_start r \<le> seq_end r \<and>
      state_mark state' = unat (seq_end r) + 1"
proof -
  have "reservation = None \<or> (\<exists>r. reservation = Some (r, seq_end r) \<and> unat (seq_start r) = state_mark state
      \<and> unat (seq_start r) \<le> unat (seq_end r))"
  proof (cases n)
    case (Some m)
    with assms(1) obtain r u where "reserve_range (max_allocated_seq state) m = Inr (r, u)" "reservation = Some (r, u)"
      by (cases "reserve_range (max_allocated_seq state) m") (auto simp: acquire_reservation_def)
    then show ?thesis using reserve_range_Inr[of "max_allocated_seq state" m r u] by (simp add: state_mark_def)
  qed (use assms in \<open>simp add: acquire_reservation_def\<close>)
  then show "state_mark state \<le> state_mark state'"
    and "map_option fst reservation = Some r \<Longrightarrow>
      unat (seq_start r) = state_mark state \<and> seq_start r \<le> seq_end r \<and>
      state_mark state' = unat (seq_end r) + 1"
    using assms(2) by (auto simp: state_mark_def[of state'] word_le_nat_alt) (simp add: state_mark_def)
qed

lemma acquire_success_row:
  assumes "acquire_lease_and_reserve_sequences dates store key h s now d n p =
      (Inr (Acquired lease range'), store')"
  obtains state' where "lease = to_lease state' key"
    "hm_get store' = (hm_get store)(key \<mapsto> state')"
    "row_owner state' = (h, s)" "lease_expiration_at state' = now + d"
    "row_evolves (h, s) now (hm_get store key) (Some state')"
    "range' = None \<longleftrightarrow> n = None"
    "\<And>r. range' = Some r \<Longrightarrow> unat (seq_start r) = next_seq_mark store key \<and> seq_start r \<le> seq_end r \<and>
       state_mark state' = unat (seq_end r) + 1"
proof -
  from assms obtain state state' epoch reservation where
    r: "lease = to_lease state' key" "range' = map_option fst reservation"
    "state = (case hm_get store key of Some st \<Rightarrow> st | None \<Rightarrow> fresh_state h s (now + d))"
    "hm_get store' = (hm_get store)(key \<mapsto> state')"
    "n \<noteq> Some 0" "is_expired state now \<or> row_owner state = (h, s)"
    "acquire_epoch state (is_expired state now \<or> lease_session_id state \<noteq> s) = Some epoch"
    "acquire_reservation state n = Inr reservation"
    "row_owner state' = (h, s)" "lease_epoch state' = epoch" "lease_expiration_at state' = now + d"
    "max_allocated_seq state' =
       (case reservation of Some (_, u) \<Rightarrow> Some u | None \<Rightarrow> max_allocated_seq state)"
    by (rule acquire_success)
  note marks = acquire_reservation_mark[OF r(8,12)]
  have "next_seq_mark store key = state_mark state"
    using r(3) by (simp add: next_seq_mark_row state_mark_def fresh_state_def split: option.splits)
  moreover have "row_evolves (h, s) now (hm_get store key) (Some state')"
    using r(3,6,7,9,10) marks(1)
    by (auto simp: row_evolves_def acquire_epoch_def row_owner_def machine_int split: if_splits)
  moreover have "range' = None \<longleftrightarrow> n = None"
    using r(2,8) by (cases n) (auto simp: acquire_reservation_def map_sum_def split: sum.splits)
  ultimately show thesis
    using that[of state'] r marks(2) by (simp add: fun_upd_def)
qed

lemma acquire_step:
  assumes "acquire_lease_and_reserve_sequences dates store key h s now d n p = (res, store')"
  shows "k \<noteq> key \<Longrightarrow> hm_get store' k = hm_get store k"
    and "row_evolves (h, s) now (hm_get store key) (hm_get store' key)"
proof -
  have "(\<forall>k. k \<noteq> key \<longrightarrow> hm_get store' k = hm_get store k)
    \<and> row_evolves (h, s) now (hm_get store key) (hm_get store' key)"
  proof (cases "\<exists>lease r. res = Inr (Acquired lease r)")
    case True
    with assms show ?thesis by (auto elim!: acquire_success_row)
  next
    case False
    with acquire_other[OF assms] show ?thesis by simp
  qed
  then show "k \<noteq> key \<Longrightarrow> hm_get store' k = hm_get store k"
    and "row_evolves (h, s) now (hm_get store key) (hm_get store' key)" by auto
qed

lemma acquire_lease_snd:
  "snd (acquire_lease dates store key h s now d p) =
   snd (acquire_lease_and_reserve_sequences dates store key h s now d None p)"
  by (simp add: acquire_lease_def split: prod.splits sum.splits LeaseAcquireAndReserveOutcome.splits option.splits)

lemma acquire_lease_fst:
  "fst (acquire_lease dates store key h s now d p) =
   (case fst (acquire_lease_and_reserve_sequences dates store key h s now d None p) of
      Inl e \<Rightarrow> Inl e
    | Inr (Acquired lease _) \<Rightarrow> Inr (LeaseAcquired lease)
    | Inr (HeldByOther lease) \<Rightarrow> Inr (LeaseHeldByOther lease))"
  by (auto simp: acquire_lease_def split: prod.splits sum.splits LeaseAcquireAndReserveOutcome.splits
      option.splits elim!: acquire_success_row)

lemma live_owner_evolves:
  assumes "\<not> is_expired state now" "owned_by state h s" "row_owner state' = row_owner state"
    "lease_epoch state' = lease_epoch state" "state_mark state \<le> state_mark state'"
  shows "row_evolves (h, s) now (Some state) (Some state')"
  using assms by (auto simp: row_evolves_def row_owner_def owned_by_def)

lemma reserve_step_mark:
  "reserve_range (max_allocated_seq state) n = Inr (r, u) \<Longrightarrow>
   u = seq_end r \<and> state_mark state = unat (seq_start r) \<and> unat (seq_start r) \<le> unat (seq_end r)"
  using reserve_range_Inr[of "max_allocated_seq state" n r u] by (simp add: state_mark_def)

lemma state_mark_Some [simp]: "max_allocated_seq state = Some u \<Longrightarrow> state_mark state = unat u + 1"
  by (simp add: state_mark_def)

lemma heartbeat_step:
  assumes "heartbeat_lease dates store key h s now d p = (res, store')"
  shows "k \<noteq> key \<Longrightarrow> hm_get store' k = hm_get store k"
    and "row_evolves (h, s) now (hm_get store key) (hm_get store' key)"
  using assms
  by (auto simp: heartbeat_lease_def hash_map Let_def row_owner_def state_mark_def intro!: live_owner_evolves
      split: option.splits if_splits sum.splits)

lemma release_step:
  assumes "release_lease store key h s now p = (res, store')"
  shows "k \<noteq> key \<Longrightarrow> hm_get store' k = hm_get store k"
    and "row_evolves (h, s) now (hm_get store key) (hm_get store' key)"
  using assms
  by (auto simp: release_lease_def hash_map Let_def row_owner_def state_mark_def intro!: live_owner_evolves
      split: option.splits if_splits sum.splits)

lemma reserve_step:
  assumes "reserve_sequences store key h s now n p = (res, store')"
  shows "k \<noteq> key \<Longrightarrow> hm_get store' k = hm_get store k"
    and "row_evolves (h, s) now (hm_get store key) (hm_get store' key)"
  using assms
  by (auto simp: reserve_sequences_def hash_map Let_def row_owner_def dest!: reserve_step_mark
      intro!: live_owner_evolves split: option.splits if_splits sum.splits prod.splits)

lemma lease_step_row:
  shows lease_step_frame: "k \<noteq> op_key op \<Longrightarrow> hm_get (lease_step dates op store) k = hm_get store k"
    and lease_step_evolves: "row_evolves (op_holder op, op_session op) (op_now op)
      (hm_get store (op_key op)) (hm_get (lease_step dates op store) (op_key op))"
  by (auto simp: lease_step_def Let_def acquire_lease_snd split: lease_call.splits
      intro: acquire_step heartbeat_step reserve_step release_step prod.collapse[symmetric])

text \<open>A call that returns a lease returns the row it leaves behind.\<close>

lemma acquire_returns_row:
  assumes "fst (acquire_lease_and_reserve_sequences dates store key h s now d n p) = Inr (Acquired lease r)"
  shows "\<exists>state'. lease = to_lease state' key \<and>
    hm_get (snd (acquire_lease_and_reserve_sequences dates store key h s now d n p)) key = Some state'"
  using assms by (cases "acquire_lease_and_reserve_sequences dates store key h s now d n p")
    (auto elim: acquire_success_row)

lemma heartbeat_returns_row:
  assumes "fst (heartbeat_lease dates store key h s now d p) = Inr (HeartbeatRenewed lease)"
  shows "\<exists>state'. lease = to_lease state' key \<and>
    hm_get (snd (heartbeat_lease dates store key h s now d p)) key = Some state'"
  using assms by (auto simp: heartbeat_lease_def hash_map Let_def split: option.splits if_splits sum.splits)

lemma reserve_returns_row:
  assumes "fst (reserve_sequences store key h s now n p) = Inr (Reserved r)"
  shows "\<exists>state'. reservation_lease r = to_lease state' key \<and>
    hm_get (snd (reserve_sequences store key h s now n p)) key = Some state' \<and>
    next_seq_mark store key = unat (seq_start (reservation_range r)) \<and>
    unat (seq_start (reservation_range r)) \<le> unat (seq_end (reservation_range r)) \<and>
    state_mark state' = unat (seq_end (reservation_range r)) + 1"
proof -
  obtain state where st: "hm_get store key = Some state" "\<not> is_expired state now" "owned_by state h s" "n \<noteq> 0"
    using assms by (auto simp: reserve_sequences_def split: option.splits if_splits)
  then obtain g u where g: "reserve_range (max_allocated_seq state) n = Inr (g, u)"
    using assms by (auto simp: reserve_sequences_def split: sum.splits)
  with assms st reserve_step_mark[OF g] show ?thesis
    by (auto simp: reserve_sequences_def next_seq_mark_row hash_map Let_def)
qed

lemma to_lease_fence [simp]:
  "fence_holder_id (lease_fence_of (to_lease state key)) = holder_id state"
  "fence_lease_session_id (lease_fence_of (to_lease state key)) = lease_session_id state"
  "fence_lease_epoch (lease_fence_of (to_lease state key)) = lease_epoch state"
  by (simp_all add: to_lease_def)

lemma lease_granted_row:
  assumes "lease_granted dates op store = Some (k, ow, e)"
  shows "\<exists>state'. hm_get (lease_step dates op store) k = Some state' \<and>
    row_owner state' = ow \<and> unat (lease_epoch state') = e"
  using assms
  by (auto simp: lease_granted_def lease_step_def acquire_lease_fst acquire_lease_snd row_owner_def Let_def
      dest!: acquire_returns_row heartbeat_returns_row reserve_returns_row
      split: lease_call.splits sum.splits LeaseAcquireAndReserveOutcome.splits
        LeaseHeartbeatOutcome.splits SequenceReservationOutcome.splits)

lemma lease_reserved_fresh:
  assumes "lease_reserved dates op store = Some (k, a, b)"
  shows "next_seq_mark store k \<le> a \<and> a \<le> b \<and> b < next_seq_mark (lease_step dates op store) k"
proof -
  have acq: "next_seq_mark store key = unat (seq_start r) \<and> unat (seq_start r) \<le> unat (seq_end r) \<and>
      next_seq_mark (snd (acquire_lease_and_reserve_sequences dates store key h s now d n p)) key = unat (seq_end r) + 1"
    if "fst (acquire_lease_and_reserve_sequences dates store key h s now d n p) = Inr (Acquired lease (Some r))"
    for key h s now d n p lease r
    using that by (cases "acquire_lease_and_reserve_sequences dates store key h s now d n p")
      (auto simp: next_seq_mark_row[of "_ :: LeaseStore"] word_le_nat_alt elim!: acquire_success_row)
  from assms show ?thesis
    by (auto simp: lease_reserved_def lease_step_def Let_def next_seq_mark_row[of "snd _"]
        dest!: acq reserve_returns_row split: lease_call.splits sum.splits option.splits
          LeaseAcquireAndReserveOutcome.splits SequenceReservationOutcome.splits)
qed

section \<open>The lease contracts\<close>

interpretation producer_exclusive: exclusive_lease "lease_step dates" hm_get row_owner lease_expiration_at
    "\<lambda>op. (op_holder op, op_session op)" op_now for dates
proof
  fix store :: LeaseStore and k r and op :: lease_op
  assume "hm_get store k = Some r" "op_now op < lease_expiration_at r" "(op_holder op, op_session op) \<noteq> row_owner r"
  then show "hm_get (lease_step dates op store) k = Some r"
    using lease_step_frame[of k op dates store] lease_step_evolves[of op store dates]
    by (cases "k = op_key op") (auto simp: row_evolves_def is_expired_def)
qed

interpretation producer_fenced: fenced_lease "lease_step dates" hm_get row_owner "unat \<circ> lease_epoch"
    "lease_granted dates" for dates
proof
  fix store :: LeaseStore and k r and op :: lease_op
  assume "hm_get store k = Some r"
  then show "\<exists>r'. hm_get (lease_step dates op store) k = Some r' \<and>
      ((unat \<circ> lease_epoch) r < (unat \<circ> lease_epoch) r' \<or>
       (unat \<circ> lease_epoch) r = (unat \<circ> lease_epoch) r' \<and> row_owner r = row_owner r')"
    using lease_step_frame[of k op dates store] lease_step_evolves[of op store dates]
    by (cases "k = op_key op") (auto simp: row_evolves_def)
qed (simp add: lease_granted_row)

interpretation producer_reservation: range_reservation "lease_step dates" next_seq_mark "lease_reserved dates" for dates
proof
  fix store :: LeaseStore and k and op :: lease_op
  show "next_seq_mark store k \<le> next_seq_mark (lease_step dates op store) k"
    using lease_step_frame[of k op dates store] lease_step_evolves[of op store dates]
    by (cases "k = op_key op") (auto simp: next_seq_mark_row row_evolves_def split: option.splits)
qed (rule lease_reserved_fresh)

lemma acquire_succeeds:
  assumes "state = (case hm_get store key of Some st \<Rightarrow> st | None \<Rightarrow> fresh_state h s (now + d))"
    and "n \<noteq> Some 0" and "checked_instant dates (now + d) = Some (now + d)"
    and "is_expired state now \<or> owned_by state h s"
    and "\<exists>e. acquire_epoch state (is_expired state now \<or> lease_session_id state \<noteq> s) = Some e"
    and "\<exists>r. acquire_reservation state n = Inr r"
  shows "\<exists>lease r. fst (acquire_lease_and_reserve_sequences dates store key h s now d n p) = Inr (Acquired lease r)"
proof -
  have ex: "expires_at dates now d = Inr (now + d)" using assms(3) by (simp add: expires_at_Inr)
  obtain guard where en: "entry_or_insert store key (fresh_state h s (now + d)) = (guard, state)"
    using assms(1) by (auto simp: entry_or_insert_def split: option.splits)
  have nf: "\<not> (\<not> is_expired state now \<and> \<not> owned_by state h s)" using assms(4) by blast
  from assms(5,6) show ?thesis
    unfolding acquire_lease_and_reserve_sequences_def ex en if_not_P[OF assms(2)] sum.case prod.case if_not_P[OF nf] Let_def
    by auto
qed

lemma reserve_range_room:
  assumes "0 < n" "(case current of None \<Rightarrow> 0 | Some m \<Rightarrow> unat m + 1) + unat n \<le> 2 ^ 64"
  shows "\<exists>r. reserve_range current n = Inr (r, seq_end r)"
proof -
  have n: "0 < unat n" using assms(1) by (simp add: word_gt_0_no unat_gt_0)
  show ?thesis
  proof (cases current)
    case None
    then show ?thesis using assms n
      by (auto simp: reserve_range_def checked_add_def unat_saturating_sub)
  next
    case (Some m)
    have "unat m + unat (1 :: u64) < 2 ^ LENGTH(64)" using assms Some n by simp
    then obtain start where st: "checked_add m 1 = Some start" "unat start = unat m + 1"
      by (metis checked_add_Some checked_add_def unat_1)
    have "unat start + unat (saturating_sub n 1) < 2 ^ LENGTH(64)"
      using assms(2) Some n st by (simp add: unat_saturating_sub)
    then show ?thesis using Some st by (auto simp: reserve_range_def checked_add_def)
  qed
qed

lemma acquire_reserves:
  assumes "acquire_lease_and_reserve_sequences dates store key h s now d (Some n) p =
      (Inr (Acquired lease range'), store')"
  shows "\<exists>r. range' = Some r \<and> unat (seq_start r) = next_seq_mark store key \<and>
    unat (seq_end r) = unat (seq_start r) + (unat n - 1)"
proof -
  from assms obtain state reservation where
    "range' = map_option fst reservation" "acquire_reservation state (Some n) = Inr reservation"
    by (rule acquire_success) (rule that)
  then obtain r where r: "range' = Some r" "unat (seq_end r) = unat (seq_start r) + (unat n - 1)"
    using reserve_range_Inr(3) by (cases "reserve_range (max_allocated_seq state) n")
      (auto simp: acquire_reservation_def)
  moreover have "unat (seq_start r) = next_seq_mark store key"
    using assms r(1) by (auto elim!: acquire_success_row)
  ultimately show ?thesis by blast
qed

lemma acquire_no_unreachable:
  "fst (acquire_lease_and_reserve_sequences dates store key h s now d n p) \<noteq> Inl UnrequestedReservation"
proof -
  have "expires_at dates now d \<noteq> Inl UnrequestedReservation"
    by (simp add: expires_at_def split: option.splits)
  moreover have "acquire_reservation state n \<noteq> Inl UnrequestedReservation" for state n
    by (auto simp: acquire_reservation_def reserve_range_def split: option.splits)
  ultimately show ?thesis
    by (auto simp: acquire_lease_and_reserve_sequences_def Let_def split: option.splits sum.splits prod.splits)
qed

section \<open>Properties\<close>

text \<open>
  Claim C7.  Whatever brokers call on the store, and in whatever order, the sequence ranges it
  returns for one partition never overlap and appear in increasing order.
\<close>

theorem producer_reservations_never_overlap:
  assumes "i < j" "j < length (run_outputs (lease_step dates) (lease_reserved dates) ops store)"
    and "run_outputs (lease_step dates) (lease_reserved dates) ops store ! i = (key, a, b)"
    and "run_outputs (lease_step dates) (lease_reserved dates) ops store ! j = (key, a', b')"
  shows "b < a'"
  using assms by (rule producer_reservation.reservations_increasing)

theorem producer_reservations_never_overlap_witness:
  "let key = \<lparr>lease_topic = ''t'', lease_virtual_partition_id = 3\<rparr>;
       call = (\<lambda>h now c. \<lparr>op_key = key, op_holder = h, op_session = h, op_now = now, op_call = c\<rparr>);
       ops = [call ''a'' 0 (AcquireAndReserveCall 10 (Some 5) default_progress),
              call ''b'' 5 (AcquireAndReserveCall 10 (Some 5) default_progress),
              call ''b'' 10 (AcquireAndReserveCall 10 (Some 7) default_progress)];
       outs = run_outputs (lease_step (-100, 100)) (lease_reserved (-100, 100)) ops []
   in outs = [(key, 0, 4), (key, 5, 11)] \<and> (4::nat) < 5"
proof -
  let ?key = "\<lparr>lease_topic = ''t'', lease_virtual_partition_id = 3\<rparr>"
  let ?call = "\<lambda>h now c. \<lparr>op_key = ?key, op_holder = h, op_session = h, op_now = now, op_call = c\<rparr>"
  let ?ops = "[?call ''a'' 0 (AcquireAndReserveCall 10 (Some 5) default_progress),
              ?call ''b'' 5 (AcquireAndReserveCall 10 (Some 5) default_progress),
              ?call ''b'' 10 (AcquireAndReserveCall 10 (Some 7) default_progress)]"
  have outs: "run_outputs (lease_step (-100, 100)) (lease_reserved (-100, 100)) ?ops [] =
      [(?key, 0, 4), (?key, 5, 11)]"
    by code_simp
  then show ?thesis
    using producer_reservations_never_overlap[of 0 1 "(-100, 100)" ?ops "[]" ?key 0 4 5 11]
    by (simp add: Let_def)
qed

text \<open>
  Claim C8.  A lease epoch fences its holder: along any run of the store, two authorisations returned
  for one partition under one epoch belong to one holder session, and epochs never go back.
\<close>

theorem producer_epoch_identifies_holder:
  assumes "i < j" "j < length (run_outputs (lease_step dates) (lease_granted dates) ops store)"
    and "run_outputs (lease_step dates) (lease_granted dates) ops store ! i = (key, holder, epoch)"
    and "run_outputs (lease_step dates) (lease_granted dates) ops store ! j = (key, holder', epoch')"
  shows "epoch < epoch' \<or> epoch = epoch' \<and> holder = holder'"
  using assms by (rule producer_fenced.grants_epoch_identifies_owner)

theorem producer_epoch_identifies_holder_witness:
  "let key = \<lparr>lease_topic = ''t'', lease_virtual_partition_id = 3\<rparr>;
       call = (\<lambda>h now c. \<lparr>op_key = key, op_holder = h, op_session = h, op_now = now, op_call = c\<rparr>);
       ops = [call ''a'' 0 (AcquireCall 10 default_progress),
              call ''a'' 6 (HeartbeatCall 10 default_progress),
              call ''b'' 16 (AcquireCall 10 default_progress)]
   in run_outputs (lease_step (-100, 100)) (lease_granted (-100, 100)) ops [] =
        [(key, (''a'', ''a''), 1), (key, (''a'', ''a''), 1), (key, (''b'', ''b''), 2)]
      \<and> ((1::nat) < 2 \<or> (1::nat) = 2 \<and> ''a'' = ''b'')"
proof -
  let ?key = "\<lparr>lease_topic = ''t'', lease_virtual_partition_id = 3\<rparr>"
  let ?call = "\<lambda>h now c. \<lparr>op_key = ?key, op_holder = h, op_session = h, op_now = now, op_call = c\<rparr>"
  let ?ops = "[?call ''a'' 0 (AcquireCall 10 default_progress),
               ?call ''a'' 6 (HeartbeatCall 10 default_progress),
               ?call ''b'' 16 (AcquireCall 10 default_progress)]"
  have "run_outputs (lease_step (-100, 100)) (lease_granted (-100, 100)) ?ops [] =
      [(?key, (''a'', ''a''), 1), (?key, (''a'', ''a''), 1), (?key, (''b'', ''b''), 2)]"
    by code_simp
  then show ?thesis
    using producer_epoch_identifies_holder[of 1 2 "(-100, 100)" ?ops "[]" ?key "(''a'', ''a'')" 1 "(''b'', ''b'')" 2]
    by (simp add: Let_def)
qed

text \<open>
  Claim C9.  A lease that has not expired is exclusive: whatever other broker sessions call before its
  expiry leaves the row untouched, so they can neither take it over, release it nor reserve from it.
\<close>

theorem producer_lease_exclusive:
  assumes "hm_get store key = Some state"
    and "\<forall>op \<in> set ops. op_now op < lease_expiration_at state \<and> (op_holder op, op_session op) \<noteq> row_owner state"
  shows "hm_get (fold (lease_step dates) ops store) key = Some state"
  using assms by (rule producer_exclusive.foreign_run_keeps_live_row)

theorem producer_lease_exclusive_witness:
  "let key = \<lparr>lease_topic = ''t'', lease_virtual_partition_id = 3\<rparr>; state = fresh_state ''a'' ''s'' 10;
       call = (\<lambda>s now c. \<lparr>op_key = key, op_holder = ''a'', op_session = s, op_now = now, op_call = c\<rparr>)
   in hm_get (fold (lease_step (-100, 100))
        [call ''s2'' 3 (AcquireCall 10 default_progress), call ''s2'' 9 (ReleaseCall default_progress)]
        [(key, state)]) key = Some state"
  using producer_lease_exclusive[of "[(\<lparr>lease_topic = ''t'', lease_virtual_partition_id = 3\<rparr>, fresh_state ''a'' ''s'' 10)]"
      "\<lparr>lease_topic = ''t'', lease_virtual_partition_id = 3\<rparr>" "fresh_state ''a'' ''s'' 10"
      "[\<lparr>op_key = \<lparr>lease_topic = ''t'', lease_virtual_partition_id = 3\<rparr>, op_holder = ''a'', op_session = ''s2'',
         op_now = 3, op_call = AcquireCall 10 default_progress\<rparr>,
        \<lparr>op_key = \<lparr>lease_topic = ''t'', lease_virtual_partition_id = 3\<rparr>, op_holder = ''a'', op_session = ''s2'',
         op_now = 9, op_call = ReleaseCall default_progress\<rparr>]" "(-100, 100)"]
  by (simp add: Let_def fresh_state_def row_owner_def)

text \<open>
  Claim C30.  An acquisition that reserves sequences succeeds whenever the lease is free for the caller
  (unknown, expired, or its own) and the counters have room: it returns the next numbers after the
  partition's mark, names the caller, expires after the requested duration, and the store shows that
  very lease afterwards.
\<close>

theorem acquire_and_reserve_available:
  assumes "case hm_get store key of None \<Rightarrow> True
           | Some state \<Rightarrow> (is_expired state now \<or> row_owner state = (holder, session))
               \<and> unat (lease_epoch state) < 2 ^ 64 - 1"
    and "fst dates \<le> now + d" "now + d \<le> snd dates"
    and "0 < n" "next_seq_mark store key + unat n \<le> 2 ^ 64"
  shows "\<exists>lease r store'.
      acquire_lease_and_reserve_sequences dates store key holder session now d (Some n) progress =
        (Inr (Acquired lease (Some r)), store')
      \<and> unat (seq_start r) = next_seq_mark store key
      \<and> unat (seq_end r) = next_seq_mark store key + unat n - 1
      \<and> fence_holder_id (lease_fence_of lease) = holder
      \<and> fence_lease_session_id (lease_fence_of lease) = session
      \<and> lease_expires_at lease = now + d
      \<and> get_lease store' key = Some lease"
proof -
  define state where
    "state = (case hm_get store key of Some st \<Rightarrow> st | None \<Rightarrow> fresh_state holder session (now + d))"
  have free: "is_expired state now \<or> owned_by state holder session"
    and epoch: "unat (lease_epoch state) + 1 < 2 ^ 64" and mark: "state_mark state = next_seq_mark store key"
    using assms(1) by (auto simp: state_def lease_row_defs next_seq_mark_def split: option.splits)
  have ep: "\<exists>e. acquire_epoch state (is_expired state now \<or> lease_session_id state \<noteq> session) = Some e"
    using epoch by (simp add: acquire_epoch_def checked_add_def)
  have rs: "\<exists>r. acquire_reservation state (Some n) = Inr r"
    using reserve_range_room[of n "max_allocated_seq state"] assms(4,5) mark
    by (auto simp: acquire_reservation_def state_mark_def)
  have inst: "checked_instant dates (now + d) = Some (now + d)"
    using assms(2,3) by (simp add: checked_instant_def)
  have n: "Some n \<noteq> Some 0" "0 < unat n" using assms(4) by (auto simp: unat_gt_0)
  define store' where
    "store' = snd (acquire_lease_and_reserve_sequences dates store key holder session now d (Some n) progress)"
  obtain lease range' where res:
    "acquire_lease_and_reserve_sequences dates store key holder session now d (Some n) progress =
       (Inr (Acquired lease range'), store')"
    using acquire_succeeds[OF state_def n(1) inst free ep rs, of progress] by (auto simp: store'_def prod_eq_iff)
  obtain state' where "lease = to_lease state' key" "hm_get store' = (hm_get store)(key \<mapsto> state')"
    "row_owner state' = (holder, session)" "lease_expiration_at state' = now + d"
    using res by (rule acquire_success_row) (rule that)
  then show ?thesis
    using acquire_reserves[OF res] res n(2) by (auto simp: get_lease_def to_lease_def row_owner_def)
qed

theorem acquire_and_reserve_available_witness:
  "let key = \<lparr>lease_topic = ''t'', lease_virtual_partition_id = 3\<rparr>;
       store = [(key, (fresh_state ''a'' ''s'' 10)\<lparr>max_allocated_seq := Some 41\<rparr>)]
   in \<exists>lease r store'.
      acquire_lease_and_reserve_sequences (-100, 100) store key ''b'' ''u'' 10 20 (Some 8) default_progress =
        (Inr (Acquired lease (Some r)), store')
      \<and> unat (seq_start r) = 42 \<and> unat (seq_end r) = 49 \<and> fence_holder_id (lease_fence_of lease) = ''b''
      \<and> lease_expires_at lease = 30 \<and> get_lease store' key = Some lease"
  using acquire_and_reserve_available[where
      store = "[(\<lparr>lease_topic = ''t'', lease_virtual_partition_id = 3\<rparr>,
         (fresh_state ''a'' ''s'' 10)\<lparr>max_allocated_seq := Some 41\<rparr>)]" and
      key = "\<lparr>lease_topic = ''t'', lease_virtual_partition_id = 3\<rparr>" and now = 10 and holder = "''b''" and
      session = "''u''" and dates = "(-100, 100)" and d = 20 and n = 8 and progress = default_progress]
  by (auto simp: Let_def fresh_state_def is_expired_def next_seq_mark_def)

text \<open>
  Claim C31.  A call that fails leaves the store as it was, also on the paths that fail after the row
  has been looked up or created; and an acquisition without a reservation request never reaches the
  branch the code declares unreachable.
\<close>

theorem producer_lease_errors_change_nothing:
  "(fst (acquire_lease_and_reserve_sequences dates store key h s now d n p) = Inl e \<longrightarrow>
     snd (acquire_lease_and_reserve_sequences dates store key h s now d n p) = store) \<and>
   (fst (acquire_lease dates store key h s now d p) = Inl e \<longrightarrow>
     snd (acquire_lease dates store key h s now d p) = store \<and> e \<noteq> UnrequestedReservation) \<and>
   (fst (heartbeat_lease dates store key h s now d p) = Inl e \<longrightarrow>
     snd (heartbeat_lease dates store key h s now d p) = store) \<and>
   (fst (reserve_sequences store key h s now m p) = Inl e \<longrightarrow>
     snd (reserve_sequences store key h s now m p) = store)"
proof (intro conjI impI)
  have acq: "snd (acquire_lease_and_reserve_sequences dates store key h s now d n p) = store"
    if "fst (acquire_lease_and_reserve_sequences dates store key h s now d n p) = Inl e" for n
    using acquire_other[OF prod.collapse[symmetric]] that by simp
  then show "fst (acquire_lease_and_reserve_sequences dates store key h s now d n p) = Inl e \<Longrightarrow>
     snd (acquire_lease_and_reserve_sequences dates store key h s now d n p) = store" .
  assume "fst (acquire_lease dates store key h s now d p) = Inl e"
  then show "snd (acquire_lease dates store key h s now d p) = store" "e \<noteq> UnrequestedReservation"
    using acq[of None] acquire_no_unreachable[of dates store key h s now d None p]
    by (auto simp: acquire_lease_fst acquire_lease_snd split: sum.splits LeaseAcquireAndReserveOutcome.splits)
qed (auto simp: heartbeat_lease_def reserve_sequences_def Let_def
      split: option.splits sum.splits if_splits prod.splits)

theorem producer_lease_errors_change_nothing_witness:
  "let key = \<lparr>lease_topic = ''t'', lease_virtual_partition_id = 3\<rparr>;
       store = [(key, (fresh_state ''a'' ''s'' 10)\<lparr>max_allocated_seq := Some (- 1)\<rparr>)]
   in acquire_lease_and_reserve_sequences (-100, 100) store key ''a'' ''s'' 5 20 (Some 1) default_progress =
        (Inl SequenceRangeOverflow, store)
      \<and> acquire_lease (-100, 100) store key ''a'' ''s'' 5 200 default_progress =
        (Inl LeaseExpirationOverflow, store)
      \<and> heartbeat_lease (-100, 100) store key ''a'' ''s'' 5 200 default_progress =
        (Inl LeaseExpirationOverflow, store)
      \<and> reserve_sequences store key ''a'' ''s'' 5 1 default_progress = (Inl SequenceRangeOverflow, store)"
proof -
  let ?key = "\<lparr>lease_topic = ''t'', lease_virtual_partition_id = 3\<rparr>"
  let ?store = "[(?key, (fresh_state ''a'' ''s'' 10)\<lparr>max_allocated_seq := Some (- 1)\<rparr>)]"
  have "fst (acquire_lease_and_reserve_sequences (-100, 100) ?store ?key ''a'' ''s'' 5 20 (Some 1) default_progress) =
      Inl SequenceRangeOverflow"
    "fst (acquire_lease (-100, 100) ?store ?key ''a'' ''s'' 5 200 default_progress) = Inl LeaseExpirationOverflow"
    "fst (heartbeat_lease (-100, 100) ?store ?key ''a'' ''s'' 5 200 default_progress) = Inl LeaseExpirationOverflow"
    "fst (reserve_sequences ?store ?key ''a'' ''s'' 5 1 default_progress) = Inl SequenceRangeOverflow"
    by code_simp+
  then show ?thesis
    unfolding Let_def using producer_lease_errors_change_nothing by (simp add: prod_eq_iff)
qed

end

