(* ===== verification/Memory_Stores.thy ===== *)
theory Memory_Stores
  imports Segment_Codec Producer_Lease
begin

text \<open>
  The in-memory segment metadata store (\<open>blob-stream-metadata-store/src/memory.rs\<close>) and the in-memory
  blob store (\<open>blob-stream-blob-store/src/memory.rs\<close>) with their error types.
\<close>

section \<open>Segment metadata\<close>

record ProducerPartitionFence =
  ppf_key :: ProducerPartitionLeaseKey
  ppf_fence :: ProducerLeaseFence

datatype MetadataStoreFailure = FencedWriteUnsupported | CodecFailure CodecError

datatype MetadataWriteError = ProducerLeaseFenceLost | OtherWriteError MetadataStoreFailure

datatype MetadataReadConsistency = Eventual | Strong

type_synonym MetadataWindows = "(string, EncodedSegmentMetadata list) hmap"

definition write_segment ::
    "(SegmentMetadataV1 \<Rightarrow> u8 list option) \<Rightarrow> MetadataWindows \<Rightarrow> SegmentMetadata
     \<Rightarrow> ProducerPartitionFence list option \<Rightarrow> int \<Rightarrow> (MetadataWriteError + unit) \<times> MetadataWindows" where
  "write_segment write_to_bytes windows metadata fences now_ts_ms =
   (if fences \<noteq> None then (Inl (OtherWriteError FencedWriteUnsupported), windows)
    else case encode_segment write_to_bytes metadata of
      Inl e \<Rightarrow> (Inl (OtherWriteError (CodecFailure e)), windows)
    | Inr encoded \<Rightarrow>
       (let rows = (case hm_get windows (enc_partition_key encoded) of Some rs \<Rightarrow> rs | None \<Rightarrow> [])
        in (Inr (), hm_insert (enc_partition_key encoded) (rows @ [encoded]) windows)))"

definition scan_window_from_snowflake ::
    "(u8 list \<Rightarrow> SegmentMetadataV1 option) \<Rightarrow> date_range \<Rightarrow> MetadataWindows \<Rightarrow> TopicWindowKey
     \<Rightarrow> SnowflakeId option \<Rightarrow> MetadataReadConsistency \<Rightarrow> SegmentMetadata list" where
  "scan_window_from_snowflake parse_from_bytes dates windows window min_snowflake consistency =
   (case hm_get windows (topic_window_key_format window) of
      None \<Rightarrow> []
    | Some segments \<Rightarrow>
       (let min_sort_key = map_option snowflake_format_lex min_snowflake
        in List.map_filter (\<lambda>segment.
             case decode_segment parse_from_bytes dates (enc_partition_key segment) (enc_sort_key segment)
                    (enc_payload segment) of
               Inr metadata \<Rightarrow> Some metadata
             | Inl _ \<Rightarrow> None)
           (filter (\<lambda>segment. case min_sort_key of None \<Rightarrow> True | Some key \<Rightarrow> key \<le> enc_sort_key segment)
             segments)))"

section \<open>Blobs\<close>

datatype BlobStoreError =
    NotFound string
  | InvalidRange string
  | AdmissionRejected string
  | ReadFailed string

type_synonym Blobs = "(BlobKey, u8 list) hmap"

definition blob_put :: "Blobs \<Rightarrow> BlobKey \<Rightarrow> u8 list \<Rightarrow> Blobs" where
  "blob_put blobs key bytes = hm_insert key bytes blobs"

text \<open>
  A blob has fewer than \<open>2 ^ 64\<close> bytes, and \<open>usize\<close> has 64 bits on the supported targets, so the
  conversions of the bounds always succeed.
\<close>

definition blob_get_range :: "Blobs \<Rightarrow> BlobKey \<Rightarrow> ByteRange \<Rightarrow> BlobStoreError + u8 list" where
  "blob_get_range blobs key r =
   (if byte_range_is_empty r then Inr []
    else case hm_get blobs key of
      None \<Rightarrow> Inl (NotFound (blob_key_str key))
    | Some blob \<Rightarrow>
       if length blob < unat (byte_end r) then Inl (InvalidRange (blob_key_str key))
       else Inr (take (unat (byte_end r) - unat (byte_start r)) (drop (unat (byte_start r)) blob)))"

definition blob_get_with_cache_admission ::
    "Blobs \<Rightarrow> BlobKey \<Rightarrow> (u64 \<Rightarrow> bool) \<Rightarrow> BlobStoreError + u8 list" where
  "blob_get_with_cache_admission blobs key admission =
   (case hm_get blobs key of
      None \<Rightarrow> Inl (NotFound (blob_key_str key))
    | Some blob \<Rightarrow>
       if admission (case try_from_nat (length blob) of Some n \<Rightarrow> n | None \<Rightarrow> - 1) then Inr blob
       else Inl (AdmissionRejected (blob_key_str key)))"

section \<open>Lemmas\<close>

definition write_all ::
    "(SegmentMetadataV1 \<Rightarrow> u8 list option) \<Rightarrow> SegmentMetadata list \<Rightarrow> MetadataWindows \<Rightarrow> MetadataWindows" where
  "write_all write_to_bytes ms windows =
     fold (\<lambda>m ws. snd (write_segment write_to_bytes ws m None 0)) ms windows"

lemma encode_segment_keys:
  "encode_segment wr m = Inr row \<Longrightarrow>
     enc_partition_key row = topic_window_key_format (sm_window m) \<and> enc_sort_key row = snowflake_format_lex (sm_snowflake_id m)"
  by (auto simp: encode_segment_def segment_partition_key_def segment_snowflake_key_def
      split: sum.splits option.splits)

lemma write_all_rows:
  assumes "\<forall>m \<in> set ms. encode_segment wr m = Inr (rows m)"
  shows "hm_get (write_all wr ms windows) k =
    (case filter (\<lambda>m. topic_window_key_format (sm_window m) = k) ms of
       [] \<Rightarrow> hm_get windows k
     | written \<Rightarrow> Some ((case hm_get windows k of Some rs \<Rightarrow> rs | None \<Rightarrow> []) @ map rows written))"
  using assms
proof (induction ms arbitrary: windows)
  case Nil
  then show ?case by (simp add: write_all_def)
next
  case (Cons m ms)
  let ?w = "snd (write_segment wr windows m None 0)"
  have "hm_get ?w k = (if k = topic_window_key_format (sm_window m)
      then Some ((case hm_get windows k of Some rs \<Rightarrow> rs | None \<Rightarrow> []) @ [rows m]) else hm_get windows k)"
    using Cons.prems encode_segment_keys[of wr m "rows m"] by (auto simp: write_segment_def hash_map Let_def)
  moreover have "hm_get (write_all wr (m # ms) windows) k = hm_get (write_all wr ms ?w) k"
    by (simp add: write_all_def)
  ultimately show ?case
    using Cons.IH[of ?w] Cons.prems by (auto split: list.splits)
qed

lemma map_filter_all_some:
  "(\<And>x. x \<in> set xs \<Longrightarrow> f x = Some (g x)) \<Longrightarrow> List.map_filter f xs = map g xs"
  by (induction xs) (auto simp: List.map_filter_def)

lemma map_filter_map: "List.map_filter f (map g xs) = List.map_filter (f \<circ> g) xs"
  by (induction xs) (auto simp: List.map_filter_def comp_def)

lemma filter_rows: "filter P (map rows ms) = map rows (filter (P \<circ> rows) ms)"
  by (simp add: filter_map)

section \<open>Properties\<close>

text \<open>
  Claim C24.  Scanning a window of the metadata store returns the segments written to that window whose
  ids are at least the lower bound, in the order of the writes, each as storage keeps it.  Segments of
  other windows never appear, although the windows share one key space of formatted strings.
\<close>

theorem scan_returns_written_segments:
  assumes protobuf_roundtrip: "\<And>message bytes. write_to_bytes message = Some bytes \<Longrightarrow> parse_from_bytes bytes = Some message"
    and storable: "\<forall>m \<in> set ms. storable_segment dates m"
    and written: "\<forall>m \<in> set ms. \<exists>row. encode_segment write_to_bytes m = Inr row"
    and window: "- (2 ^ 63) \<le> window_start_unix_seconds window" "window_start_unix_seconds window < 2 ^ 63"
  shows "scan_window_from_snowflake parse_from_bytes dates (write_all write_to_bytes ms []) window lower consistency =
    map stored_segment (filter (\<lambda>m. sm_window m = window
      \<and> (case lower of None \<Rightarrow> True | Some i \<Rightarrow> i \<le> sm_snowflake_id m)) ms)"
proof -
  obtain rows where rows: "\<forall>m \<in> set ms. encode_segment write_to_bytes m = Inr (rows m)"
    using written by metis
  let ?here = "filter (\<lambda>m. topic_window_key_format (sm_window m) = topic_window_key_format window) ms"
  let ?min = "\<lambda>m. case lower of None \<Rightarrow> True | Some i \<Rightarrow> i \<le> sm_snowflake_id m"
  let ?keep = "\<lambda>segment. case map_option snowflake_format_lex lower of None \<Rightarrow> True | Some key \<Rightarrow> key \<le> enc_sort_key segment"
  let ?dec = "\<lambda>segment. case decode_segment parse_from_bytes dates (enc_partition_key segment) (enc_sort_key segment)
      (enc_payload segment) of Inr metadata \<Rightarrow> Some metadata | Inl _ \<Rightarrow> None"
  have here: "?here = filter (\<lambda>m. sm_window m = window) ms"
    using storable window by (intro filter_cong) (auto simp: storable_segment_def dest!: topic_window_key_format_inj)
  have keep: "filter (?keep \<circ> rows) (filter Q ms) = filter ?min (filter Q ms)" for Q
    using rows encode_segment_keys
    by (intro filter_cong) (auto simp: snowflake_format_lex_le split: option.splits)
  have dec: "List.map_filter (?dec \<circ> rows) (filter Q ms) = map stored_segment (filter Q ms)" for Q
  proof (rule map_filter_all_some)
    fix m assume "m \<in> set (filter Q ms)"
    then have "decode_segment parse_from_bytes dates (enc_partition_key (rows m)) (enc_sort_key (rows m))
        (enc_payload (rows m)) = Inr (stored_segment m)"
      using rows storable by (intro decode_encode_row[of write_to_bytes parse_from_bytes] protobuf_roundtrip) auto
    then show "(?dec \<circ> rows) m = Some (stored_segment m)" by simp
  qed
  have "scan_window_from_snowflake parse_from_bytes dates (write_all write_to_bytes ms []) window lower consistency =
      List.map_filter ?dec (filter ?keep (map rows ?here))"
    using write_all_rows[OF rows, of "[]" "topic_window_key_format window"]
    by (cases ?here) (simp_all add: scan_window_from_snowflake_def Let_def List.map_filter_def)
  also have "\<dots> = map stored_segment (filter ?min ?here)"
    unfolding filter_rows keep map_filter_map unfolding filter_filter dec ..
  also have "filter ?min ?here = filter (\<lambda>m. sm_window m = window \<and> ?min m) ms"
    unfolding here by (simp add: filter_filter conj_commute)
  finally show ?thesis .
qed

theorem scan_returns_written_segments_witness:
  "let seg = (\<lambda>topic i. \<lparr>sm_window = \<lparr>window_topic = topic, window_start_unix_seconds = 300\<rparr>, sm_snowflake_id = i,
        sm_blob_key = BlobKey ''k'', sm_compression = compression_none,
        sm_segment_index = [(3, \<lparr>seq_range = \<lparr>seq_start = 0, seq_end = 4\<rparr>,
          byte_range = \<lparr>byte_start = 0, byte_end = 9\<rparr>, payload_bytes = 7\<rparr>)],
        sm_created_at = 1000000, sm_metadata_published_at = 2000000\<rparr>);
       v1 = projr (encode_segment_metadata_v1 (seg ''t'' 1));
       wr = (\<lambda>message. if message = v1 then Some [1] else None);
       parse = (\<lambda>bytes. if bytes = [1] then Some v1 else None);
       ms = [seg ''t'' 20, seg ''t#300'' 21, seg ''t'' 3, seg ''t'' 22]
   in scan_window_from_snowflake parse (- (10 ^ 18), 10 ^ 18) (write_all wr ms [])
        \<lparr>window_topic = ''t'', window_start_unix_seconds = 300\<rparr> (Some 4) Strong = [seg ''t'' 20, seg ''t'' 22]"
proof -
  define seg where "seg = (\<lambda>topic i. \<lparr>sm_window = \<lparr>window_topic = topic, window_start_unix_seconds = 300\<rparr>, sm_snowflake_id = i,
      sm_blob_key = BlobKey ''k'', sm_compression = compression_none,
      sm_segment_index = [(3, \<lparr>seq_range = \<lparr>seq_start = 0, seq_end = 4\<rparr>,
        byte_range = \<lparr>byte_start = 0, byte_end = 9\<rparr>, payload_bytes = 7\<rparr>)],
      sm_created_at = 1000000, sm_metadata_published_at = 2000000\<rparr>)"
  define v1 where "v1 = projr (encode_segment_metadata_v1 (seg ''t'' 1))"
  let ?enc = "\<lambda>message. if message = v1 then Some [1] else None"
  let ?parse = "\<lambda>bytes. if bytes = [1] then Some v1 else None"
  let ?ms = "[seg ''t'' 20, seg ''t#300'' 21, seg ''t'' 3, seg ''t'' 22]"
  have v1: "encode_segment_metadata_v1 (seg topic i) = Inr v1" for topic i
    by (simp add: v1_def seg_def encode_segment_metadata_v1_def unix_millis_from_offset_datetime_def i64_try_from_def)
  have ok: "storable_segment (- (10 ^ 18), 10 ^ 18) (seg topic i)" for topic i
    by (simp add: seg_def storable_segment_def storable_batch_def seq_range_is_empty_def byte_range_is_empty_def
        storable_instant_def stored_instant_def)
  have st: "stored_segment (seg topic i) = seg topic i" for topic i
    by (simp add: seg_def stored_segment_def stored_compression_def compression_none_def stored_instant_def)
  have "scan_window_from_snowflake ?parse (- (10 ^ 18), 10 ^ 18) (write_all ?enc ?ms [])
      \<lparr>window_topic = ''t'', window_start_unix_seconds = 300\<rparr> (Some 4) Strong =
    map stored_segment (filter (\<lambda>m. sm_window m = \<lparr>window_topic = ''t'', window_start_unix_seconds = 300\<rparr>
      \<and> (case Some 4 of None \<Rightarrow> True | Some i \<Rightarrow> i \<le> sm_snowflake_id m)) ?ms)"
    by (rule scan_returns_written_segments) (use ok in \<open>auto simp: encode_segment_def v1 split: if_splits\<close>)
  also have "\<dots> = [seg ''t'' 20, seg ''t'' 22]"
    using st by (simp add: seg_def)
  finally show ?thesis unfolding Let_def v1_def seg_def .
qed

text \<open>
  Reading a range of a stored blob gives exactly the bytes of that range; later writes under
  other keys do not disturb it, and a range that ends past the blob is an error rather than a short read.
\<close>

theorem blob_range_read_back:
  assumes "byte_start r < byte_end r" and "key \<notin> fst ` set later"
  shows "blob_get_range (fold (\<lambda>(k, b) blobs. blob_put blobs k b) later (blob_put blobs key bytes)) key r =
    (if unat (byte_end r) \<le> length bytes
     then Inr (map (\<lambda>i. bytes ! i) [unat (byte_start r) ..< unat (byte_end r)])
     else Inl (InvalidRange (blob_key_str key)))"
proof -
  have "hm_get (fold (\<lambda>(k, b) blobs. blob_put blobs k b) later (blob_put blobs key bytes)) key = Some bytes"
    using assms(2) by (induction later rule: rev_induct) (auto simp: blob_put_def hash_map)
  moreover have "take (e - s) (drop s bytes) = map (\<lambda>i. bytes ! i) [s ..< e]" if "e \<le> length bytes" for s e
    using that by (intro nth_equalityI) auto
  ultimately show ?thesis
    using assms(1) by (auto simp: blob_get_range_def byte_range_is_empty_def)
qed

theorem blob_range_read_back_witness:
  "blob_get_range (fold (\<lambda>(k, b) blobs. blob_put blobs k b) [(BlobKey ''y'', [9])]
      (blob_put [] (BlobKey ''x'') [5, 6, 7])) (BlobKey ''x'') \<lparr>byte_start = 1, byte_end = 3\<rparr> = Inr [6, 7]"
  using blob_range_read_back[of "\<lparr>byte_start = 1, byte_end = 3\<rparr>" "BlobKey ''x''" "[(BlobKey ''y'', [9])]" "[]" "[5, 6, 7]"]
  by (simp add: upt_rec)

end
