(* ===== verification/Write_Config.thy ===== *)
theory Write_Config
  imports Types
begin

text \<open>
  The write configuration of a broker (\<open>blob-stream-broker/src/write/config.rs\<close>): the defaults, the
  validation of the broker and topic messages, and the flush limits that are in effect once the
  runtime feature flags are taken into account.  A protobuf \<open>Duration\<close> field is represented by the
  value of \<open>to_time_duration\<close> on it.  The feature-flag watch of the runtime library is a parameter, a
  pair of lookup functions that receive the name of a flag and its default.
\<close>

section \<open>Configuration messages\<close>

datatype SegmentCompression = SEGMENT_COMPRESSION_NONE | SEGMENT_COMPRESSION_ZSTD

text \<open>\<open>EnumOrUnknown::enum_value_or_default\<close>: the default of an enum is its value zero.\<close>

definition enum_value_or_default :: "int \<Rightarrow> SegmentCompression" where
  "enum_value_or_default number =
     (if number = 1 then SEGMENT_COMPRESSION_ZSTD else SEGMENT_COMPRESSION_NONE)"

datatype BrokerNodeIdentity = StaticId string | Hostname

record BrokerConfig =
  broker_flush_max_bytes :: u32
  broker_flush_max_delay :: "duration option"
  broker_node_identity :: "BrokerNodeIdentity option"
  broker_segment_compression :: "int option"
  broker_writer_id :: "u32 option"
  broker_sequence_reservation_size :: "u32 option"
  broker_fenced_metadata_writes :: bool
  broker_lease_duration :: "duration option"
  broker_heartbeat_interval :: "duration option"
  broker_max_segment_bytes :: "u64 option"
  broker_adaptive_flush_max_delay_enabled :: "bool option"
  broker_adaptive_flush_max_delay_floor :: "duration option"

record TopicConfig =
  tc_name :: string
  tc_partition_count :: u32
  tc_num_writers :: u32
  tc_retention :: "duration option"
  tc_max_metadata_publication_lag :: "duration option"
  tc_metadata_window_size :: "duration option"

text \<open>The failed checks of the builders, in the order of the code.\<close>

datatype ConfigError =
    WriterIdMissing
  | FlushDelayTooShort
  | FloorTooShort
  | FloorExceedsDelay
  | HeartbeatNotShorter
  | ConfigReservationSizeZero
  | TopicPartitionCount
  | TopicRetentionMissing
  | TopicWindow TopicMetadataWindowError
  | DuplicateTopic string
  | WriterIdOutOfRange string
  | HostnameUnavailable

section \<open>Write configuration\<close>

definition DEFAULT_FLUSH_MAX_BYTES :: u64 where
  "DEFAULT_FLUSH_MAX_BYTES = 64 * 1024 * 1024"

definition DEFAULT_MAX_SEGMENT_BYTES :: u64 where
  "DEFAULT_MAX_SEGMENT_BYTES = 64 * 1024 * 1024"

definition DEFAULT_FLUSH_MAX_DELAY :: duration where
  "DEFAULT_FLUSH_MAX_DELAY = seconds 1"

definition DEFAULT_LEASE_DURATION :: duration where
  "DEFAULT_LEASE_DURATION = seconds 30"

definition DEFAULT_HEARTBEAT_INTERVAL :: duration where
  "DEFAULT_HEARTBEAT_INTERVAL = seconds 10"

definition DEFAULT_RESERVATION_SIZE :: u64 where
  "DEFAULT_RESERVATION_SIZE = 10000"

definition PRODUCE_REQUEST_TIMEOUT_FLUSH_DELAY_MULTIPLIER :: int where
  "PRODUCE_REQUEST_TIMEOUT_FLUSH_DELAY_MULTIPLIER = 10"

text \<open>\<open>DEFAULT_ZSTD_LEVEL\<close> of \<open>write/mod.rs\<close>.\<close>

definition DEFAULT_ZSTD_LEVEL :: int where
  "DEFAULT_ZSTD_LEVEL = 3"

record WriteConfig =
  wc_flush_max_bytes :: u64
  wc_max_segment_bytes :: u64
  wc_flush_max_delay :: duration
  wc_adaptive_flush_max_delay_enabled :: bool
  wc_adaptive_flush_max_delay_floor :: "duration option"
  wc_lease_duration :: duration
  wc_heartbeat_interval :: duration
  wc_reservation_size :: u64
  wc_writer_id :: u32
  wc_compression :: Compression
  wc_blob_prefix :: "string option"
  wc_fenced_metadata_writes :: bool

definition with_defaults :: WriteConfig where
  "with_defaults =
     \<lparr>wc_flush_max_bytes = DEFAULT_FLUSH_MAX_BYTES,
      wc_max_segment_bytes = DEFAULT_MAX_SEGMENT_BYTES,
      wc_flush_max_delay = DEFAULT_FLUSH_MAX_DELAY,
      wc_adaptive_flush_max_delay_enabled = True,
      wc_adaptive_flush_max_delay_floor = None,
      wc_lease_duration = DEFAULT_LEASE_DURATION,
      wc_heartbeat_interval = DEFAULT_HEARTBEAT_INTERVAL,
      wc_reservation_size = DEFAULT_RESERVATION_SIZE,
      wc_writer_id = 0,
      wc_compression = compression_zstd DEFAULT_ZSTD_LEVEL,
      wc_blob_prefix = None,
      wc_fenced_metadata_writes = False\<rparr>"

text \<open>
  \<open>from_broker_config\<close> fills the configuration field by field; the three groups of fields with checks
  are functions of their own.
\<close>

definition configured_flush_delay :: "BrokerConfig \<Rightarrow> ConfigError + duration" where
  "configured_flush_delay broker =
     (case broker_flush_max_delay broker of
        None \<Rightarrow> Inr DEFAULT_FLUSH_MAX_DELAY
      | Some d \<Rightarrow> if milliseconds 1 \<le> d then Inr d else Inl FlushDelayTooShort)"

definition configured_adaptive_floor :: "BrokerConfig \<Rightarrow> duration \<Rightarrow> ConfigError + duration option" where
  "configured_adaptive_floor broker flush_max_delay =
     (case broker_adaptive_flush_max_delay_floor broker of
        None \<Rightarrow> Inr None
      | Some floor \<Rightarrow>
          if \<not> 0 < whole_milliseconds floor then Inl FloorTooShort
          else if \<not> floor \<le> flush_max_delay then Inl FloorExceedsDelay
          else Inr (Some floor))"

definition configured_reservation_size :: "BrokerConfig \<Rightarrow> ConfigError + u64" where
  "configured_reservation_size broker =
     (case broker_sequence_reservation_size broker of
        None \<Rightarrow> Inr DEFAULT_RESERVATION_SIZE
      | Some n \<Rightarrow> if n = 0 then Inl ConfigReservationSizeZero else Inr (ucast n))"

definition configured_compression :: "BrokerConfig \<Rightarrow> Compression" where
  "configured_compression broker =
     (let compression = (case broker_segment_compression broker of
        None \<Rightarrow> SEGMENT_COMPRESSION_ZSTD | Some n \<Rightarrow> enum_value_or_default n)
      in if compression = SEGMENT_COMPRESSION_NONE then compression_none
         else wc_compression with_defaults)"

definition from_broker_config :: "BrokerConfig \<Rightarrow> ConfigError + WriteConfig" where
  "from_broker_config broker =
     (case broker_writer_id broker of
        None \<Rightarrow> Inl WriterIdMissing
      | Some writer_id \<Rightarrow>
     (case configured_flush_delay broker of
        Inl e \<Rightarrow> Inl e
      | Inr flush_max_delay \<Rightarrow>
     (case configured_adaptive_floor broker flush_max_delay of
        Inl e \<Rightarrow> Inl e
      | Inr floor \<Rightarrow>
     (let lease_duration =
            (case broker_lease_duration broker of None \<Rightarrow> DEFAULT_LEASE_DURATION | Some d \<Rightarrow> d);
          heartbeat_interval =
            (case broker_heartbeat_interval broker of None \<Rightarrow> DEFAULT_HEARTBEAT_INTERVAL | Some d \<Rightarrow> d)
      in if \<not> heartbeat_interval < lease_duration then Inl HeartbeatNotShorter
         else
     (case configured_reservation_size broker of
        Inl e \<Rightarrow> Inl e
      | Inr reservation_size \<Rightarrow>
          Inr (with_defaults
            \<lparr>wc_writer_id := writer_id,
             wc_flush_max_bytes :=
               (if 0 < broker_flush_max_bytes broker then ucast (broker_flush_max_bytes broker)
                else wc_flush_max_bytes with_defaults),
             wc_max_segment_bytes :=
               (case broker_max_segment_bytes broker of
                  None \<Rightarrow> wc_max_segment_bytes with_defaults | Some n \<Rightarrow> n),
             wc_flush_max_delay := flush_max_delay,
             wc_adaptive_flush_max_delay_enabled :=
               (case broker_adaptive_flush_max_delay_enabled broker of None \<Rightarrow> True | Some b \<Rightarrow> b),
             wc_adaptive_flush_max_delay_floor := floor,
             wc_lease_duration := lease_duration,
             wc_heartbeat_interval := heartbeat_interval,
             wc_reservation_size := reservation_size,
             wc_fenced_metadata_writes := broker_fenced_metadata_writes broker,
             wc_compression := configured_compression broker\<rparr>))))))"

text \<open>
  \<open>Duration::MAX\<close> and \<open>StdDuration::MAX\<close> in nanoseconds; a checked multiplication that leaves the
  range of \<open>Duration\<close> is \<open>None\<close>, and a negative duration does not convert to a \<open>StdDuration\<close>.
\<close>

definition DURATION_MAX :: duration where
  "DURATION_MAX = (2 ^ 63 - 1) * 1000000000 + 999999999"

definition STD_DURATION_MAX :: duration where
  "STD_DURATION_MAX = (2 ^ 64 - 1) * 1000000000 + 999999999"

definition duration_checked_mul :: "duration \<Rightarrow> int \<Rightarrow> duration option" where
  "duration_checked_mul d n =
     (if - (2 ^ 63 * 1000000000 + 999999999) \<le> d * n \<and> d * n \<le> DURATION_MAX then Some (d * n)
      else None)"

definition produce_request_timeout :: "WriteConfig \<Rightarrow> duration" where
  "produce_request_timeout config =
     (let flush_delay = max (wc_flush_max_delay config) (milliseconds 1);
          timeout = (case duration_checked_mul flush_delay
                            PRODUCE_REQUEST_TIMEOUT_FLUSH_DELAY_MULTIPLIER of
                       None \<Rightarrow> DURATION_MAX | Some t \<Rightarrow> t)
      in if 0 \<le> timeout then timeout else STD_DURATION_MAX)"

section \<open>Runtime overrides\<close>

record FeatureFlagsWatch =
  get_bool :: "string \<Rightarrow> bool \<Rightarrow> bool"
  get_integer :: "string \<Rightarrow> u64 \<Rightarrow> u64"

definition FENCED_METADATA_WRITES_FEATURE_FLAG :: string where
  "FENCED_METADATA_WRITES_FEATURE_FLAG = ''blob_stream_broker_fenced_metadata_writes''"

definition FLUSH_MAX_BYTES_FEATURE_FLAG :: string where
  "FLUSH_MAX_BYTES_FEATURE_FLAG = ''blob_stream_broker_flush_max_bytes''"

definition FLUSH_MAX_DELAY_FEATURE_FLAG :: string where
  "FLUSH_MAX_DELAY_FEATURE_FLAG = ''blob_stream_broker_flush_max_delay_ms''"

definition MAX_SEGMENT_BYTES_FEATURE_FLAG :: string where
  "MAX_SEGMENT_BYTES_FEATURE_FLAG = ''blob_stream_broker_max_segment_bytes''"

definition ADAPTIVE_FLUSH_MAX_DELAY_ENABLED_FEATURE_FLAG :: string where
  "ADAPTIVE_FLUSH_MAX_DELAY_ENABLED_FEATURE_FLAG =
     ''blob_stream_broker_adaptive_flush_max_delay_enabled''"

definition ADAPTIVE_FLUSH_MAX_DELAY_FLOOR_FEATURE_FLAG :: string where
  "ADAPTIVE_FLUSH_MAX_DELAY_FLOOR_FEATURE_FLAG =
     ''blob_stream_broker_adaptive_flush_max_delay_floor_ms''"

definition flag_bool :: "FeatureFlagsWatch option \<Rightarrow> string \<Rightarrow> bool \<Rightarrow> bool" where
  "flag_bool feature_flags name fallback =
     (case feature_flags of None \<Rightarrow> fallback | Some flags \<Rightarrow> get_bool flags name fallback)"

definition flag_integer :: "FeatureFlagsWatch option \<Rightarrow> string \<Rightarrow> u64 \<Rightarrow> u64" where
  "flag_integer feature_flags name fallback =
     (case feature_flags of None \<Rightarrow> fallback | Some flags \<Rightarrow> get_integer flags name fallback)"

record AdaptiveFlushDelayConfig =
  adaptive_enabled :: bool
  adaptive_floor :: duration
  adaptive_max_delay :: duration

record EffectiveFlushConfig =
  max_bytes :: u64
  max_delay :: duration
  adaptive_flush_delay :: AdaptiveFlushDelayConfig

definition fenced_metadata_writes :: "WriteConfig \<Rightarrow> FeatureFlagsWatch option \<Rightarrow> bool" where
  "fenced_metadata_writes config feature_flags =
     flag_bool feature_flags FENCED_METADATA_WRITES_FEATURE_FLAG (wc_fenced_metadata_writes config)"

definition effective_max_segment_bytes :: "u64 \<Rightarrow> FeatureFlagsWatch option \<Rightarrow> u64" where
  "effective_max_segment_bytes configured_max_segment_bytes feature_flags =
     (let n = flag_integer feature_flags MAX_SEGMENT_BYTES_FEATURE_FLAG configured_max_segment_bytes
      in if 0 < n then n else configured_max_segment_bytes)"

definition max_segment_bytes :: "WriteConfig \<Rightarrow> FeatureFlagsWatch option \<Rightarrow> u64" where
  "max_segment_bytes config feature_flags =
     effective_max_segment_bytes (wc_max_segment_bytes config) feature_flags"

text \<open>
  The chain \<open>i64::try_from(ms).ok().filter(positive).map(milliseconds).filter(at most limit)\<close> that
  both overrides go through, with the value used when it yields nothing.
\<close>

definition accepted_delay :: "int \<Rightarrow> duration \<Rightarrow> duration \<Rightarrow> duration" where
  "accepted_delay ms limit fallback =
     (case i64_try_from ms of
        None \<Rightarrow> fallback
      | Some n \<Rightarrow> if 0 < n \<and> milliseconds n \<le> limit then milliseconds n else fallback)"

text \<open>\<open>Ord::clamp\<close> panics when the bounds are in the wrong order: \<open>None\<close>.\<close>

definition clamp :: "'a::linorder \<Rightarrow> 'a \<Rightarrow> 'a \<Rightarrow> 'a option" where
  "clamp x low high = (if low \<le> high then Some (max low (min x high)) else None)"

definition effective_max_bytes :: "WriteConfig \<Rightarrow> FeatureFlagsWatch option \<Rightarrow> u64" where
  "effective_max_bytes config feature_flags =
     (let n = flag_integer feature_flags FLUSH_MAX_BYTES_FEATURE_FLAG (wc_flush_max_bytes config)
      in if 0 < n then n else wc_flush_max_bytes config)"

definition effective_max_delay :: "WriteConfig \<Rightarrow> FeatureFlagsWatch option \<Rightarrow> duration" where
  "effective_max_delay config feature_flags =
     (let configured_delay_milliseconds =
            (let ms = whole_milliseconds (wc_flush_max_delay config)
             in if 0 \<le> ms \<and> ms < 2 ^ 64 then word_of_int ms else 0);
          delay_milliseconds =
            flag_integer feature_flags FLUSH_MAX_DELAY_FEATURE_FLAG configured_delay_milliseconds
      in accepted_delay (uint delay_milliseconds) (wc_flush_max_delay config)
           (wc_flush_max_delay config))"

definition effective_flush_config ::
    "WriteConfig \<Rightarrow> FeatureFlagsWatch option \<Rightarrow> EffectiveFlushConfig option" where
  "effective_flush_config config feature_flags =
     (let max_delay = effective_max_delay config feature_flags;
          default_floor_milliseconds = max (trunc_div (whole_milliseconds max_delay) 2) 1;
          default_floor = milliseconds
            (case i64_try_from default_floor_milliseconds of None \<Rightarrow> 2 ^ 63 - 1 | Some n \<Rightarrow> n)
      in case clamp (case wc_adaptive_flush_max_delay_floor config of
                       None \<Rightarrow> default_floor | Some floor \<Rightarrow> floor)
                (milliseconds 1) max_delay of
           None \<Rightarrow> None
         | Some configured_floor \<Rightarrow>
             let configured_floor_milliseconds = whole_milliseconds configured_floor;
                 floor_milliseconds =
                   (case feature_flags of
                      None \<Rightarrow> configured_floor_milliseconds
                    | Some flags \<Rightarrow> uint (get_integer flags ADAPTIVE_FLUSH_MAX_DELAY_FLOOR_FEATURE_FLAG
                        (if 0 \<le> configured_floor_milliseconds \<and> configured_floor_milliseconds < 2 ^ 64
                         then word_of_int configured_floor_milliseconds else 1)))
             in Some \<lparr>max_bytes = effective_max_bytes config feature_flags,
                      max_delay = max_delay,
                      adaptive_flush_delay =
                        \<lparr>adaptive_enabled = flag_bool feature_flags
                           ADAPTIVE_FLUSH_MAX_DELAY_ENABLED_FEATURE_FLAG
                           (wc_adaptive_flush_max_delay_enabled config),
                         adaptive_floor = accepted_delay floor_milliseconds max_delay configured_floor,
                         adaptive_max_delay = max_delay\<rparr>\<rparr>)"

section \<open>Topics\<close>

record TopicInfo =
  topic_name :: string
  partition_count :: u32
  num_writers :: u32
  retention :: duration
  max_metadata_publication_lag :: duration
  metadata_window_size :: duration

definition topic_from_proto :: "TopicConfig \<Rightarrow> ConfigError + TopicInfo" where
  "topic_from_proto proto =
     (case virtual_partition_count (tc_partition_count proto) (tc_num_writers proto) of
        Inl _ \<Rightarrow> Inl TopicPartitionCount
      | Inr _ \<Rightarrow>
     (case tc_retention proto of
        None \<Rightarrow> Inl TopicRetentionMissing
      | Some retained \<Rightarrow>
     (case topic_metadata_window_size (tc_metadata_window_size proto) of
        Inl e \<Rightarrow> Inl (TopicWindow e)
      | Inr wsize \<Rightarrow>
          Inr \<lparr>topic_name = tc_name proto,
               partition_count = tc_partition_count proto,
               num_writers = tc_num_writers proto,
               retention = retained,
               max_metadata_publication_lag =
                 (case tc_max_metadata_publication_lag proto of
                    None \<Rightarrow> DEFAULT_MAX_METADATA_PUBLICATION_LAG | Some d \<Rightarrow> d),
               metadata_window_size = wsize\<rparr>)))"

definition is_valid_partition :: "TopicInfo \<Rightarrow> VirtualPartitionId \<Rightarrow> bool" where
  "is_valid_partition topic virtual_partition_id \<longleftrightarrow>
     (ucast virtual_partition_id :: u64)
       < saturating_mul (ucast (partition_count topic)) (ucast (num_writers topic))"

fun build_topics_from ::
    "(string, TopicInfo) hmap \<Rightarrow> TopicConfig list \<Rightarrow> ConfigError + (string, TopicInfo) hmap" where
  "build_topics_from topics [] = Inr topics"
| "build_topics_from topics (config # configs) =
     (case topic_from_proto config of
        Inl e \<Rightarrow> Inl e
      | Inr topic_info \<Rightarrow>
          if hm_get topics (topic_name topic_info) \<noteq> None then Inl (DuplicateTopic (topic_name topic_info))
          else build_topics_from (hm_insert (topic_name topic_info) topic_info topics) configs)"

definition build_topics :: "TopicConfig list \<Rightarrow> ConfigError + (string, TopicInfo) hmap" where
  "build_topics = build_topics_from []"

fun validate_writer_id :: "u32 \<Rightarrow> (string, TopicInfo) hmap \<Rightarrow> ConfigError + unit" where
  "validate_writer_id writer_id [] = Inr ()"
| "validate_writer_id writer_id ((_, topic) # topics) =
     (if \<not> writer_id < num_writers topic then Inl (WriterIdOutOfRange (topic_name topic))
      else validate_writer_id writer_id topics)"

text \<open>The runtime hostname is read from the system: a parameter.\<close>

definition resolve_node_id :: "(ConfigError + string) \<Rightarrow> BrokerConfig \<Rightarrow> ConfigError + string" where
  "resolve_node_id hostname_identity broker =
     (case broker_node_identity broker of
        Some (StaticId identity) \<Rightarrow> Inr identity
      | Some Hostname \<Rightarrow> hostname_identity
      | None \<Rightarrow> hostname_identity)"

section \<open>Lemmas\<close>

lemma accepted_delay_bounds:
  assumes "milliseconds 1 \<le> fallback" "fallback \<le> limit"
  shows "milliseconds 1 \<le> accepted_delay ms limit fallback" "accepted_delay ms limit fallback \<le> limit"
  using assms by (auto simp: accepted_delay_def milliseconds_def split: option.splits)

lemma clamp_Some:
  "clamp x low high = Some y \<longleftrightarrow> low \<le> high \<and> y = max low (min x high)"
  by (auto simp: clamp_def)

lemma clamp_bounds:
  fixes x :: "'a::linorder"
  shows "clamp x low high = Some y \<Longrightarrow> low \<le> y \<and> y \<le> high"
  by (auto simp: clamp_Some)

lemma from_broker_config_Inr:
  assumes "from_broker_config broker = Inr config"
  shows "milliseconds 1 \<le> wc_flush_max_delay config" "0 < wc_flush_max_bytes config"
    "wc_heartbeat_interval config < wc_lease_duration config" "0 < wc_reservation_size config"
proof -
  have delay: "configured_flush_delay broker = Inr d \<Longrightarrow> milliseconds 1 \<le> d" for d
    by (auto simp: configured_flush_delay_def DEFAULT_FLUSH_MAX_DELAY_def milliseconds_def seconds_def
        split: option.splits if_splits)
  have pos: "0 < n \<Longrightarrow> 0 < (ucast n :: u64)" for n :: u32
    by (simp add: word_less_nat_alt unat_ucast_up)
  have reserve: "configured_reservation_size broker = Inr n \<Longrightarrow> 0 < n" for n
    using pos by (auto simp: configured_reservation_size_def DEFAULT_RESERVATION_SIZE_def word_gt_0
        split: option.splits if_splits)
  obtain writer d floor n where
    parts: "broker_writer_id broker = Some writer" "configured_flush_delay broker = Inr d"
      "configured_adaptive_floor broker d = Inr floor" "configured_reservation_size broker = Inr n"
    using assms by (auto simp: from_broker_config_def Let_def split: option.splits sum.splits if_splits)
  note body = assms[unfolded from_broker_config_def Let_def parts option.case sum.case]
  show "milliseconds 1 \<le> wc_flush_max_delay config" "0 < wc_reservation_size config"
    using body delay[OF parts(2)] reserve[OF parts(4)] by (auto split: if_splits)
  show "wc_heartbeat_interval config < wc_lease_duration config"
    using body by (auto split: if_splits)
  show "0 < wc_flush_max_bytes config"
    using body pos by (auto simp: with_defaults_def DEFAULT_FLUSH_MAX_BYTES_def split: if_splits)
qed

lemma effective_max_delay_bounds:
  assumes "milliseconds 1 \<le> wc_flush_max_delay config"
  shows "milliseconds 1 \<le> effective_max_delay config flags
    \<and> effective_max_delay config flags \<le> wc_flush_max_delay config"
  unfolding effective_max_delay_def Let_def
  using accepted_delay_bounds[OF assms order_refl] by blast

lemma topic_from_proto_Inr:
  assumes "topic_from_proto proto = Inr t"
  shows "topic_name t = tc_name proto" "partition_count t = tc_partition_count proto"
    "num_writers t = tc_num_writers proto" "0 < metadata_window_size t"
    "unat (partition_count t) * unat (num_writers t) < 2 ^ 32"
  using assms
  by (auto simp: topic_from_proto_def topic_metadata_window_size_def virtual_partition_count_def
      checked_mul_def Let_def split: option.splits sum.splits if_splits)

text \<open>A map of topics that the builder may hold at some point.\<close>

definition topics_ok :: "(string, TopicInfo) hmap \<Rightarrow> bool" where
  "topics_ok topics \<longleftrightarrow> hm_ok topics \<and>
     (\<forall>(name, t) \<in> set topics. topic_name t = name \<and> 0 < metadata_window_size t
        \<and> unat (partition_count t) * unat (num_writers t) < 2 ^ 32)"

lemma build_topics_from_ok:
  assumes "build_topics_from topics configs = Inr result" "topics_ok topics"
  shows "topics_ok result \<and> fst ` set result = fst ` set topics \<union> tc_name ` set configs
    \<and> length result = length topics + length configs"
  using assms
proof (induction topics configs rule: build_topics_from.induct)
  case (2 topics config configs)
  then obtain t where t: "topic_from_proto config = Inr t" "hm_get topics (topic_name t) = None"
    "build_topics_from (hm_insert (topic_name t) t topics) configs = Inr result"
    by (auto split: sum.splits if_splits)
  have ins: "hm_insert (topic_name t) t topics = topics @ [(topic_name t, t)]"
    using t(2) by (intro hm_insert_fresh) (simp add: map_of_eq_None_iff)
  have "topics_ok (hm_insert (topic_name t) t topics)"
    unfolding ins using 2(3) topic_from_proto_Inr[OF t(1)] t(2)
    by (auto simp: topics_ok_def map_of_eq_None_iff)
  then have "topics_ok result \<and> fst ` set result = fst ` set (topics @ [(topic_name t, t)]) \<union> tc_name ` set configs
      \<and> length result = length (topics @ [(topic_name t, t)]) + length configs"
    using 2(1)[OF t(1) _ t(3)] t(2) unfolding ins by blast
  then show ?case by (auto simp: topic_from_proto_Inr(1)[OF t(1)])
qed simp

lemma validate_writer_id_Inr:
  "validate_writer_id writer topics = Inr () \<longleftrightarrow> (\<forall>(name, t) \<in> set topics. writer < num_writers t)"
  by (induction topics) (auto split: prod.splits)

lemma is_valid_partition_iff:
  assumes "unat (partition_count t) * unat (num_writers t) < 2 ^ 32"
  shows "is_valid_partition t vp \<longleftrightarrow> unat vp < unat (partition_count t) * unat (num_writers t)"
  using assms by (simp add: is_valid_partition_def word_less_nat_alt unat_saturating_mul unat_ucast_up)

section \<open>Properties\<close>

text \<open>
  Claim C36.  For every broker configuration that is accepted and whatever the runtime flags return,
  the flush limits in effect exist (\<open>clamp\<close> does not panic) and are ordered: one millisecond, the
  adaptive floor, the maximum delay, the configured delay.  The byte limit is positive.
\<close>

theorem effective_flush_config_bounds:
  assumes "from_broker_config broker = Inr config"
  shows "\<exists>eff. effective_flush_config config flags = Some eff
    \<and> 0 < max_bytes eff
    \<and> milliseconds 1 \<le> adaptive_floor (adaptive_flush_delay eff)
    \<and> adaptive_floor (adaptive_flush_delay eff) \<le> max_delay eff
    \<and> adaptive_max_delay (adaptive_flush_delay eff) = max_delay eff
    \<and> max_delay eff \<le> wc_flush_max_delay config"
proof -
  let ?d = "effective_max_delay config flags"
  have d: "milliseconds 1 \<le> ?d" "?d \<le> wc_flush_max_delay config"
    using effective_max_delay_bounds[OF from_broker_config_Inr(1)[OF assms]] by auto
  obtain floor where floor: "clamp x (milliseconds 1) ?d = Some (floor x)" for x
    using d(1) by (auto simp: clamp_def)
  have bounds: "milliseconds 1 \<le> floor x" "floor x \<le> ?d" for x
    using clamp_bounds[OF floor[of x]] by auto
  have bytes: "0 < effective_max_bytes config flags"
    using from_broker_config_Inr(2)[OF assms] by (simp add: effective_max_bytes_def Let_def)
  show ?thesis
    unfolding effective_flush_config_def Let_def floor option.case
    using d(2) bytes accepted_delay_bounds[OF bounds] by simp
qed

theorem effective_flush_config_bounds_witness:
  "\<exists>config eff. from_broker_config
       \<lparr>broker_flush_max_bytes = 0, broker_flush_max_delay = Some (milliseconds 40),
        broker_node_identity = None, broker_segment_compression = None, broker_writer_id = Some 1,
        broker_sequence_reservation_size = None, broker_fenced_metadata_writes = True,
        broker_lease_duration = None, broker_heartbeat_interval = None,
        broker_max_segment_bytes = None, broker_adaptive_flush_max_delay_enabled = None,
        broker_adaptive_flush_max_delay_floor = Some (milliseconds 30)\<rparr> = Inr config
     \<and> effective_flush_config config
         (Some \<lparr>get_bool = \<lambda>_ b. b, get_integer = \<lambda>_ _. 7\<rparr>) = Some eff
     \<and> max_delay eff = milliseconds 7 \<and> adaptive_floor (adaptive_flush_delay eff) = milliseconds 7
     \<and> max_delay eff \<le> wc_flush_max_delay config"
proof -
  let ?broker = "\<lparr>broker_flush_max_bytes = 0, broker_flush_max_delay = Some (milliseconds 40),
        broker_node_identity = None, broker_segment_compression = None, broker_writer_id = Some 1,
        broker_sequence_reservation_size = None, broker_fenced_metadata_writes = True,
        broker_lease_duration = None, broker_heartbeat_interval = None,
        broker_max_segment_bytes = None, broker_adaptive_flush_max_delay_enabled = None,
        broker_adaptive_flush_max_delay_floor = Some (milliseconds 30)\<rparr>"
  let ?flags = "Some \<lparr>get_bool = \<lambda>_ b. b, get_integer = \<lambda>_ _. 7\<rparr>"
  obtain config where config: "from_broker_config ?broker = Inr config"
    "wc_flush_max_delay config = milliseconds 40" "wc_adaptive_flush_max_delay_floor config = Some (milliseconds 30)"
    by (auto simp: from_broker_config_def configured_flush_delay_def configured_adaptive_floor_def
        configured_reservation_size_def DEFAULT_LEASE_DURATION_def DEFAULT_HEARTBEAT_INTERVAL_def
        milliseconds_def seconds_def whole_milliseconds_def trunc_div_def)
  obtain eff where eff: "effective_flush_config config ?flags = Some eff" "max_delay eff \<le> wc_flush_max_delay config"
    using effective_flush_config_bounds[OF config(1), of ?flags] by blast
  have "max_delay eff = milliseconds 7 \<and> adaptive_floor (adaptive_flush_delay eff) = milliseconds 7"
    using eff(1)
    by (auto simp: effective_flush_config_def effective_max_delay_def config accepted_delay_def clamp_def
        flag_integer_def i64_try_from_def milliseconds_def whole_milliseconds_def trunc_div_def)
  with config(1) eff show ?thesis by blast
qed

text \<open>
  Claim C37.  A broker starts only with topics it can serve: the accepted topic map has one entry per
  configured topic under the topic's own name, and every record key that this broker's writer routes
  is sent to a partition id that \<open>is_valid_partition\<close> accepts.
\<close>

theorem accepted_topics_route_valid_partitions:
  assumes "build_topics configs = Inr topics" and "validate_writer_id writer topics = Inr ()"
  shows "hm_ok topics \<and> fst ` set topics = tc_name ` set configs \<and> length topics = length configs
    \<and> (\<forall>(name, t) \<in> set topics. topic_name t = name \<and>
         (\<forall>sip13 key vp. virtual_partition_for_key sip13 key (partition_count t) writer = Some vp
            \<longrightarrow> is_valid_partition t vp))"
proof -
  have ok: "topics_ok topics" "fst ` set topics = tc_name ` set configs" "length topics = length configs"
    using build_topics_from_ok[of "[]" configs topics] assms(1)
    by (auto simp: build_topics_def topics_ok_def)
  have "is_valid_partition t vp"
    if t: "(name, t) \<in> set topics" and vp: "virtual_partition_for_key sip13 key (partition_count t) writer = Some vp"
    for name t sip13 key vp
  proof -
    have fits: "unat (partition_count t) * unat (num_writers t) < 2 ^ 32"
      using ok(1) t by (auto simp: topics_ok_def)
    have w: "unat writer < unat (num_writers t)"
      using assms(2) t by (auto simp: validate_writer_id_Inr word_less_nat_alt)
    obtain l where l: "logical_partition_for_key sip13 key (partition_count t) = Some l"
      "vp = virtual_partition_for_logical l (partition_count t) writer"
      using vp by (auto simp: virtual_partition_for_key_def)
    have "unat l < unat (partition_count t)" using logical_partition_for_key_bound[OF l(1)] by blast
    then show ?thesis
      using virtual_partition_for_logical_bound[OF fits _ w] by (simp add: l(2) is_valid_partition_iff[OF fits])
  qed
  with ok show ?thesis by (auto simp: topics_ok_def)
qed

theorem accepted_topics_route_valid_partitions_witness:
  "\<exists>t. build_topics [\<lparr>tc_name = ''t'', tc_partition_count = 4, tc_num_writers = 3,
          tc_retention = Some (seconds 60), tc_max_metadata_publication_lag = None,
          tc_metadata_window_size = None\<rparr>] = Inr [(''t'', t)]
     \<and> validate_writer_id 2 [(''t'', t)] = Inr ()
     \<and> virtual_partition_for_key (\<lambda>_. 7) [1, 2] (partition_count t) 2 = Some 11
     \<and> is_valid_partition t 11"
proof -
  let ?c = "\<lparr>tc_name = ''t'', tc_partition_count = 4, tc_num_writers = 3,
          tc_retention = Some (seconds 60), tc_max_metadata_publication_lag = None,
          tc_metadata_window_size = None\<rparr>"
  obtain t where t: "topic_from_proto ?c = Inr t" "topic_name t = ''t''" "partition_count t = 4" "num_writers t = 3"
    by (auto simp: topic_from_proto_def virtual_partition_count_def checked_mul_def
        topic_metadata_window_size_def DEFAULT_METADATA_WINDOW_SIZE_def seconds_def)
  have b: "build_topics [?c] = Inr [(''t'', t)]" by (simp add: build_topics_def t)
  have v: "validate_writer_id 2 [(''t'', t)] = Inr ()" by (simp add: t)
  have k: "virtual_partition_for_key (\<lambda>_. 7) [1, 2] (partition_count t) 2 = Some 11"
    by (simp add: t virtual_partition_for_key_def logical_partition_for_key_def partition_hash_def
        virtual_partition_for_logical_def try_from_nat_def saturating_add_def saturating_mul_def)
  show ?thesis
    using accepted_topics_route_valid_partitions[OF b v] b v k by auto
qed

end
