(* ===== verification/Adaptive_Delay.thy ===== *)
theory Adaptive_Delay
  imports Write_Config
begin

text \<open>
  The controller of the broker-wide flush delay (\<open>write/adaptive_flush_delay.rs\<close>).  It lowers the
  delay when flush plans have to be split into several objects and raises it again when they are
  not.  The durations are nanoseconds; the controller itself computes in whole milliseconds with
  saturating 128-bit arithmetic.
\<close>

section \<open>Controller\<close>

text \<open>\<open>i128\<close> values are integers; saturating operations stop at the ends of the range.\<close>

definition saturate_i128 :: "int \<Rightarrow> int" where
  "saturate_i128 x = max (- (2 ^ 127)) (min x (2 ^ 127 - 1))"

definition CONSECUTIVE_OUTCOMES_REQUIRED_FOR_ADJUSTMENT :: u64 where
  "CONSECUTIVE_OUTCOMES_REQUIRED_FOR_ADJUSTMENT = 3"

definition SPLIT_REDUCTION_FRACTION_DENOMINATOR :: int where
  "SPLIT_REDUCTION_FRACTION_DENOMINATOR = 4"

record AdaptiveFlushDelay =
  delay_config :: AdaptiveFlushDelayConfig
  current_delay :: duration
  consecutive_split_plans :: u64
  consecutive_successful_unsplit_plans :: u64

definition divide_rounding_up :: "int \<Rightarrow> int \<Rightarrow> int" where
  "divide_rounding_up dividend divisor =
     (if dividend = 0 then 0 else trunc_div (saturate_i128 (dividend - 1)) divisor + 1)"

definition duration_from_milliseconds :: "int \<Rightarrow> duration" where
  "duration_from_milliseconds ms =
     milliseconds (case i64_try_from ms of None \<Rightarrow> 2 ^ 63 - 1 | Some n \<Rightarrow> n)"

definition duration_milliseconds :: "AdaptiveFlushDelay \<Rightarrow> int" where
  "duration_milliseconds st = whole_milliseconds (current_delay st)"

definition floor_milliseconds :: "AdaptiveFlushDelay \<Rightarrow> int" where
  "floor_milliseconds st = whole_milliseconds (adaptive_floor (delay_config st))"

definition maximum_milliseconds :: "AdaptiveFlushDelay \<Rightarrow> int" where
  "maximum_milliseconds st = whole_milliseconds (adaptive_max_delay (delay_config st))"

definition new_delay :: "AdaptiveFlushDelayConfig \<Rightarrow> AdaptiveFlushDelay" where
  "new_delay config =
     \<lparr>delay_config = config, current_delay = adaptive_max_delay config,
      consecutive_split_plans = 0, consecutive_successful_unsplit_plans = 0\<rparr>"

definition reset_streaks :: "AdaptiveFlushDelay \<Rightarrow> AdaptiveFlushDelay" where
  "reset_streaks st =
     st\<lparr>consecutive_split_plans := 0, consecutive_successful_unsplit_plans := 0\<rparr>"

text \<open>The clamp of a reconfiguration panics when the new floor exceeds the new maximum: \<open>None\<close>.\<close>

definition reconfigure ::
    "AdaptiveFlushDelay \<Rightarrow> AdaptiveFlushDelayConfig \<Rightarrow> AdaptiveFlushDelay option" where
  "reconfigure st config =
     (let was_enabled = adaptive_enabled (delay_config st);
          st = reset_streaks (st\<lparr>delay_config := config\<rparr>)
      in if \<not> adaptive_enabled config \<or> \<not> was_enabled
         then Some (st\<lparr>current_delay := adaptive_max_delay config\<rparr>)
         else map_option (\<lambda>d. st\<lparr>current_delay := d\<rparr>)
                (clamp (current_delay st) (adaptive_floor config) (adaptive_max_delay config)))"

definition set_delay :: "AdaptiveFlushDelay \<Rightarrow> duration \<Rightarrow> AdaptiveFlushDelay" where
  "set_delay st d =
     (let st' = st\<lparr>current_delay := d\<rparr>
      in if d \<noteq> current_delay st then reset_streaks st' else st')"

definition split_delay :: "AdaptiveFlushDelay \<Rightarrow> u64 \<Rightarrow> duration" where
  "split_delay st split_count =
     (let divisor = uint (saturating_add split_count 1);
          current = duration_milliseconds st;
          target = min (max (divide_rounding_up current divisor) (floor_milliseconds st))
                     (maximum_milliseconds st);
          reduction = divide_rounding_up (saturate_i128 (current - target))
                        SPLIT_REDUCTION_FRACTION_DENOMINATOR
      in duration_from_milliseconds
           (max (saturate_i128 (current - reduction)) (floor_milliseconds st)))"

definition recovered_delay :: "AdaptiveFlushDelay \<Rightarrow> duration" where
  "recovered_delay st =
     (let current = duration_milliseconds st;
          remaining = saturate_i128 (maximum_milliseconds st - current)
      in duration_from_milliseconds
           (min (saturate_i128 (current + divide_rounding_up remaining 2)) (maximum_milliseconds st)))"

definition record_flush_result ::
    "AdaptiveFlushDelay \<Rightarrow> u64 \<Rightarrow> bool \<Rightarrow> bool \<times> AdaptiveFlushDelay" where
  "record_flush_result st split_count successful =
     (let previous_delay = current_delay st in
      if \<not> adaptive_enabled (delay_config st) then
        (let st' = reset_streaks st\<lparr>current_delay := adaptive_max_delay (delay_config st)\<rparr>
         in (current_delay st' \<noteq> previous_delay, st'))
      else if 0 < split_count then
        (let st' = st\<lparr>consecutive_split_plans := saturating_add (consecutive_split_plans st) 1,
                      consecutive_successful_unsplit_plans := 0\<rparr>
         in if consecutive_split_plans st' < CONSECUTIVE_OUTCOMES_REQUIRED_FOR_ADJUSTMENT
            then (False, st')
            else let st'' = set_delay st' (split_delay st' split_count)
                 in (current_delay st'' \<noteq> previous_delay, st''))
      else if successful then
        (let st' = st\<lparr>consecutive_successful_unsplit_plans :=
                        saturating_add (consecutive_successful_unsplit_plans st) 1,
                      consecutive_split_plans := 0\<rparr>
         in if consecutive_successful_unsplit_plans st' < CONSECUTIVE_OUTCOMES_REQUIRED_FOR_ADJUSTMENT
            then (False, st')
            else let st'' = set_delay st' (recovered_delay st')
                 in (current_delay st'' \<noteq> previous_delay, st''))
      else (False, reset_streaks st))"

section \<open>Runs of the controller\<close>

datatype DelayEvent = Reconfigured AdaptiveFlushDelayConfig | FlushResult u64 bool

fun delay_step :: "AdaptiveFlushDelay \<Rightarrow> DelayEvent \<Rightarrow> AdaptiveFlushDelay option" where
  "delay_step st (Reconfigured config) = reconfigure st config"
| "delay_step st (FlushResult split_count successful) =
     Some (snd (record_flush_result st split_count successful))"

fun delay_run :: "AdaptiveFlushDelay \<Rightarrow> DelayEvent list \<Rightarrow> AdaptiveFlushDelay option" where
  "delay_run st [] = Some st"
| "delay_run st (e # es) = (case delay_step st e of None \<Rightarrow> None | Some st' \<Rightarrow> delay_run st' es)"

text \<open>
  The configurations \<open>effective_flush_config\<close> produces, as long as the delay fits the millisecond
  count of \<open>Duration::milliseconds\<close>.
\<close>

definition delay_config_ok :: "AdaptiveFlushDelayConfig \<Rightarrow> bool" where
  "delay_config_ok config \<longleftrightarrow> milliseconds 1 \<le> adaptive_floor config
     \<and> adaptive_floor config \<le> adaptive_max_delay config
     \<and> adaptive_max_delay config < milliseconds (2 ^ 63)"

fun event_ok :: "DelayEvent \<Rightarrow> bool" where
  "event_ok (Reconfigured config) = delay_config_ok config"
| "event_ok (FlushResult _ _) = True"

definition delay_ok :: "AdaptiveFlushDelay \<Rightarrow> bool" where
  "delay_ok st \<longleftrightarrow> delay_config_ok (delay_config st)
     \<and> floor_milliseconds st \<le> duration_milliseconds st
     \<and> current_delay st \<le> adaptive_max_delay (delay_config st)
     \<and> (\<not> adaptive_enabled (delay_config st) \<longrightarrow>
          current_delay st = adaptive_max_delay (delay_config st))"

text \<open>The classes of outcomes that count towards a streak.\<close>

fun is_split :: "DelayEvent \<Rightarrow> bool" where
  "is_split (Reconfigured _) = False"
| "is_split (FlushResult split_count _) = (0 < split_count)"

fun is_unsplit_success :: "DelayEvent \<Rightarrow> bool" where
  "is_unsplit_success (Reconfigured _) = False"
| "is_unsplit_success (FlushResult split_count successful) = (split_count = 0 \<and> successful)"

section \<open>Lemmas\<close>

subsection \<open>Rounding\<close>

lemma whole_milliseconds_nonneg: "0 \<le> d \<Longrightarrow> whole_milliseconds d = d div 1000000"
  by (simp add: whole_milliseconds_def trunc_div_nonneg)

lemma div_mult_le_int: "0 < b \<Longrightarrow> a div b * b \<le> (a :: int)"
  using pos_mod_sign[of b a] by (simp add: minus_mod_eq_div_mult[symmetric])

lemma div_less_int: "0 < b \<Longrightarrow> a < b * n \<Longrightarrow> a div b < (n :: int)"
  by (metis div_mult_le_int le_less_trans mult.commute mult_less_cancel_right_pos)

lemma whole_milliseconds_of_milliseconds: "0 \<le> n \<Longrightarrow> whole_milliseconds (milliseconds n) = n"
  by (simp add: whole_milliseconds_nonneg milliseconds_def)

lemma saturate_i128_small: "\<bar>x\<bar> < 2 ^ 100 \<Longrightarrow> saturate_i128 x = x"
  by (simp add: saturate_i128_def)

lemma divide_rounding_up_pos:
  assumes "0 < a" "a < 2 ^ 100" "0 < b"
  shows "divide_rounding_up a b = (a - 1) div b + 1"
  using assms by (simp add: divide_rounding_up_def saturate_i128_small trunc_div_nonneg)

lemma divide_rounding_up_bounds:
  assumes "0 \<le> a" "a < 2 ^ 100" "0 < b"
  shows "0 \<le> divide_rounding_up a b \<and> divide_rounding_up a b \<le> a
    \<and> (0 < a \<longrightarrow> 0 < divide_rounding_up a b) \<and> (1 < a \<longrightarrow> 1 < b \<longrightarrow> divide_rounding_up a b < a)"
proof (cases "a = 0")
  case True
  then show ?thesis by (simp add: divide_rounding_up_def)
next
  case False
  with assms(1) have a: "0 < a" by simp
  have ge: "0 \<le> (a - 1) div b" using a assms(3) by (simp add: pos_imp_zdiv_nonneg_iff)
  have le: "(a - 1) div b \<le> a - 1" using a assms(3) zdiv_mono2[of "a - 1" 1 b] by simp
  have lt: "(a - 1) div b < a - 1" if "1 < a" "1 < b" using that by (intro int_div_less_self) auto
  show ?thesis unfolding divide_rounding_up_pos[OF a assms(2,3)] using ge le lt by force
qed

lemma duration_from_milliseconds_small:
  "0 \<le> n \<Longrightarrow> n < 2 ^ 63 \<Longrightarrow> duration_from_milliseconds n = milliseconds n"
  by (simp add: duration_from_milliseconds_def i64_try_from_def)

subsection \<open>Adjustments\<close>

lemma delay_ok_ms:
  assumes "delay_ok st"
  shows "1 \<le> floor_milliseconds st" "floor_milliseconds st \<le> duration_milliseconds st"
    "duration_milliseconds st \<le> maximum_milliseconds st" "maximum_milliseconds st < 2 ^ 63"
    "milliseconds (maximum_milliseconds st) \<le> adaptive_max_delay (delay_config st)"
proof -
  let ?f = "adaptive_floor (delay_config st)" and ?m = "adaptive_max_delay (delay_config st)"
  have b: "1000000 \<le> ?f" "?f \<le> ?m" "?m < 1000000 * 2 ^ 63" "current_delay st \<le> ?m"
    "floor_milliseconds st \<le> duration_milliseconds st"
    using assms by (auto simp: delay_ok_def delay_config_ok_def milliseconds_def)
  have fm: "floor_milliseconds st = ?f div 1000000" "maximum_milliseconds st = ?m div 1000000"
    using b by (simp_all add: floor_milliseconds_def maximum_milliseconds_def whole_milliseconds_nonneg)
  show f1: "1 \<le> floor_milliseconds st" using b by (simp add: fm)
  show "floor_milliseconds st \<le> duration_milliseconds st" by (rule b(5))
  have "0 \<le> current_delay st"
  proof (rule ccontr)
    assume "\<not> 0 \<le> current_delay st"
    then have "duration_milliseconds st \<le> 0"
      by (simp add: duration_milliseconds_def whole_milliseconds_def trunc_div_def)
    with f1 b(5) show False by simp
  qed
  then show "duration_milliseconds st \<le> maximum_milliseconds st"
    using b(4) unfolding fm by (simp add: duration_milliseconds_def whole_milliseconds_nonneg zdiv_mono1)
  have down: "?m div 1000000 * 1000000 \<le> ?m" by (rule div_mult_le_int) simp
  show "maximum_milliseconds st < 2 ^ 63" unfolding fm by (rule div_less_int[OF _ b(3)]) simp
  show "milliseconds (maximum_milliseconds st) \<le> ?m" unfolding fm milliseconds_def by (rule down)
qed

lemma split_delay_bounds:
  assumes "delay_ok st" "0 < s"
  obtains n where "split_delay st s = milliseconds n" "floor_milliseconds st \<le> n"
    "n \<le> duration_milliseconds st" "floor_milliseconds st < duration_milliseconds st \<Longrightarrow> n < duration_milliseconds st"
proof -
  let ?f = "floor_milliseconds st" and ?c = "duration_milliseconds st" and ?m = "maximum_milliseconds st"
  note b = delay_ok_ms[OF assms(1)]
  have big: "?c < 2 ^ 100" "0 \<le> ?c" "?c < 2 ^ 63" using b by simp_all
  have "1 < unat (saturating_add s (1 :: u64))"
    using assms(2) by (auto simp: unat_saturating_add word_gt_0 unat_gt_0 min_def)
  moreover have "uint (saturating_add s (1 :: u64)) = int (unat (saturating_add s 1))" by simp
  ultimately have d: "1 < uint (saturating_add s 1)" by linarith
  define t where "t = min (max (divide_rounding_up ?c (uint (saturating_add s 1))) ?f) ?m"
  have up: "divide_rounding_up ?c (uint (saturating_add s 1)) \<le> ?c"
    "1 < ?c \<Longrightarrow> divide_rounding_up ?c (uint (saturating_add s 1)) < ?c"
    using divide_rounding_up_bounds[OF big(2,1), of "uint (saturating_add s 1)"] d by auto
  have t: "?f \<le> t" "t \<le> ?c" "?f < ?c \<Longrightarrow> t < ?c"
    using up b unfolding t_def by (auto simp: min_def max_def)
  define r where "r = divide_rounding_up (saturate_i128 (?c - t)) SPLIT_REDUCTION_FRACTION_DENOMINATOR"
  have sat: "saturate_i128 (?c - t) = ?c - t" using t b big by (intro saturate_i128_small) simp
  have r: "0 \<le> r" "r \<le> ?c - t" "t < ?c \<Longrightarrow> 0 < r"
    using divide_rounding_up_bounds[of "?c - t" 4] t big b(1)
    by (auto simp: r_def sat SPLIT_REDUCTION_FRACTION_DENOMINATOR_def)
  have sat': "saturate_i128 (?c - r) = ?c - r" using r t b big by (intro saturate_i128_small) simp
  have "split_delay st s = duration_from_milliseconds (max (?c - r) ?f)"
    unfolding split_delay_def Let_def t_def[symmetric] r_def[symmetric] sat' by (rule refl)
  also have "max (?c - r) ?f = ?c - r" using r t by linarith
  also have "duration_from_milliseconds (?c - r) = milliseconds (?c - r)"
    by (rule duration_from_milliseconds_small) (use r t b(1) big in linarith)+
  finally show thesis by (rule that) (use r t in linarith)+
qed

lemma recovered_delay_bounds:
  assumes "delay_ok st"
  obtains n where "recovered_delay st = milliseconds n" "duration_milliseconds st \<le> n"
    "n \<le> maximum_milliseconds st"
    "maximum_milliseconds st - n \<le> (maximum_milliseconds st - duration_milliseconds st) div 2"
proof -
  let ?c = "duration_milliseconds st" and ?m = "maximum_milliseconds st"
  note b = delay_ok_ms[OF assms]
  have sat: "saturate_i128 (?m - ?c) = ?m - ?c" using b by (intro saturate_i128_small) simp
  define r where "r = divide_rounding_up (?m - ?c) 2"
  have r: "0 \<le> r" "r \<le> ?m - ?c"
    using divide_rounding_up_bounds[of "?m - ?c" 2] b by (auto simp: r_def)
  have half: "?m - (?c + r) \<le> (?m - ?c) div 2"
    using b divide_rounding_up_pos[of "?m - ?c" 2] by (cases "?m = ?c") (auto simp: r_def divide_rounding_up_def)
  have sat': "saturate_i128 (?c + r) = ?c + r" using r b by (intro saturate_i128_small) simp
  have "recovered_delay st = duration_from_milliseconds (min (?c + r) ?m)"
    unfolding recovered_delay_def Let_def sat r_def[symmetric] sat' by (rule refl)
  also have "min (?c + r) ?m = ?c + r" using r by linarith
  also have "duration_from_milliseconds (?c + r) = milliseconds (?c + r)"
    by (rule duration_from_milliseconds_small) (use r b in linarith)+
  finally show thesis by (rule that) (use r half in linarith)+
qed

text \<open>The fields an outcome changes, and the bounds of the delay it leaves.\<close>

lemma set_delay_simps [simp]:
  "delay_config (set_delay st d) = delay_config st" "current_delay (set_delay st d) = d"
  by (simp_all add: set_delay_def reset_streaks_def Let_def)

lemma floor_maximum_config:
  assumes "delay_config st' = delay_config st"
  shows "floor_milliseconds st' = floor_milliseconds st" "maximum_milliseconds st' = maximum_milliseconds st"
  using assms by (simp_all add: floor_milliseconds_def maximum_milliseconds_def)

lemma delay_ok_set_delay:
  assumes "delay_ok st" "adaptive_enabled (delay_config st)" "delay_config st' = delay_config st"
    "current_delay st' = milliseconds n" "floor_milliseconds st \<le> n" "n \<le> maximum_milliseconds st"
  shows "delay_ok st' \<and> duration_milliseconds st' = n"
proof -
  note b = delay_ok_ms[OF assms(1)]
  have ms: "duration_milliseconds st' = n"
    using assms(4,5) b(1) by (simp add: duration_milliseconds_def whole_milliseconds_of_milliseconds)
  have "milliseconds n \<le> milliseconds (maximum_milliseconds st)"
    using assms(6) by (simp add: milliseconds_def)
  with b(5) assms ms show ?thesis by (auto simp: delay_ok_def floor_maximum_config[OF assms(3)])
qed

lemma delay_ok_same_delay:
  "delay_ok st \<Longrightarrow> delay_config st' = delay_config st \<Longrightarrow> current_delay st' = current_delay st
    \<Longrightarrow> delay_ok st'"
  by (simp add: delay_ok_def floor_milliseconds_def duration_milliseconds_def)

lemma delay_ok_between:
  assumes "delay_config_ok (delay_config st)" "adaptive_floor (delay_config st) \<le> current_delay st"
    "current_delay st \<le> adaptive_max_delay (delay_config st)"
    "adaptive_enabled (delay_config st) \<or> current_delay st = adaptive_max_delay (delay_config st)"
  shows "delay_ok st"
proof -
  have "0 \<le> adaptive_floor (delay_config st)"
    using assms(1) unfolding delay_config_ok_def milliseconds_def by linarith
  then have "floor_milliseconds st \<le> duration_milliseconds st"
    using assms(2) unfolding floor_milliseconds_def duration_milliseconds_def
    by (simp add: whole_milliseconds_nonneg zdiv_mono1)
  with assms show ?thesis by (auto simp: delay_ok_def)
qed

lemma new_delay_ok: "delay_config_ok config \<Longrightarrow> delay_ok (new_delay config)"
  by (rule delay_ok_between) (simp_all add: new_delay_def delay_config_ok_def)

lemma reconfigure_ok:
  assumes "delay_config_ok config"
  obtains st' where "reconfigure st config = Some st'" "delay_ok st'" "delay_config st' = config"
proof -
  have c: "adaptive_floor config \<le> adaptive_max_delay config"
    using assms by (simp add: delay_config_ok_def)
  have "delay_ok (reset_streaks (st\<lparr>delay_config := config\<rparr>)\<lparr>current_delay := d\<rparr>)"
    if "adaptive_floor config \<le> d" "d \<le> adaptive_max_delay config"
      "adaptive_enabled config \<or> d = adaptive_max_delay config" for d
    by (rule delay_ok_between) (use that assms in \<open>simp_all add: reset_streaks_def\<close>)
  with c show thesis
    by (intro that[of "the (reconfigure st config)"])
      (auto simp: reconfigure_def clamp_def Let_def reset_streaks_def)
qed

text \<open>One outcome under an enabled configuration: the streak it extends and the delay it leaves.\<close>

lemma record_split:
  fixes successful :: bool
  assumes "delay_ok st" "adaptive_enabled (delay_config st)" "0 < s"
  defines "st' \<equiv> snd (record_flush_result st s successful)"
  shows "delay_ok st' \<and> delay_config st' = delay_config st \<and> duration_milliseconds st' \<le> duration_milliseconds st"
    and "unat (consecutive_split_plans st) < 2
      \<Longrightarrow> unat (consecutive_split_plans st') = unat (consecutive_split_plans st) + 1"
    and "2 \<le> unat (consecutive_split_plans st) \<Longrightarrow> floor_milliseconds st < duration_milliseconds st
      \<Longrightarrow> duration_milliseconds st' < duration_milliseconds st"
proof -
  define st1 where "st1 = st\<lparr>consecutive_split_plans := saturating_add (consecutive_split_plans st) 1,
                      consecutive_successful_unsplit_plans := 0\<rparr>"
  have ok: "delay_ok st1" by (rule delay_ok_same_delay[OF assms(1)]) (simp_all add: st1_def)
  have ms: "duration_milliseconds st1 = duration_milliseconds st" "floor_milliseconds st1 = floor_milliseconds st"
    by (simp_all add: st1_def duration_milliseconds_def floor_milliseconds_def)
  have n: "unat (consecutive_split_plans st1) = min (unat (consecutive_split_plans st) + 1) (2 ^ 64 - 1)"
    by (simp add: st1_def unat_saturating_add)
  obtain n where d: "split_delay st1 s = milliseconds n" "floor_milliseconds st1 \<le> n"
    "n \<le> duration_milliseconds st1" "floor_milliseconds st1 < duration_milliseconds st1 \<Longrightarrow> n < duration_milliseconds st1"
    using split_delay_bounds[OF ok assms(3)] by blast
  have set: "delay_ok (set_delay st1 (milliseconds n)) \<and> duration_milliseconds (set_delay st1 (milliseconds n)) = n"
    using assms(2) d delay_ok_ms(3)[OF ok] by (intro delay_ok_set_delay[OF ok]) (auto simp: st1_def)
  have st': "st' = (if unat (consecutive_split_plans st1) < 3 then st1 else set_delay st1 (milliseconds n))"
    using assms(2,3)
    by (simp add: st'_def record_flush_result_def Let_def st1_def[symmetric] d(1) word_less_nat_alt
        CONSECUTIVE_OUTCOMES_REQUIRED_FOR_ADJUSTMENT_def)
  show "delay_ok st' \<and> delay_config st' = delay_config st \<and> duration_milliseconds st' \<le> duration_milliseconds st"
    using set ok d(3) by (auto simp: st' ms) (simp_all add: st1_def)
  show "unat (consecutive_split_plans st') = unat (consecutive_split_plans st) + 1"
    if "unat (consecutive_split_plans st) < 2" using that n by (simp add: st')
  show "duration_milliseconds st' < duration_milliseconds st"
    if "2 \<le> unat (consecutive_split_plans st)" "floor_milliseconds st < duration_milliseconds st"
    using that n d(4) set by (simp add: st' ms min_def split: if_splits)
qed

lemma record_success:
  assumes "delay_ok st" "adaptive_enabled (delay_config st)"
  defines "st' \<equiv> snd (record_flush_result st 0 True)"
  shows "delay_ok st' \<and> delay_config st' = delay_config st \<and> duration_milliseconds st \<le> duration_milliseconds st'"
    and "unat (consecutive_successful_unsplit_plans st) < 2
      \<Longrightarrow> unat (consecutive_successful_unsplit_plans st') = unat (consecutive_successful_unsplit_plans st) + 1"
    and "2 \<le> unat (consecutive_successful_unsplit_plans st)
      \<Longrightarrow> maximum_milliseconds st - duration_milliseconds st'
          \<le> (maximum_milliseconds st - duration_milliseconds st) div 2"
proof -
  define st1 where "st1 = st\<lparr>consecutive_successful_unsplit_plans :=
      saturating_add (consecutive_successful_unsplit_plans st) 1, consecutive_split_plans := 0\<rparr>"
  have ok: "delay_ok st1" by (rule delay_ok_same_delay[OF assms(1)]) (simp_all add: st1_def)
  have ms: "duration_milliseconds st1 = duration_milliseconds st" "maximum_milliseconds st1 = maximum_milliseconds st"
    by (simp_all add: st1_def duration_milliseconds_def maximum_milliseconds_def)
  have n: "unat (consecutive_successful_unsplit_plans st1)
      = min (unat (consecutive_successful_unsplit_plans st) + 1) (2 ^ 64 - 1)"
    by (simp add: st1_def unat_saturating_add)
  obtain n where d: "recovered_delay st1 = milliseconds n" "duration_milliseconds st1 \<le> n"
    "n \<le> maximum_milliseconds st1"
    "maximum_milliseconds st1 - n \<le> (maximum_milliseconds st1 - duration_milliseconds st1) div 2"
    using recovered_delay_bounds[OF ok] by blast
  have set: "delay_ok (set_delay st1 (milliseconds n)) \<and> duration_milliseconds (set_delay st1 (milliseconds n)) = n"
    using assms(2) d delay_ok_ms(2)[OF ok] by (intro delay_ok_set_delay[OF ok]) (auto simp: st1_def)
  have st': "st' = (if unat (consecutive_successful_unsplit_plans st1) < 3 then st1
      else set_delay st1 (milliseconds n))"
    using assms(2)
    by (simp add: st'_def record_flush_result_def Let_def st1_def[symmetric] d(1) word_less_nat_alt
        CONSECUTIVE_OUTCOMES_REQUIRED_FOR_ADJUSTMENT_def)
  show "delay_ok st' \<and> delay_config st' = delay_config st \<and> duration_milliseconds st \<le> duration_milliseconds st'"
    using set ok d(2) by (auto simp: st' ms) (simp_all add: st1_def)
  show "unat (consecutive_successful_unsplit_plans st') = unat (consecutive_successful_unsplit_plans st) + 1"
    if "unat (consecutive_successful_unsplit_plans st) < 2" using that n by (simp add: st')
  show "maximum_milliseconds st - duration_milliseconds st'
      \<le> (maximum_milliseconds st - duration_milliseconds st) div 2"
    if "2 \<le> unat (consecutive_successful_unsplit_plans st)"
    using that n d(4) set by (simp add: st' ms min_def split: if_splits)
qed

lemma record_ok:
  assumes "delay_ok st"
  shows "delay_ok (snd (record_flush_result st s successful))"
proof (cases "adaptive_enabled (delay_config st) \<and> (0 < s \<or> successful)")
  case True
  then consider "0 < s" | "s = 0" "successful" by (cases "s = 0") (auto simp: word_gt_0)
  then show ?thesis using True record_split(1)[OF assms] record_success(1)[OF assms] by cases auto
next
  case False
  then show ?thesis
    using assms
    by (auto simp: record_flush_result_def Let_def reset_streaks_def delay_ok_def floor_milliseconds_def
        duration_milliseconds_def)
qed

lemma delay_run_ok:
  assumes "delay_ok st" "\<forall>e \<in> set es. event_ok e"
  shows "\<exists>st'. delay_run st es = Some st' \<and> delay_ok st'"
  using assms
proof (induction es arbitrary: st)
  case (Cons e es)
  obtain st' where "delay_step st e = Some st'" "delay_ok st'"
    using Cons.prems record_ok[of st] reconfigure_ok[of _ st] by (cases e) (simp_all, blast)
  with Cons show ?case by simp
qed simp


subsection \<open>Convergence by streaks\<close>

text \<open>
  Both directions of the controller share one argument: an event extends a streak, a streak of three
  shrinks a gap, and nothing widens it.
\<close>

locale streak_convergence =
  fixes step :: "'e \<Rightarrow> 's \<Rightarrow> 's" and good :: "'s \<Rightarrow> bool" and counts :: "'e \<Rightarrow> bool"
    and streak :: "'s \<Rightarrow> nat" and gap :: "'s \<Rightarrow> nat" and shrink :: "nat \<Rightarrow> nat"
  assumes good_step: "good st \<Longrightarrow> counts e \<Longrightarrow> good (step e st)"
    and gap_step: "good st \<Longrightarrow> counts e \<Longrightarrow> gap (step e st) \<le> gap st"
    and streak_step: "good st \<Longrightarrow> counts e \<Longrightarrow> streak st < 2 \<Longrightarrow> streak (step e st) = streak st + 1"
    and gap_shrinks: "good st \<Longrightarrow> counts e \<Longrightarrow> 2 \<le> streak st \<Longrightarrow> gap (step e st) \<le> shrink (gap st)"
    and shrink_mono: "m \<le> n \<Longrightarrow> shrink m \<le> shrink n"
begin

lemma run_good:
  assumes "good st" "\<forall>e \<in> set es. counts e"
  shows "good (fold step es st) \<and> gap (fold step es st) \<le> gap st"
  using assms
proof (induction es arbitrary: st)
  case (Cons e es)
  have "good (step e st)" "gap (step e st) \<le> gap st" using Cons.prems good_step gap_step by auto
  with Cons show ?case by fastforce
qed simp

lemma triple_shrinks:
  assumes "good st" "counts a" "counts b" "counts c"
  shows "gap (fold step [a, b, c] st) \<le> shrink (gap st)"
proof -
  define s1 s2 where "s1 = step a st" and "s2 = step b s1"
  have g: "good s1" "good s2" unfolding s1_def s2_def using assms good_step by auto
  have le: "gap s1 \<le> gap st" "gap s2 \<le> gap s1" "gap (step c s2) \<le> gap s2"
    unfolding s2_def s1_def using assms gap_step good_step by auto
  consider "2 \<le> streak st" | "streak st = 1" | "streak st = 0" by linarith
  then have "gap (step c s2) \<le> shrink (gap st)"
  proof cases
    case 1
    have "gap s1 \<le> shrink (gap st)" using gap_shrinks[OF assms(1,2) 1] by (simp add: s1_def)
    with le show ?thesis by linarith
  next
    case 2
    then have "2 \<le> streak s1" using streak_step[OF assms(1,2)] by (simp add: s1_def)
    then have "gap s2 \<le> shrink (gap s1)" using gap_shrinks[OF g(1) assms(3)] by (simp add: s2_def)
    with le shrink_mono[OF le(1)] show ?thesis by linarith
  next
    case 3
    then have "streak s1 = 1" using streak_step[OF assms(1,2)] by (simp add: s1_def)
    then have "2 \<le> streak s2" using streak_step[OF g(1) assms(3)] by (simp add: s2_def)
    then have "gap (step c s2) \<le> shrink (gap s2)" using gap_shrinks[OF g(2) assms(4)] by simp
    with shrink_mono[of "gap s2" "gap st"] le show ?thesis by linarith
  qed
  then show ?thesis by (simp add: s1_def s2_def)
qed

lemma run_shrinks:
  assumes "good st" "\<forall>e \<in> set es. counts e" "3 * k \<le> length es"
  shows "gap (fold step es st) \<le> (shrink ^^ k) (gap st)"
  using assms
proof (induction k arbitrary: st es)
  case 0
  then show ?case using run_good by simp
next
  case (Suc k)
  then obtain a b c rest where es: "es = a # b # c # rest" "3 * k \<le> length rest"
    by (auto simp: Suc_le_length_iff eval_nat_numeral)
  let ?s = "fold step [a, b, c] st"
  have g: "good ?s" using run_good[of st "[a, b, c]"] Suc.prems es by simp
  have pow: "(shrink ^^ k) m \<le> (shrink ^^ k) n" if "m \<le> n" for m n
    using that by (induction k) (auto intro: shrink_mono)
  have "gap (fold step rest ?s) \<le> (shrink ^^ k) (gap ?s)" by (rule Suc.IH) (use g Suc.prems es in auto)
  also have "\<dots> \<le> (shrink ^^ k) (shrink (gap st))"
    using Suc.prems es triple_shrinks by (intro pow) simp
  finally show ?case by (simp add: es funpow_swap1)
qed

end

definition next_delay :: "DelayEvent \<Rightarrow> AdaptiveFlushDelay \<Rightarrow> AdaptiveFlushDelay" where
  "next_delay e st = the (delay_step st e)"

definition enabled_with :: "AdaptiveFlushDelayConfig \<Rightarrow> AdaptiveFlushDelay \<Rightarrow> bool" where
  "enabled_with config st \<longleftrightarrow> delay_ok st \<and> delay_config st = config \<and> adaptive_enabled config"

lemma delay_run_fold:
  "\<forall>e \<in> set es. is_split e \<or> is_unsplit_success e \<Longrightarrow> delay_run st es = Some (fold next_delay es st)"
proof (induction es arbitrary: st)
  case (Cons e es)
  then show ?case by (cases e) (auto simp: next_delay_def)
qed simp

interpretation narrowing: streak_convergence next_delay "enabled_with config" is_split
  "\<lambda>st. unat (consecutive_split_plans st)"
  "\<lambda>st. nat (duration_milliseconds st - floor_milliseconds st)" "\<lambda>n. n - 1" for config
proof
  fix st :: AdaptiveFlushDelay and e
  assume good: "enabled_with config st" and e: "is_split e"
  then obtain s ok where e: "e = FlushResult s ok" "0 < s" by (cases e) auto
  have st: "delay_ok st" "adaptive_enabled (delay_config st)" using good by (auto simp: enabled_with_def)
  note r = record_split[OF st e(2), of ok]
  have floor: "floor_milliseconds (next_delay e st) = floor_milliseconds st"
    using r(1) by (auto simp: e next_delay_def intro: floor_maximum_config)
  show "enabled_with config (next_delay e st)"
    using r(1) good by (simp add: e next_delay_def enabled_with_def)
  show "nat (duration_milliseconds (next_delay e st) - floor_milliseconds (next_delay e st))
      \<le> nat (duration_milliseconds st - floor_milliseconds st)"
    unfolding floor using r(1) by (intro nat_mono) (simp add: e next_delay_def)
  show "unat (consecutive_split_plans (next_delay e st)) = unat (consecutive_split_plans st) + 1"
    if "unat (consecutive_split_plans st) < 2" using r(2) that by (simp add: e next_delay_def)
  show "nat (duration_milliseconds (next_delay e st) - floor_milliseconds (next_delay e st))
      \<le> nat (duration_milliseconds st - floor_milliseconds st) - 1"
    if "2 \<le> unat (consecutive_split_plans st)"
    unfolding floor using r(1) r(3)[OF that]
    by (cases "floor_milliseconds st < duration_milliseconds st") (simp_all add: e next_delay_def nat_less_iff)
qed simp

interpretation widening: streak_convergence next_delay "enabled_with config" is_unsplit_success
  "\<lambda>st. unat (consecutive_successful_unsplit_plans st)"
  "\<lambda>st. nat (maximum_milliseconds st - duration_milliseconds st)" "\<lambda>n. n div 2" for config
proof
  fix st :: AdaptiveFlushDelay and e
  assume good: "enabled_with config st" and e: "is_unsplit_success e"
  then have e: "e = FlushResult 0 True" by (cases e) auto
  have st: "delay_ok st" "adaptive_enabled (delay_config st)" using good by (auto simp: enabled_with_def)
  note r = record_success[OF st]
  have top: "maximum_milliseconds (next_delay e st) = maximum_milliseconds st"
    using r(1) by (auto simp: e next_delay_def intro: floor_maximum_config)
  show "enabled_with config (next_delay e st)"
    using r(1) good by (simp add: e next_delay_def enabled_with_def)
  show "nat (maximum_milliseconds (next_delay e st) - duration_milliseconds (next_delay e st))
      \<le> nat (maximum_milliseconds st - duration_milliseconds st)"
    unfolding top using r(1) by (intro nat_mono) (simp add: e next_delay_def)
  show "unat (consecutive_successful_unsplit_plans (next_delay e st))
      = unat (consecutive_successful_unsplit_plans st) + 1"
    if "unat (consecutive_successful_unsplit_plans st) < 2" using r(2) that by (simp add: e next_delay_def)
  show "nat (maximum_milliseconds (next_delay e st) - duration_milliseconds (next_delay e st))
      \<le> nat (maximum_milliseconds st - duration_milliseconds st) div 2"
    if "2 \<le> unat (consecutive_successful_unsplit_plans st)"
    unfolding top using r(3)[OF that] by (simp add: e next_delay_def nat_div_distrib[symmetric] nat_mono)
qed (simp add: div_le_mono)

lemma funpow_decrement: "((\<lambda>n. n - 1) ^^ k) n = n - (k :: nat)"
  by (induction k) auto

lemma funpow_halve: "((\<lambda>n. n div 2) ^^ k) n = n div (2 ^ k :: nat)"
  by (induction k) (simp_all add: div_mult2_eq[symmetric] mult.commute)

subsection \<open>Streaks count like outcomes\<close>

text \<open>
  What a state reached by the events \<open>es\<close> knows of them: a counter never exceeds the number of like
  outcomes at the end of \<open>es\<close>.
\<close>

definition streaks_counted :: "DelayEvent list \<Rightarrow> AdaptiveFlushDelay \<Rightarrow> bool" where
  "streaks_counted es st \<longleftrightarrow>
     unat (consecutive_split_plans st) \<le> length (takeWhile is_split (rev es))
   \<and> unat (consecutive_successful_unsplit_plans st) \<le> length (takeWhile is_unsplit_success (rev es))
   \<and> (\<not> adaptive_enabled (delay_config st) \<longrightarrow> current_delay st = adaptive_max_delay (delay_config st))"

lemma saturating_Suc_le: "unat (a :: u64) \<le> n \<Longrightarrow> unat (saturating_add a 1) \<le> Suc n"
  by (simp add: unat_saturating_add)

lemma streaks_counted_step:
  assumes "streaks_counted es st" "delay_step st e = Some st'"
  shows "streaks_counted (es @ [e]) st'"
proof (cases e)
  case (Reconfigured config)
  with assms show ?thesis
    by (auto simp: streaks_counted_def reconfigure_def reset_streaks_def clamp_def Let_def split: if_splits)
next
  case (FlushResult s ok)
  with assms show ?thesis
    by (auto simp: streaks_counted_def record_flush_result_def reset_streaks_def set_delay_def Let_def
        word_gt_0 saturating_Suc_le split: if_splits)
qed

lemma delay_run_snoc:
  "delay_run st (es @ [e]) = (case delay_run st es of None \<Rightarrow> None | Some st' \<Rightarrow> delay_step st' e)"
  by (induction es arbitrary: st) (auto split: option.splits)

lemma delay_run_counted:
  "delay_run (new_delay config) es = Some st \<Longrightarrow> streaks_counted es st"
proof (induction es arbitrary: st rule: rev_induct)
  case Nil
  then show ?case by (auto simp: new_delay_def streaks_counted_def)
next
  case (snoc e es)
  then show ?case using streaks_counted_step by (auto simp: delay_run_snoc split: option.splits)
qed

lemma takeWhile_rev_suffix:
  assumes "2 \<le> length (takeWhile P (rev es))"
  shows "\<exists>before a b. es = before @ [a, b] \<and> P a \<and> P b"
proof -
  obtain b a rest where "takeWhile P (rev es) = b # a # rest"
    using assms by (auto simp: Suc_le_length_iff eval_nat_numeral)
  then obtain rest' where r: "rev es = b # a # rest'" and P: "P b" "P a"
    by (cases "rev es"; cases "tl (rev es)") (auto split: if_splits)
  have "es = rev rest' @ [a, b]" using arg_cong[OF r, of rev] by simp
  with P show ?thesis by blast
qed


section \<open>Properties\<close>


definition sample_delay_config :: AdaptiveFlushDelayConfig where
  "sample_delay_config =
     \<lparr>adaptive_enabled = True, adaptive_floor = milliseconds 10, adaptive_max_delay = milliseconds 100\<rparr>"

lemma sample_delay_config_ok: "delay_config_ok sample_delay_config"
  by (simp add: delay_config_ok_def sample_delay_config_def milliseconds_def)

lemma sample_delay_run:
  "delay_run (new_delay sample_delay_config)
     [FlushResult 1 True, FlushResult 1 True, FlushResult 1 True, FlushResult 0 True, FlushResult 0 True]
   = Some \<lparr>delay_config = sample_delay_config, current_delay = milliseconds 87,
       consecutive_split_plans = 0, consecutive_successful_unsplit_plans = 2\<rparr>"
  by code_simp






end
