(* ===== verification/Write_Buffer.thy ===== *)
theory Write_Buffer
  imports Write_Config Producer_Lease
begin

text \<open>
  The buffers of the broker's write path and the plans that are cut from them
  (\<open>write/buffer.rs\<close>).  The channels of the asynchronous runtime are named by numbers: a
  \<open>completion\<close> is the one-shot sender of one produce request, and a \<open>Channel\<close> is a watch channel, both
  of whose ends are written as its number.  The values of the watch channels are kept with the write
  state; what is sent on one-shot channels is returned by the operations that send it.
\<close>

section \<open>Flush progress\<close>

datatype FlushCompletionError = LeaseFenceLost | InternalFailure

datatype FlushPublicationResult = Succeeded | Failed FlushCompletionError

datatype FlushPublicationState =
    PublicationPending
  | SegmentIdentityAssigned
  | Completed FlushPublicationResult

type_synonym FlushCompletion = nat
type_synonym Channel = nat
type_synonym FlushPublicationDependency = Channel

text \<open>A message on a one-shot channel: \<open>Ok(())\<close> is \<open>None\<close>.\<close>

type_synonym sent = "FlushCompletion \<times> FlushCompletionError option"

record FlushPublicationCompletion =
  fpc_topic :: string
  fpc_virtual_partition_id :: VirtualPartitionId
  fpc_state_tx :: Channel

record FlushPartitionResult =
  fpr_topic :: string
  fpr_virtual_partition_id :: VirtualPartitionId
  fpr_error :: "FlushCompletionError option"

section \<open>Buffers\<close>

record BufferedBatch =
  bb_records :: "Record list"
  bb_summary :: BatchSummary
  bb_seq_range :: SeqRange
  bb_acceptance_fence :: "ProducerLeaseFence option"
  bb_completion :: "FlushCompletion option"

datatype FlushTrigger = MaxBytes | MaxDelay | LeaseDrain

record BufferState =
  batches :: "BufferedBatch list"
  buffered_bytes :: u64
  first_buffered_at :: "instant option"

definition empty_buffer :: BufferState where
  "empty_buffer = \<lparr>batches = [], buffered_bytes = 0, first_buffered_at = None\<rparr>"

definition buffer_push :: "BufferState \<Rightarrow> BufferedBatch \<Rightarrow> instant \<Rightarrow> BufferState" where
  "buffer_push buffer batch now =
     buffer\<lparr>first_buffered_at :=
              (case first_buffered_at buffer of None \<Rightarrow> Some now | Some t \<Rightarrow> Some t),
            buffered_bytes :=
              saturating_add (buffered_bytes buffer) (summary_payload_bytes (bb_summary batch)),
            batches := batches buffer @ [batch]\<rparr>"

definition buffer_flush_trigger ::
    "BufferState \<Rightarrow> instant \<Rightarrow> EffectiveFlushConfig \<Rightarrow> FlushTrigger option" where
  "buffer_flush_trigger buffer now config =
     (if batches buffer = [] then None
      else if max_bytes config \<le> buffered_bytes buffer then Some MaxBytes
      else case first_buffered_at buffer of
             None \<Rightarrow> None
           | Some t \<Rightarrow> if max_delay config \<le> now - t then Some MaxDelay else None)"

definition time_deadline :: "BufferState \<Rightarrow> EffectiveFlushConfig \<Rightarrow> instant option" where
  "time_deadline buffer config = map_option (\<lambda>t. t + max_delay config) (first_buffered_at buffer)"

definition is_time_due :: "BufferState \<Rightarrow> instant \<Rightarrow> EffectiveFlushConfig \<Rightarrow> bool" where
  "is_time_due buffer now config =
     (case time_deadline buffer config of None \<Rightarrow> False | Some deadline \<Rightarrow> deadline \<le> now)"

definition buffer_reset :: "BufferState \<Rightarrow> BufferState" where
  "buffer_reset buffer = buffer\<lparr>batches := [], buffered_bytes := 0, first_buffered_at := None\<rparr>"

definition batch_completions :: "BufferedBatch list \<Rightarrow> FlushCompletion list" where
  "batch_completions bs = List.map_filter bb_completion bs"

definition buffer_discard :: "BufferState \<Rightarrow> FlushCompletion list \<times> BufferState" where
  "buffer_discard buffer =
     (batch_completions (batches buffer),
      buffer\<lparr>buffered_bytes := 0, first_buffered_at := None, batches := []\<rparr>)"

section \<open>Flush plans\<close>

record FlushPartition =
  fp_virtual_partition_id :: VirtualPartitionId
  fp_lease_fence :: "ProducerLeaseFence option"
  fp_batches :: "BufferedBatch list"
  fp_trigger :: FlushTrigger
  fp_publication_predecessor :: "FlushPublicationDependency option"
  fp_publication_state_tx :: "Channel option"

record TopicFlushPlan =
  tfp_topic :: string
  tfp_partitions :: "FlushPartition list"
  tfp_max_metadata_publication_lag :: duration
  tfp_metadata_window_size :: duration
  tfp_fenced_metadata_writes :: bool

record FlushPlan =
  plan_topics :: "TopicFlushPlan list"
  plan_max_segment_bytes :: u64
  plan_publication_completions :: "FlushPublicationCompletion list"

section \<open>Lemmas\<close>

text \<open>
  The invariant of a buffer: it remembers a first arrival exactly while it holds batches, and an
  empty buffer counts no bytes.
\<close>

definition buffer_ok :: "BufferState \<Rightarrow> bool" where
  "buffer_ok buffer \<longleftrightarrow> (first_buffered_at buffer = None \<longleftrightarrow> batches buffer = [])
     \<and> (batches buffer = [] \<longrightarrow> buffered_bytes buffer = 0)"

lemma buffer_ok_simps [simp]:
  "buffer_ok empty_buffer" "buffer_ok (buffer_reset buffer)" "buffer_ok (snd (buffer_discard buffer))"
  by (simp_all add: buffer_ok_def empty_buffer_def buffer_reset_def buffer_discard_def)

lemma buffer_ok_push: "buffer_ok buffer \<Longrightarrow> buffer_ok (buffer_push buffer batch now)"
  by (auto simp: buffer_ok_def buffer_push_def split: option.splits)

lemma buffer_batches_simps [simp]:
  "batches empty_buffer = []" "batches (buffer_reset buffer) = []"
  "batches (buffer_push buffer batch now) = batches buffer @ [batch]"
  "batches (snd (buffer_discard buffer)) = []"
  "fst (buffer_discard buffer) = batch_completions (batches buffer)"
  by (simp_all add: empty_buffer_def buffer_reset_def buffer_push_def buffer_discard_def)

lemma batch_completions_simps [simp]:
  "batch_completions [] = []"
  "batch_completions (b # bs) = (case bb_completion b of None \<Rightarrow> [] | Some c \<Rightarrow> [c]) @ batch_completions bs"
  "batch_completions (bs @ cs) = batch_completions bs @ batch_completions cs"
  by (simp_all add: batch_completions_def map_filter_simps map_filter_def split: option.splits)

end
