(* ===== verification/Discovery.thy ===== *)
theory Discovery
  imports Types
begin

text \<open>
  Broker membership and placement (\<open>blob-stream-broker-discovery/src/lib.rs\<close>): the partition inventory
  of a writer, the balanced assignment of partitions to brokers and the rendezvous owners of metadata
  windows and blobs.  The standard library leaves the algorithm of \<open>DefaultHasher\<close> open, so the hash of
  the written values is a parameter.
\<close>

section \<open>Data\<close>

record BrokerNode =
  node_id :: string
  node_address :: string

datatype BrokerMembership = Pending | Initialized "BrokerNode list"

definition membership_nodes :: "BrokerMembership \<Rightarrow> BrokerNode list option" where
  "membership_nodes m = (case m of Pending \<Rightarrow> None | Initialized nodes \<Rightarrow> Some nodes)"

datatype BrokerPartition = BrokerPartition (bp_topic: string) (bp_virtual_partition_id: u32)

text \<open>The derived order compares the fields in turn.\<close>

instantiation BrokerPartition :: linorder
begin

definition less_eq_BrokerPartition :: "BrokerPartition \<Rightarrow> BrokerPartition \<Rightarrow> bool" where
  "p \<le> q \<longleftrightarrow> (bp_topic p, bp_virtual_partition_id p) \<le> (bp_topic q, bp_virtual_partition_id q)"

definition less_BrokerPartition :: "BrokerPartition \<Rightarrow> BrokerPartition \<Rightarrow> bool" where
  "p < q \<longleftrightarrow> (bp_topic p, bp_virtual_partition_id p) < (bp_topic q, bp_virtual_partition_id q)"

instance
proof
  fix p q r :: BrokerPartition
  show "p < q \<longleftrightarrow> p \<le> q \<and> \<not> q \<le> p" "p \<le> p" "p \<le> q \<or> q \<le> p"
    by (auto simp: less_eq_BrokerPartition_def less_BrokerPartition_def)
  show "p \<le> q \<Longrightarrow> q \<le> r \<Longrightarrow> p \<le> r"
    unfolding less_eq_BrokerPartition_def by (rule order_trans)
  show "p \<le> q \<Longrightarrow> q \<le> p \<Longrightarrow> p = q"
    unfolding less_eq_BrokerPartition_def by (rule BrokerPartition.expand) (metis order_antisym prod.inject)
qed

end

text \<open>The values written to a hasher.\<close>

datatype hash_value = HashStr string | HashU32 u32 | HashI64 int

type_synonym default_hasher = "hash_value list \<Rightarrow> u64"

section \<open>Iterator and slice operations\<close>

text \<open>\<open>Iterator::max_by\<close> keeps the later of two elements unless the earlier compares greater.\<close>

definition max_by :: "('a \<Rightarrow> 'a \<Rightarrow> bool) \<Rightarrow> 'a list \<Rightarrow> 'a option" where
  "max_by gt xs =
     (case xs of [] \<Rightarrow> None | x # rest \<Rightarrow> Some (foldl (\<lambda>m y. if gt m y then m else y) x rest))"

text \<open>\<open>Vec::dedup_by\<close> removes an element that falls into the bucket of the element kept before it.\<close>

fun dedup_by :: "('a \<Rightarrow> 'a \<Rightarrow> bool) \<Rightarrow> 'a list \<Rightarrow> 'a list" where
  "dedup_by same [] = []"
| "dedup_by same [x] = [x]"
| "dedup_by same (x # y # xs) = (if same y x then dedup_by same (x # xs) else x # dedup_by same (y # xs))"

section \<open>Operations\<close>

text \<open>The debug assertions of the source hold for validated topics and are not part of a release build.\<close>

definition writer_topic_partitions :: "u32 \<Rightarrow> string \<times> u32 \<times> u32 \<Rightarrow> BrokerPartition list" where
  "writer_topic_partitions writer_id entry =
     (case entry of (topic, partition_count, num_writers) \<Rightarrow>
       let virtual_partition_start = saturating_mul writer_id partition_count;
           virtual_partition_end = saturating_add virtual_partition_start partition_count
       in map (\<lambda>i. BrokerPartition topic (of_nat i))
            [unat virtual_partition_start ..< unat virtual_partition_end])"

definition writer_virtual_partitions :: "(string \<times> u32 \<times> u32) list \<Rightarrow> u32 \<Rightarrow> BrokerPartition list" where
  "writer_virtual_partitions topics writer_id = concat (map (writer_topic_partitions writer_id) topics)"

definition canonical_nodes :: "BrokerMembership \<Rightarrow> BrokerNode list" where
  "canonical_nodes membership =
     dedup_by (\<lambda>left right. node_id left = node_id right)
       (sort_key (\<lambda>node. (node_id node, node_address node))
         (case membership_nodes membership of Some nodes \<Rightarrow> nodes | None \<Rightarrow> []))"

definition rendezvous_score :: "default_hasher \<Rightarrow> BrokerPartition \<Rightarrow> string \<Rightarrow> u64" where
  "rendezvous_score hasher p node =
     hasher [HashStr (bp_topic p), HashU32 (bp_virtual_partition_id p), HashStr node]"

definition metadata_window_score :: "default_hasher \<Rightarrow> string \<times> int \<Rightarrow> string \<Rightarrow> u64" where
  "metadata_window_score hasher window node =
     hasher [HashStr (fst window), HashI64 (snd window), HashStr node]"

definition blob_key_score :: "default_hasher \<Rightarrow> string \<Rightarrow> string \<Rightarrow> u64" where
  "blob_key_score hasher blob_key node = hasher [HashStr blob_key, HashStr node]"

text \<open>The comparison of the three selections: by score, then the smaller id wins.\<close>

definition prefers :: "(string \<Rightarrow> u64) \<Rightarrow> BrokerNode \<Rightarrow> BrokerNode \<Rightarrow> bool" where
  "prefers score left right \<longleftrightarrow>
     score (node_id right) < score (node_id left) \<or>
     score (node_id left) = score (node_id right) \<and> node_id left < node_id right"

definition metadata_window_owner ::
    "default_hasher \<Rightarrow> string \<times> int \<Rightarrow> BrokerMembership \<Rightarrow> BrokerNode option" where
  "metadata_window_owner hasher window membership =
     max_by (prefers (metadata_window_score hasher window)) (canonical_nodes membership)"

definition blob_key_owner :: "default_hasher \<Rightarrow> string \<Rightarrow> BrokerMembership \<Rightarrow> BrokerNode option" where
  "blob_key_owner hasher blob_key membership =
     max_by (prefers (blob_key_score hasher blob_key)) (canonical_nodes membership)"

text \<open>
  The loop of \<open>balanced_assignment\<close> over the ordered partitions, with the loads per node id and the
  assignments made so far; \<open>None\<close> is the panic of \<open>expect\<close>.
\<close>

definition minimum_load :: "(string, nat) hmap \<Rightarrow> nat" where
  "minimum_load loads = (case map snd loads of [] \<Rightarrow> 0 | v # vs \<Rightarrow> fold min vs v)"

definition pick_owner :: "default_hasher \<Rightarrow> BrokerNode list \<Rightarrow> (string, nat) hmap \<Rightarrow> BrokerPartition \<Rightarrow> BrokerNode option" where
  "pick_owner hasher nodes loads p =
     max_by (prefers (rendezvous_score hasher p))
       (filter (\<lambda>node. hm_get loads (node_id node) = Some (minimum_load loads)) nodes)"

fun assign_loop ::
    "default_hasher \<Rightarrow> BrokerNode list \<Rightarrow> (string, nat) hmap \<Rightarrow> (BrokerPartition, BrokerNode) hmap
     \<Rightarrow> BrokerPartition list \<Rightarrow> (BrokerPartition, BrokerNode) hmap option" where
  "assign_loop hasher nodes loads assignments [] = Some assignments"
| "assign_loop hasher nodes loads assignments (p # ps) =
     (case pick_owner hasher nodes loads p of
        None \<Rightarrow> None
      | Some owner \<Rightarrow>
          assign_loop hasher nodes
            (hm_insert (node_id owner)
              ((case hm_get loads (node_id owner) of Some n \<Rightarrow> n | None \<Rightarrow> 0) + 1) loads)
            (hm_insert p owner assignments) ps)"

definition balanced_assignment ::
    "default_hasher \<Rightarrow> BrokerPartition list \<Rightarrow> BrokerMembership \<Rightarrow> (BrokerPartition, BrokerNode) hmap option" where
  "balanced_assignment hasher partitions membership =
     (let ordered = sort (remdups partitions); nodes = canonical_nodes membership
      in if nodes = [] then Some []
         else assign_loop hasher nodes (map (\<lambda>node. (node_id node, 0)) nodes) [] ordered)"

text \<open>
  Waiting for the first snapshot, over the values the watch channel delivers in turn; \<open>None\<close> is the
  error when the channel closes first.
\<close>

fun wait_for_initialized_membership :: "BrokerMembership list \<Rightarrow> BrokerMembership option" where
  "wait_for_initialized_membership [] = None"
| "wait_for_initialized_membership (m # ms) =
     (case m of Initialized nodes \<Rightarrow> Some m | Pending \<Rightarrow> wait_for_initialized_membership ms)"

section \<open>Lemmas on the iterator operations\<close>

lemma foldl_max_by:
  assumes trans: "\<And>a b c. gt a b \<Longrightarrow> gt b c \<Longrightarrow> gt a c"
    and total: "\<And>a b. a \<in> set (x # xs) \<Longrightarrow> b \<in> set (x # xs) \<Longrightarrow> a = b \<or> gt a b \<or> gt b a"
  shows "foldl (\<lambda>m y. if gt m y then m else y) x xs \<in> set (x # xs) \<and>
    (\<forall>y \<in> set (x # xs). y = foldl (\<lambda>m y. if gt m y then m else y) x xs
       \<or> gt (foldl (\<lambda>m y. if gt m y then m else y) x xs) y)"
  using total
proof (induction xs rule: rev_induct)
  case Nil
  then show ?case by simp
next
  case (snoc z xs)
  let ?m = "foldl (\<lambda>m y. if gt m y then m else y) x xs"
  have ih: "?m \<in> set (x # xs)" "\<forall>y \<in> set (x # xs). y = ?m \<or> gt ?m y"
    using snoc by auto
  show ?case
  proof (cases "gt ?m z")
    case True
    with ih show ?thesis by auto
  next
    case False
    then have z: "z = ?m \<or> gt z ?m" using snoc.prems[of z ?m] ih(1) by auto
    have "y = z \<or> gt z y" if "y \<in> set (x # xs)" for y
      using ih(2) that z trans[of z ?m y] by auto
    with False show ?thesis by auto
  qed
qed

lemma max_by_Some:
  assumes trans: "\<And>a b c. gt a b \<Longrightarrow> gt b c \<Longrightarrow> gt a c"
    and irrefl: "\<And>a b. gt a b \<Longrightarrow> \<not> gt b a"
    and total: "\<And>a b. a \<in> set xs \<Longrightarrow> b \<in> set xs \<Longrightarrow> a = b \<or> gt a b \<or> gt b a"
  shows "max_by gt xs = Some m \<longleftrightarrow> m \<in> set xs \<and> (\<forall>y \<in> set xs. y = m \<or> gt m y)"
proof (cases xs)
  case Nil
  then show ?thesis by (simp add: max_by_def)
next
  case (Cons x rest)
  let ?m = "foldl (\<lambda>m y. if gt m y then m else y) x rest"
  have "?m \<in> set xs \<and> (\<forall>y \<in> set xs. y = ?m \<or> gt ?m y)"
    using foldl_max_by[of gt x rest] trans total Cons by blast
  then have m: "?m \<in> set xs" "\<And>y. y \<in> set xs \<Longrightarrow> y = ?m \<or> gt ?m y" by auto
  have "max_by gt xs = Some ?m" using Cons by (simp add: max_by_def)
  moreover have "m = ?m" if "m \<in> set xs" "\<forall>y \<in> set xs. y = m \<or> gt m y"
    using m(2)[of m] that m(1) irrefl[of m ?m] by auto
  ultimately show ?thesis using m by auto
qed

section \<open>Canonical membership\<close>

lemma dedup_by_head: "dedup_by same (x # xs) \<noteq> [] \<and> hd (dedup_by same (x # xs)) = x"
  by (induction same "x # xs" arbitrary: x xs rule: dedup_by.induct) auto

lemma set_dedup_by_subset: "set (dedup_by same xs) \<subseteq> set xs"
  by (induction same xs rule: dedup_by.induct) auto

text \<open>On a list sorted by bucket and then by rank, the first of every bucket is kept.\<close>

lemma dedup_by_sorted:
  fixes g :: "'a \<Rightarrow> 'b::linorder" and h :: "'a \<Rightarrow> 'c::linorder"
  assumes "sorted (map (\<lambda>x. (g x, h x)) xs)" and "inj (\<lambda>x. (g x, h x))"
  shows "set (dedup_by (\<lambda>x y. g x = g y) xs) = {x \<in> set xs. \<forall>y \<in> set xs. g y = g x \<longrightarrow> h x \<le> h y}
    \<and> sorted_wrt (<) (map g (dedup_by (\<lambda>x y. g x = g y) xs))"
  using assms(1)
proof (induction "\<lambda>x y. g x = g y" xs rule: dedup_by.induct)
  case 1
  then show ?case by simp
next
  case (2 x)
  then show ?case by auto
next
  case (3 x y xs)
  show ?case
  proof (cases "g y = g x")
    case True
    then have "h x \<le> h y" using "3.prems" by auto
    moreover have "x = y" if "h x = h y" using True that assms(2) by (auto simp: inj_def)
    ultimately show ?thesis
      using 3 True by (auto simp: sorted_wrt_map)
  next
    case False
    then have "g x < g y" using "3.prems" by auto
    moreover have "g y \<le> g z" if "z \<in> set xs" for z using "3.prems" that by auto
    ultimately have lt: "\<forall>z \<in> set (y # xs). g x < g z" by (auto intro: order_less_le_trans)
    then show ?thesis
      using 3 False set_dedup_by_subset[of "\<lambda>x y. g x = g y" "y # xs"] by (auto; fastforce)
  qed
qed

lemma sorted_by_key_unique:
  assumes "sorted_wrt (<) (map (g :: 'a \<Rightarrow> 'b::linorder) xs)" "sorted_wrt (<) (map g ys)" "set xs = set ys"
  shows "xs = ys"
proof -
  have "map g xs = map g ys"
    using assms by (intro sorted_distinct_set_unique) (auto simp: strict_sorted_iff)
  moreover have "inj_on g (set xs \<union> set ys)"
    using assms by (simp add: strict_sorted_iff distinct_map)
  ultimately show ?thesis by (rule map_inj_on)
qed

definition canonical_set :: "BrokerNode set \<Rightarrow> BrokerNode set" where
  "canonical_set ns = {n \<in> ns. \<forall>m \<in> ns. node_id m = node_id n \<longrightarrow> node_address n \<le> node_address m}"

lemma inj_node_key: "inj (\<lambda>node :: BrokerNode. (node_id node, node_address node))"
  by (rule injI) simp

lemma canonical_nodes_Initialized:
  "set (canonical_nodes (Initialized ns)) = canonical_set (set ns)"
  "sorted_wrt (<) (map node_id (canonical_nodes (Initialized ns)))"
proof -
  let ?sorted = "sort_key (\<lambda>node. (node_id node, node_address node)) ns"
  have "sorted (map (\<lambda>node. (node_id node, node_address node)) ?sorted)" by (rule sorted_sort_key)
  from dedup_by_sorted[OF this inj_node_key]
  show "set (canonical_nodes (Initialized ns)) = canonical_set (set ns)"
    "sorted_wrt (<) (map node_id (canonical_nodes (Initialized ns)))"
    by (simp_all add: canonical_nodes_def membership_nodes_def canonical_set_def)
qed

lemma canonical_nodes_set_determined:
  "set ns = set ns' \<Longrightarrow> canonical_nodes (Initialized ns) = canonical_nodes (Initialized ns')"
  using canonical_nodes_Initialized sorted_by_key_unique by metis

lemma canonical_nodes_Pending [simp]: "canonical_nodes Pending = []"
  by (simp add: canonical_nodes_def membership_nodes_def)

lemma canonical_nodes_ids_distinct: "distinct (map node_id (canonical_nodes m))"
  using canonical_nodes_Initialized(2) by (cases m) (auto simp: strict_sorted_iff)

lemma canonical_nodes_empty: "canonical_nodes (Initialized ns) = [] \<longleftrightarrow> ns = []"
proof (cases "sort_key (\<lambda>node. (node_id node, node_address node)) ns")
  case Nil
  then have "ns = []" by (metis length_sort length_0_conv)
  then show ?thesis by (simp add: canonical_nodes_def membership_nodes_def)
next
  case (Cons x xs)
  then have "ns \<noteq> []" by auto
  with Cons dedup_by_head[of _ x xs] show ?thesis by (simp add: canonical_nodes_def membership_nodes_def)
qed

section \<open>Rendezvous owners\<close>

lemma prefers_order:
  "prefers score a b \<Longrightarrow> prefers score b c \<Longrightarrow> prefers score a c"
  "prefers score a b \<Longrightarrow> \<not> prefers score b a"
  "node_id a \<noteq> node_id b \<Longrightarrow> prefers score a b \<or> prefers score b a"
  by (auto simp: prefers_def)

lemma max_by_prefers:
  assumes "inj_on node_id (set nodes)"
  shows "max_by (prefers score) nodes = Some n \<longleftrightarrow> n \<in> set nodes \<and> (\<forall>m \<in> set nodes. m = n \<or> prefers score n m)"
  using assms by (intro max_by_Some) (auto simp: inj_on_def dest: prefers_order)

lemma max_by_None: "max_by gt xs = None \<longleftrightarrow> xs = []"
  by (simp add: max_by_def split: list.splits)

text \<open>
  What the readers of window and blob owners rely on: some node of the membership owns every key, the
  choice depends on the set of nodes only, and a node that leaves moves only the keys it owned.
\<close>

locale rendezvous_owner =
  fixes score :: "'k \<Rightarrow> string \<Rightarrow> u64" and owner :: "'k \<Rightarrow> BrokerMembership \<Rightarrow> BrokerNode option"
  assumes owner_max_by: "owner key m = max_by (prefers (score key)) (canonical_nodes m)"
begin

lemma owner_iff:
  "owner key m = Some n \<longleftrightarrow>
     n \<in> set (canonical_nodes m) \<and> (\<forall>n' \<in> set (canonical_nodes m). n' = n \<or> prefers (score key) n n')"
  unfolding owner_max_by using canonical_nodes_ids_distinct[of m] by (intro max_by_prefers) (simp add: distinct_map)

lemma owner_exists: "ns \<noteq> [] \<Longrightarrow> \<exists>n \<in> set ns. owner key (Initialized ns) = Some n"
proof -
  assume "ns \<noteq> []"
  then obtain n where n: "owner key (Initialized ns) = Some n"
    using max_by_None canonical_nodes_empty by (metis owner_max_by option.exhaust)
  then have "n \<in> canonical_set (set ns)" using owner_iff canonical_nodes_Initialized(1) by blast
  with n show ?thesis by (auto simp: canonical_set_def)
qed

lemma owner_set_determined: "set ns = set ns' \<Longrightarrow> owner key (Initialized ns) = owner key (Initialized ns')"
  unfolding owner_max_by using canonical_nodes_set_determined by metis

lemma owner_survives_leave:
  assumes "owner key (Initialized ns) = Some n" "set ns' \<subseteq> set ns" "n \<in> set ns'" "inj_on node_id (set ns)"
  shows "owner key (Initialized ns') = Some n"
proof -
  have "canonical_set (set ns) = set ns" "canonical_set (set ns') = set ns'"
    using assms(2,4) by (auto simp: canonical_set_def inj_on_def)
  with assms show ?thesis
    unfolding owner_iff canonical_nodes_Initialized by blast
qed

end

interpretation window_owner: rendezvous_owner "metadata_window_score hasher" "metadata_window_owner hasher" for hasher
  by unfold_locales (simp add: metadata_window_owner_def)

interpretation blob_owner: rendezvous_owner "blob_key_score hasher" "blob_key_owner hasher" for hasher
  by unfold_locales (simp add: blob_key_owner_def)

section \<open>Balanced assignment\<close>

definition load_of :: "(BrokerPartition, BrokerNode) hmap \<Rightarrow> string \<Rightarrow> nat" where
  "load_of assignments i = length (filter (\<lambda>(p, n). node_id n = i) assignments)"

definition loads_match ::
    "BrokerNode list \<Rightarrow> (string, nat) hmap \<Rightarrow> (BrokerPartition, BrokerNode) hmap \<Rightarrow> bool" where
  "loads_match nodes loads assignments \<longleftrightarrow>
     hm_ok loads \<and> fst ` set loads = node_id ` set nodes
     \<and> (\<forall>n \<in> set nodes. hm_get loads (node_id n) = Some (load_of assignments (node_id n)))"

definition balanced :: "BrokerNode list \<Rightarrow> (BrokerPartition, BrokerNode) hmap \<Rightarrow> bool" where
  "balanced nodes assignments \<longleftrightarrow>
     (\<forall>n \<in> set nodes. \<forall>m \<in> set nodes. load_of assignments (node_id n) \<le> load_of assignments (node_id m) + 1)"

lemma minimum_load_Min: "loads \<noteq> [] \<Longrightarrow> minimum_load loads = Min (snd ` set loads)"
  by (cases loads) (simp_all add: minimum_load_def Min.set_eq_fold[symmetric] del: Min.set_eq_fold)

lemma loads_match_values:
  assumes "loads_match nodes loads assignments"
  shows "snd ` set loads = (\<lambda>n. load_of assignments (node_id n)) ` set nodes"
proof -
  have "hm_ok loads" "fst ` set loads = node_id ` set nodes"
    and get: "\<And>n. n \<in> set nodes \<Longrightarrow> hm_get loads (node_id n) = Some (load_of assignments (node_id n))"
    using assms by (auto simp: loads_match_def)
  have "\<exists>n \<in> set nodes. v = load_of assignments (node_id n)" if iv: "(i, v) \<in> set loads" for i v
  proof -
    have "i \<in> node_id ` set nodes"
      using iv \<open>fst ` set loads = node_id ` set nodes\<close> by (metis fst_conv image_eqI)
    then obtain n where n: "n \<in> set nodes" "i = node_id n" by blast
    have "hm_get loads i = Some v" using iv \<open>hm_ok loads\<close> by simp
    with get[OF n(1)] n show ?thesis by auto
  qed
  then have "snd ` set loads \<subseteq> (\<lambda>n. load_of assignments (node_id n)) ` set nodes"
    by (intro image_subsetI) (auto simp: image_iff)
  moreover have "load_of assignments (node_id n) \<in> snd ` set loads" if "n \<in> set nodes" for n
    using map_of_SomeD[OF get[OF that]] by (metis image_eqI snd_conv)
  ultimately show ?thesis by blast
qed

lemma pick_owner_minimal:
  assumes "loads_match nodes loads assignments" "nodes \<noteq> []" "distinct (map node_id nodes)"
  shows "\<exists>owner. pick_owner hasher nodes loads p = Some owner \<and> owner \<in> set nodes
    \<and> (\<forall>n \<in> set nodes. load_of assignments (node_id owner) \<le> load_of assignments (node_id n))"
proof -
  let ?load = "\<lambda>n. load_of assignments (node_id n)"
  let ?least = "filter (\<lambda>n. hm_get loads (node_id n) = Some (minimum_load loads)) nodes"
  have vals: "snd ` set loads = ?load ` set nodes" by (rule loads_match_values[OF assms(1)])
  have "loads \<noteq> []" using assms(1,2) by (auto simp: loads_match_def)
  then have min: "minimum_load loads = Min (?load ` set nodes)" using vals minimum_load_Min by simp
  have "Min (?load ` set nodes) \<in> ?load ` set nodes" using assms(2) by (intro Min_in) auto
  then obtain n where "n \<in> set nodes" "?load n = minimum_load loads" using min by auto
  then have "n \<in> set ?least" using assms(1) by (simp add: loads_match_def del: map_of_eq_Some_iff)
  from length_pos_if_in_set[OF this] have "?least \<noteq> []" by (rule length_greater_0_conv[THEN iffD1])
  then have "pick_owner hasher nodes loads p \<noteq> None" unfolding pick_owner_def max_by_None .
  then obtain owner where o: "pick_owner hasher nodes loads p = Some owner" by blast
  have "inj_on node_id (set ?least)" using assms(3) by (auto simp: distinct_map inj_on_def)
  from o max_by_prefers[OF this] have "owner \<in> set ?least" unfolding pick_owner_def by blast
  then have "owner \<in> set nodes" "?load owner = minimum_load loads"
    using assms(1) by (auto simp: loads_match_def simp del: map_of_eq_Some_iff)
  with o min show ?thesis by simp
qed

lemma load_of_insert:
  "p \<notin> fst ` set assignments \<Longrightarrow>
     load_of (assignments @ [(p, owner)]) i = load_of assignments i + (if node_id owner = i then 1 else 0)"
  by (simp add: load_of_def)

lemma assign_loop_balanced:
  assumes "loads_match nodes loads assignments" "balanced nodes assignments" "nodes \<noteq> []" "distinct (map node_id nodes)"
    and "distinct (map fst assignments @ ps)" "snd ` set assignments \<subseteq> set nodes"
  shows "\<exists>result. assign_loop hasher nodes loads assignments ps = Some result
    \<and> map fst result = map fst assignments @ ps \<and> snd ` set result \<subseteq> set nodes \<and> balanced nodes result"
  using assms
proof (induction ps arbitrary: loads assignments)
  case Nil
  then show ?case by simp
next
  case (Cons p ps)
  obtain owner where ow: "pick_owner hasher nodes loads p = Some owner" "owner \<in> set nodes"
    and least: "\<forall>n \<in> set nodes. load_of assignments (node_id owner) \<le> load_of assignments (node_id n)"
    using pick_owner_minimal[OF Cons.prems(1,3,4)] by blast
  let ?as = "assignments @ [(p, owner)]"
  have fresh: "p \<notin> fst ` set assignments" using Cons.prems(5) by auto
  let ?loads = "hm_insert (node_id owner) ((case hm_get loads (node_id owner) of Some n \<Rightarrow> n | None \<Rightarrow> 0) + 1) loads"
  have "hm_ok ?loads" using Cons.prems(1) by (simp add: loads_match_def hm_ok_insert)
  moreover have "fst ` set ?loads = node_id ` set nodes"
    using Cons.prems(1) ow(2) by (simp add: loads_match_def dom_update insert_absorb)
  moreover have "hm_get ?loads (node_id n) = Some (load_of ?as (node_id n))" if "n \<in> set nodes" for n
    using Cons.prems(1) ow(2) fresh that unfolding loads_match_def hm_get_insert load_of_insert[OF fresh] by simp
  ultimately have "loads_match nodes ?loads ?as" unfolding loads_match_def by blast
  moreover have "balanced nodes ?as"
    using Cons.prems(2) least fresh by (auto simp: balanced_def load_of_insert intro: le_SucI)
  ultimately show ?case
    using Cons.IH[of ?loads ?as] Cons.prems(3-6) ow fresh by (simp add: hm_insert_fresh)
qed

lemma balanced_assignment_result:
  assumes "ns \<noteq> []"
  shows "\<exists>result. balanced_assignment hasher partitions (Initialized ns) = Some result
    \<and> map fst result = sort (remdups partitions) \<and> snd ` set result \<subseteq> set (canonical_nodes (Initialized ns))
    \<and> balanced (canonical_nodes (Initialized ns)) result"
proof -
  let ?nodes = "canonical_nodes (Initialized ns)"
  have ids: "distinct (map node_id ?nodes)" by (rule canonical_nodes_ids_distinct)
  have ne: "?nodes \<noteq> []" using assms canonical_nodes_empty by blast
  have "hm_get (map (\<lambda>node. (node_id node, 0)) nodes) (node_id n) = Some 0" if "n \<in> set nodes" for n nodes
    using that by (induction nodes) auto
  then have "loads_match ?nodes (map (\<lambda>node. (node_id node, 0)) ?nodes) []"
    using ids by (simp add: loads_match_def load_of_def comp_def image_image del: map_of_eq_Some_iff)
  moreover have "balanced ?nodes []" by (simp add: balanced_def load_of_def)
  ultimately show ?thesis
    using assign_loop_balanced[of ?nodes "map (\<lambda>node. (node_id node, 0)) ?nodes" "[]" "sort (remdups partitions)" hasher] ne ids
    by (simp add: balanced_assignment_def Let_def)
qed

lemma unat_of_nat_u32: "i \<le> unat (w :: u32) \<Longrightarrow> unat (of_nat i :: u32) = i"
  using u32_bound[of w] by (simp add: unat_of_nat)

lemma writer_topic_partitions_exact:
  assumes "virtual_partition_count n writers = Inr vp_total" "writer < writers"
  shows "set (writer_topic_partitions writer (topic, n, writers)) =
      {BrokerPartition topic vp | vp. unat writer * unat n \<le> unat vp \<and> unat vp < (unat writer + 1) * unat n}"
    and "distinct (writer_topic_partitions writer (topic, n, writers))"
proof -
  let ?s = "saturating_mul writer n" and ?e = "saturating_add (saturating_mul writer n) n"
  have "unat n * unat writers < 2 ^ 32"
    using assms(1) u32_bound[of vp_total] by (auto simp: virtual_partition_count_def machine_int split: option.splits)
  moreover have "unat writer * unat n + unat n \<le> unat writers * unat n"
    using assms(2) by (metis Suc_leI mult_Suc mult_le_mono1 add.commute word_less_nat_alt)
  ultimately have fits: "unat writer * unat n + unat n < 2 ^ 32" by (simp add: mult.commute)
  then have s: "unat ?s = unat writer * unat n" and e: "unat ?e = (unat writer + 1) * unat n"
    by (simp_all add: machine_int)
  have eq: "writer_topic_partitions writer (topic, n, writers) = map (\<lambda>i. BrokerPartition topic (of_nat i)) [unat ?s ..< unat ?e]"
    by (simp add: writer_topic_partitions_def Let_def)
  have "BrokerPartition topic vp \<in> set (writer_topic_partitions writer (topic, n, writers))"
    if "unat ?s \<le> unat vp" "unat vp < unat ?e" for vp
    using that unfolding eq by (auto simp: image_iff intro!: bexI[of _ "unat vp"])
  then show "set (writer_topic_partitions writer (topic, n, writers)) =
      {BrokerPartition topic vp | vp. unat writer * unat n \<le> unat vp \<and> unat vp < (unat writer + 1) * unat n}"
    using unat_of_nat_u32[of _ ?e] unfolding s[symmetric] e[symmetric] by (auto simp: eq)
  show "distinct (writer_topic_partitions writer (topic, n, writers))"
    unfolding eq distinct_map using unat_of_nat_u32[of _ ?e] by (auto simp: inj_on_def) (metis less_or_eq_imp_le)
qed

section \<open>Properties\<close>

text \<open>
  Claim C19.  For a nonempty membership the assignment never fails: it covers exactly the requested
  partitions, once each and in order, every owner is a member, and the loads of any two members differ
  by at most one.
\<close>

theorem balanced_assignment_total_and_balanced:
  assumes "ns \<noteq> []"
  shows "\<exists>result. balanced_assignment hasher partitions (Initialized ns) = Some result
    \<and> map fst result = sort (remdups partitions) \<and> snd ` set result \<subseteq> set ns
    \<and> (\<forall>n \<in> set (canonical_nodes (Initialized ns)). \<forall>m \<in> set (canonical_nodes (Initialized ns)).
         load_of result (node_id n) \<le> load_of result (node_id m) + 1)"
  using balanced_assignment_result[OF assms, of hasher partitions] canonical_nodes_Initialized(1)[of ns]
  by (auto simp: balanced_def canonical_set_def)

theorem balanced_assignment_total_and_balanced_witness:
  "let ns = [\<lparr>node_id = ''b'', node_address = ''2''\<rparr>, \<lparr>node_id = ''a'', node_address = ''1''\<rparr>]
   in \<exists>result. balanced_assignment (\<lambda>_. 0) [BrokerPartition ''t'' 2, BrokerPartition ''t'' 0, BrokerPartition ''t'' 2]
        (Initialized ns) = Some result
      \<and> map fst result = [BrokerPartition ''t'' 0, BrokerPartition ''t'' 2] \<and> snd ` set result \<subseteq> set ns"
proof -
  have "sort (remdups [BrokerPartition ''t'' 2, BrokerPartition ''t'' 0, BrokerPartition ''t'' 2]) =
      [BrokerPartition ''t'' 0, BrokerPartition ''t'' 2]" by code_simp
  then show ?thesis
    using balanced_assignment_total_and_balanced[of
        "[\<lparr>node_id = ''b'', node_address = ''2''\<rparr>, \<lparr>node_id = ''a'', node_address = ''1''\<rparr>]" "\<lambda>_. 0"
        "[BrokerPartition ''t'' 2, BrokerPartition ''t'' 0, BrokerPartition ''t'' 2]"]
    unfolding Let_def by (metis list.distinct(1))
qed

text \<open>
  Claim C25.  All brokers and producers compute the same placement: the assignment and the two
  rendezvous owners depend only on the sets of partitions and nodes, not on the order or the
  duplicates in which discovery reports them.
\<close>

theorem placement_independent_of_report_order:
  assumes "set ns = set ns'" and "set partitions = set partitions'"
  shows "balanced_assignment hasher partitions (Initialized ns) = balanced_assignment hasher partitions' (Initialized ns')
    \<and> metadata_window_owner hasher window (Initialized ns) = metadata_window_owner hasher window (Initialized ns')
    \<and> blob_key_owner hasher blob_key (Initialized ns) = blob_key_owner hasher blob_key (Initialized ns')"
proof -
  have "sort (remdups partitions) = sort (remdups partitions')"
    using assms(2) by (intro sorted_distinct_set_unique) auto
  then show ?thesis
    using canonical_nodes_set_determined[OF assms(1)] window_owner.owner_set_determined[OF assms(1)]
      blob_owner.owner_set_determined[OF assms(1)]
    by (simp add: balanced_assignment_def Let_def)
qed

theorem placement_independent_of_report_order_witness:
  "let a = \<lparr>node_id = ''a'', node_address = ''1''\<rparr>; b = \<lparr>node_id = ''b'', node_address = ''2''\<rparr>
   in balanced_assignment (\<lambda>_. 0) [BrokerPartition ''t'' 2, BrokerPartition ''t'' 0] (Initialized [b, a]) =
      balanced_assignment (\<lambda>_. 0) [BrokerPartition ''t'' 0, BrokerPartition ''t'' 2] (Initialized [a, b, a])"
  unfolding Let_def
  by (rule placement_independent_of_report_order[THEN conjunct1]) auto

text \<open>
  Claim C26.  Rendezvous ownership is stable: every window and blob has an owner among the members, and
  when members other than the owner leave, the owner stays the same.
\<close>

theorem rendezvous_owner_stable:
  assumes "ns \<noteq> []" and "inj_on node_id (set ns)"
  shows "(\<exists>n \<in> set ns. metadata_window_owner hasher window (Initialized ns) = Some n
        \<and> (\<forall>ns'. n \<in> set ns' \<and> set ns' \<subseteq> set ns \<longrightarrow> metadata_window_owner hasher window (Initialized ns') = Some n))
    \<and> (\<exists>n \<in> set ns. blob_key_owner hasher blob_key (Initialized ns) = Some n
        \<and> (\<forall>ns'. n \<in> set ns' \<and> set ns' \<subseteq> set ns \<longrightarrow> blob_key_owner hasher blob_key (Initialized ns') = Some n))"
  using window_owner.owner_exists[OF assms(1), of hasher window] blob_owner.owner_exists[OF assms(1), of hasher blob_key]
    window_owner.owner_survives_leave[OF _ _ _ assms(2)] blob_owner.owner_survives_leave[OF _ _ _ assms(2)]
  by blast

theorem rendezvous_owner_stable_witness:
  "let a = \<lparr>node_id = ''a'', node_address = ''1''\<rparr>; b = \<lparr>node_id = ''b'', node_address = ''2''\<rparr>
   in \<exists>n \<in> set [b, a]. blob_key_owner (\<lambda>_. 0) ''k'' (Initialized [b, a]) = Some n
        \<and> (\<forall>ns'. n \<in> set ns' \<and> set ns' \<subseteq> set [b, a] \<longrightarrow> blob_key_owner (\<lambda>_. 0) ''k'' (Initialized ns') = Some n)"
  unfolding Let_def by (rule rendezvous_owner_stable[THEN conjunct2]) (simp_all add: inj_on_def)

end
