(* ===== verification/Write_State.thy ===== *)
theory Write_State
  imports Write_Buffer Discovery
begin

text \<open>
  The state that the write path of a broker keeps under its mutex (\<open>write/state.rs\<close>): the local
  assignment with its generation, and per partition the buffer, the sequence allocator, the lease and
  the flush bookkeeping.  \<open>Notify\<close> handles carry no data and are left out.  The values of the watch
  channels that partitions and plans refer to are the list \<open>channels\<close>, indexed by channel number.
\<close>

section \<open>Sequence allocator\<close>

record SeqAllocator =
  reservation :: "SeqRange option"
  next_seq :: u64
  sa_last_handed_out_seq :: "u64 option"

definition default_allocator :: SeqAllocator where
  "default_allocator = \<lparr>reservation = None, next_seq = 0, sa_last_handed_out_seq = None\<rparr>"

definition has_reservation :: "SeqAllocator \<Rightarrow> bool" where
  "has_reservation a \<longleftrightarrow> reservation a \<noteq> None"

definition remaining_capacity :: "SeqAllocator \<Rightarrow> u64" where
  "remaining_capacity a =
     (case reservation a of
        None \<Rightarrow> 0
      | Some r \<Rightarrow> (case checked_sub (seq_end r) (next_seq a) of
                    None \<Rightarrow> 0 | Some remaining \<Rightarrow> saturating_add remaining 1))"

definition can_allocate :: "SeqAllocator \<Rightarrow> u64 \<Rightarrow> bool" where
  "can_allocate a n =
     (case reservation a of
        None \<Rightarrow> False
      | Some r \<Rightarrow> n \<noteq> 0 \<and> saturating_add (next_seq a) (saturating_sub n 1) \<le> seq_end r)"

definition allocate :: "SeqAllocator \<Rightarrow> u64 \<Rightarrow> SeqRange option \<times> SeqAllocator" where
  "allocate a n =
     (if \<not> can_allocate a n then (None, a)
      else let start = next_seq a
           in case checked_add start (saturating_sub n 1) of
                None \<Rightarrow> (None, a)
              | Some end_seq \<Rightarrow>
                  (Some \<lparr>seq_start = start, seq_end = end_seq\<rparr>,
                   a\<lparr>next_seq := saturating_add end_seq 1, sa_last_handed_out_seq := Some end_seq\<rparr>))"

definition sequence_progress :: "SeqAllocator \<Rightarrow> ProducerSequenceProgress" where
  "sequence_progress a =
     \<lparr>progress_lease_sequence_start = map_option seq_start (reservation a),
      progress_last_handed_out_seq = sa_last_handed_out_seq a\<rparr>"

definition install_or_extend_reservation :: "SeqAllocator \<Rightarrow> SeqRange \<Rightarrow> SeqAllocator" where
  "install_or_extend_reservation a r =
     (case reservation a of
        None \<Rightarrow> a\<lparr>next_seq := seq_start r, reservation := Some r\<rparr>
      | Some current \<Rightarrow>
          if checked_add (seq_end current) 1 = Some (seq_start r)
          then a\<lparr>reservation := Some (current\<lparr>seq_end := seq_end r\<rparr>)\<rparr>
          else a\<lparr>next_seq := seq_start r, reservation := Some r\<rparr>)"

section \<open>Partition state\<close>

record PartitionState =
  buffer :: BufferState
  seq_allocator :: SeqAllocator
  adaptive_reservation_size :: "u64 option"
  records_allocated_since_lease_maintenance :: u64
  ps_lease_expiration_at :: "instant option"
  lease_fence :: "ProducerLeaseFence option"
  publication_tail :: "FlushPublicationDependency option"
  outstanding_flushes :: nat
  allocation_in_flight :: bool
  allocation_started_at :: "instant option"
  draining :: bool

definition default_partition :: PartitionState where
  "default_partition =
     \<lparr>buffer = empty_buffer, seq_allocator = default_allocator, adaptive_reservation_size = None,
      records_allocated_since_lease_maintenance = 0, ps_lease_expiration_at = None,
      lease_fence = None, publication_tail = None, outstanding_flushes = 0,
      allocation_in_flight = False, allocation_started_at = None, draining = False\<rparr>"

definition needs_lease :: "PartitionState \<Rightarrow> instant \<Rightarrow> bool" where
  "needs_lease p now = (case ps_lease_expiration_at p of None \<Rightarrow> True | Some t \<Rightarrow> t \<le> now)"

definition is_drained :: "PartitionState \<Rightarrow> bool" where
  "is_drained p \<longleftrightarrow> outstanding_flushes p = 0 \<and> \<not> allocation_in_flight p \<and> batches (buffer p) = []"

definition reservation_target :: "PartitionState \<Rightarrow> u64 \<Rightarrow> u64 \<times> PartitionState" where
  "reservation_target p base =
     (case adaptive_reservation_size p of
        Some n \<Rightarrow> (n, p)
      | None \<Rightarrow> (base, p\<lparr>adaptive_reservation_size := Some base\<rparr>))"

definition double_reservation_target :: "PartitionState \<Rightarrow> u64 \<Rightarrow> u64 \<times> PartitionState" where
  "double_reservation_target p base =
     (let (previous, p') = reservation_target p base;
          target = min (saturating_mul previous 2) (ucast (- 1 :: u32))
      in (target, p'\<lparr>adaptive_reservation_size := Some target\<rparr>))"

definition reset_sequence_allocation :: "PartitionState \<Rightarrow> PartitionState" where
  "reset_sequence_allocation p =
     p\<lparr>seq_allocator := default_allocator, adaptive_reservation_size := None,
       records_allocated_since_lease_maintenance := 0\<rparr>"

section \<open>Write state\<close>

record LocalAssignment =
  active :: bool
  assigned_generation :: u64
  assigned_partitions :: "(string, VirtualPartitionId set) hmap"

type_synonym TopicState = "(VirtualPartitionId, PartitionState) hmap"

record WriteState =
  membership :: BrokerMembership
  assignment :: LocalAssignment
  topics :: "(string, TopicState) hmap"
  last_flush_topic :: "string option"
  channels :: "FlushPublicationState list"

definition with_membership :: "BrokerMembership \<Rightarrow> WriteState" where
  "with_membership m =
     \<lparr>membership = m,
      assignment = \<lparr>active = False, assigned_generation = 0, assigned_partitions = []\<rparr>,
      topics = [], last_flush_topic = None, channels = []\<rparr>"

text \<open>
  \<open>fold\<close> over the assigned partitions, \<open>entry(topic).or_insert_with(HashSet::new).insert(partition)\<close>.
\<close>

definition group_assignment ::
    "(string \<times> VirtualPartitionId) list \<Rightarrow> (string, VirtualPartitionId set) hmap" where
  "group_assignment parts =
     fold (\<lambda>(topic, vp) m.
        hm_insert topic (insert vp (case hm_get m topic of None \<Rightarrow> {} | Some vps \<Rightarrow> vps)) m) parts []"

text \<open>Equality of hash maps: as many entries, and every entry of one is an entry of the other.\<close>

definition hm_eq :: "('k, 'v) hmap \<Rightarrow> ('k, 'v) hmap \<Rightarrow> bool" where
  "hm_eq m m' \<longleftrightarrow> length m = length m' \<and> (\<forall>(k, v) \<in> set m. hm_get m' k = Some v)"

definition publish_assignment ::
    "WriteState \<Rightarrow> (string \<times> VirtualPartitionId) list \<Rightarrow> u64 \<times> WriteState" where
  "publish_assignment st parts =
     (let partitions = group_assignment parts;
          a = assignment st;
          a' = (if \<not> hm_eq (assigned_partitions a) partitions
                then a\<lparr>assigned_generation := saturating_add (assigned_generation a) 1,
                       assigned_partitions := partitions\<rparr>
                else a)\<lparr>active := True\<rparr>
      in (assigned_generation a', st\<lparr>assignment := a'\<rparr>))"

definition assignment_generation_for_partition ::
    "WriteState \<Rightarrow> string \<Rightarrow> VirtualPartitionId \<Rightarrow> u64 option" where
  "assignment_generation_for_partition st topic vp =
     (if active (assignment st)
         \<and> (case hm_get (assigned_partitions (assignment st)) topic of
              None \<Rightarrow> False | Some vps \<Rightarrow> vp \<in> vps)
      then Some (assigned_generation (assignment st)) else None)"

definition assignment_generation_is_current ::
    "WriteState \<Rightarrow> string \<Rightarrow> VirtualPartitionId \<Rightarrow> u64 \<Rightarrow> bool" where
  "assignment_generation_is_current st topic vp generation \<longleftrightarrow>
     assignment_generation_for_partition st topic vp = Some generation"

definition partition_state :: "WriteState \<Rightarrow> string \<Rightarrow> VirtualPartitionId \<Rightarrow> PartitionState option" where
  "partition_state st topic vp =
     (case hm_get (topics st) topic of None \<Rightarrow> None | Some parts \<Rightarrow> hm_get parts vp)"

text \<open>Writing back through the reference that \<open>partition_state_mut\<close> returns.\<close>

definition put_partition ::
    "WriteState \<Rightarrow> string \<Rightarrow> VirtualPartitionId \<Rightarrow> PartitionState \<Rightarrow> WriteState" where
  "put_partition st topic vp p =
     st\<lparr>topics := hm_insert topic
          (hm_insert vp p (case hm_get (topics st) topic of None \<Rightarrow> [] | Some parts \<Rightarrow> parts)) (topics st)\<rparr>"

text \<open>\<open>partition_state_mut\<close> creates the topic and the partition when they are missing.\<close>

definition partition_state_mut ::
    "WriteState \<Rightarrow> string \<Rightarrow> VirtualPartitionId \<Rightarrow> PartitionState \<times> WriteState" where
  "partition_state_mut st topic vp =
     (let p = (case partition_state st topic vp of None \<Rightarrow> default_partition | Some p \<Rightarrow> p)
      in (p, put_partition st topic vp p))"

definition remove_partition :: "WriteState \<Rightarrow> string \<Rightarrow> VirtualPartitionId \<Rightarrow> WriteState" where
  "remove_partition st topic vp =
     (case hm_get (topics st) topic of
        None \<Rightarrow> st
      | Some parts \<Rightarrow>
          let parts' = hm_remove vp parts
          in if parts' = []
             then st\<lparr>topics := hm_remove topic (topics st),
                     last_flush_topic :=
                       (if last_flush_topic st = Some topic then None else last_flush_topic st)\<rparr>
             else st\<lparr>topics := hm_insert topic parts' (topics st)\<rparr>)"

definition clear_terminally_released_partition ::
    "WriteState \<Rightarrow> string \<Rightarrow> VirtualPartitionId \<Rightarrow> WriteState" where
  "clear_terminally_released_partition st topic vp =
     (let assignment_is_current = assignment_generation_for_partition st topic vp \<noteq> None
      in case partition_state st topic vp of
           None \<Rightarrow> st
         | Some p \<Rightarrow>
             let p' = reset_sequence_allocation (p\<lparr>ps_lease_expiration_at := None, lease_fence := None\<rparr>);
                 st' = put_partition st topic vp p'
             in if \<not> assignment_is_current \<and> draining p' \<and> is_drained p'
                then remove_partition st' topic vp else st')"

definition partition_keys :: "WriteState \<Rightarrow> (string \<times> VirtualPartitionId) list" where
  "partition_keys st =
     concat (map (\<lambda>(topic, parts). map (\<lambda>(vp, _). (topic, vp)) parts) (topics st))"

section \<open>Lemmas\<close>

subsection \<open>Allocator\<close>

text \<open>The numbers of a range, and the numbers an allocator has yet to hand out.\<close>

definition numbers :: "SeqRange \<Rightarrow> nat set" where
  "numbers r = {unat (seq_start r)..unat (seq_end r)}"

definition available :: "SeqAllocator \<Rightarrow> nat set" where
  "available a =
     (case reservation a of None \<Rightarrow> {} | Some r \<Rightarrow> {unat (next_seq a)..unat (seq_end r)})"

text \<open>
  A range that stops before the largest number, which \<open>next_seq\<close> could not step over, and the
  allocators that hold such ranges.
\<close>

definition steppable :: "SeqRange \<Rightarrow> bool" where
  "steppable r \<longleftrightarrow> unat (seq_end r) < 2 ^ 64 - 1"

definition allocator_ok :: "SeqAllocator \<Rightarrow> bool" where
  "allocator_ok a =
     (case reservation a of
        None \<Rightarrow> True
      | Some r \<Rightarrow> steppable r \<and> unat (next_seq a) \<le> unat (seq_end r) + 1)"

lemma allocator_default [simp]: "allocator_ok default_allocator" "available default_allocator = {}"
  by (simp_all add: allocator_ok_def available_def default_allocator_def)

lemma can_allocate_iff:
  assumes "reservation a = Some r" "steppable r"
  shows "can_allocate a n \<longleftrightarrow> n \<noteq> 0 \<and> unat (next_seq a) + (unat n - 1) \<le> unat (seq_end r)"
  using assms u64_bound[of "seq_end r"]
  by (auto simp: can_allocate_def steppable_def word_le_nat_alt unat_saturating_add unat_saturating_sub
      min_def)

lemma allocate_Some:
  assumes "allocator_ok a" "allocate a n = (Some out, a')"
  shows "seq_start out = next_seq a" "unat (seq_end out) + 1 = unat (next_seq a) + unat n"
    "unat n \<noteq> 0" "reservation a' = reservation a" "unat (next_seq a') = unat (seq_end out) + 1"
    "\<exists>r. reservation a = Some r \<and> unat (seq_end out) \<le> unat (seq_end r)"
proof -
  obtain r where r: "reservation a = Some r" "steppable r"
    using assms by (auto simp: allocate_def can_allocate_def allocator_ok_def split: option.splits if_splits)
  have c: "n \<noteq> 0" "unat (next_seq a) + (unat n - 1) \<le> unat (seq_end r)"
    using assms(2) can_allocate_iff[OF r, of n] by (auto simp: allocate_def split: if_splits)
  obtain e where e: "checked_add (next_seq a) (saturating_sub n 1) = Some e" "out = \<lparr>seq_start = next_seq a, seq_end = e\<rparr>"
    "a' = a\<lparr>next_seq := saturating_add e 1, sa_last_handed_out_seq := Some e\<rparr>"
    using assms(2) by (auto simp: allocate_def Let_def split: option.splits if_splits)
  have ue: "unat e = unat (next_seq a) + (unat n - 1)"
    using e(1) by (simp add: machine_int unat_saturating_sub)
  show "seq_start out = next_seq a" "reservation a' = reservation a" by (simp_all add: e)
  show n: "unat n \<noteq> 0" using c(1) by (simp add: unat_eq_0)
  show "unat (seq_end out) + 1 = unat (next_seq a) + unat n" using ue n by (simp add: e)
  have "unat e < 2 ^ 64 - 1" using ue c(2) r(2) by (simp add: steppable_def)
  then show "unat (next_seq a') = unat (seq_end out) + 1" by (simp add: e unat_saturating_add)
  show "\<exists>r. reservation a = Some r \<and> unat (seq_end out) \<le> unat (seq_end r)"
    using r ue c(2) by (simp add: e)
qed

lemma allocate_numbers:
  assumes "allocator_ok a" "allocate a n = (Some out, a')"
  shows "allocator_ok a'" "numbers out \<subseteq> available a" "available a' = available a - numbers out"
    "\<forall>x \<in> numbers out. \<forall>y \<in> available a'. x < y" "card (numbers out) = unat n"
proof -
  note s = allocate_Some[OF assms]
  obtain r where r: "reservation a = Some r" "unat (seq_end out) \<le> unat (seq_end r)" using s(6) by blast
  have av: "available a = {unat (next_seq a)..unat (seq_end r)}"
    "available a' = {unat (seq_end out) + 1..unat (seq_end r)}"
    using r s(4,5) by (simp_all add: available_def)
  have nums: "numbers out = {unat (next_seq a)..unat (seq_end out)}" by (simp add: numbers_def s(1))
  have le: "unat (next_seq a) \<le> unat (seq_end out)" using s(2,3) by linarith
  show "allocator_ok a'" using assms(1) r s(4,5) by (simp add: allocator_ok_def)
  show "numbers out \<subseteq> available a" using r by (auto simp: av nums)
  show "available a' = available a - numbers out" using le by (auto simp: av nums)
  show "\<forall>x \<in> numbers out. \<forall>y \<in> available a'. x < y" by (auto simp: av nums)
  show "card (numbers out) = unat n" using s(2,3) by (simp add: nums)
qed

lemma allocate_None: "allocate a n = (None, a') \<Longrightarrow> a' = a"
  by (auto simp: allocate_def Let_def split: if_splits option.splits)

lemma install_numbers:
  assumes "allocator_ok a" "steppable r" "unat (seq_start r) \<le> unat (seq_end r) + 1"
  shows "allocator_ok (install_or_extend_reservation a r)"
    "available (install_or_extend_reservation a r) \<subseteq> available a \<union> numbers r"
proof -
  show "allocator_ok (install_or_extend_reservation a r)"
    using assms
    by (auto simp: install_or_extend_reservation_def allocator_ok_def steppable_def machine_int
        split: option.splits)
  show "available (install_or_extend_reservation a r) \<subseteq> available a \<union> numbers r"
    using assms
    by (auto simp: install_or_extend_reservation_def available_def numbers_def machine_int
        split: option.splits)
qed

text \<open>An extension keeps every number the allocator already had.\<close>

lemma extend_keeps_numbers:
  assumes "reservation a = Some current" "checked_add (seq_end current) 1 = Some (seq_start r)"
    "unat (seq_end current) \<le> unat (seq_end r)"
  shows "available a \<subseteq> available (install_or_extend_reservation a r)"
  using assms by (auto simp: install_or_extend_reservation_def available_def)

lemma remaining_capacity_card:
  assumes "allocator_ok a"
  shows "unat (remaining_capacity a) = card (available a)"
proof (cases "reservation a")
  case None
  then show ?thesis by (simp add: remaining_capacity_def available_def)
next
  case (Some r)
  then have b: "unat (seq_end r) < 2 ^ 64 - 1" "unat (next_seq a) \<le> unat (seq_end r) + 1"
    using assms by (auto simp: allocator_ok_def steppable_def)
  show ?thesis
  proof (cases "unat (next_seq a) \<le> unat (seq_end r)")
    case True
    then obtain d where d: "checked_sub (seq_end r) (next_seq a) = Some d" by (simp add: checked_sub_def)
    then have "unat d + unat (next_seq a) = unat (seq_end r)" using True by (simp add: machine_int)
    then have "unat d = unat (seq_end r) - unat (next_seq a)" by linarith
    then show ?thesis
      using b True d Some by (simp add: remaining_capacity_def available_def unat_saturating_add)
  next
    case False
    then have "checked_sub (seq_end r) (next_seq a) = None" by (simp add: checked_sub_def)
    then show ?thesis using Some False by (simp add: remaining_capacity_def available_def)
  qed
qed

subsection \<open>Partitions of a write state\<close>

lemma partition_state_put [simp]:
  "partition_state (put_partition st topic vp p) topic' vp' =
     (if topic' = topic \<and> vp' = vp then Some p else partition_state st topic' vp')"
  by (auto simp: partition_state_def put_partition_def hash_map split: option.splits)

lemma partition_state_remove [simp]:
  "partition_state (remove_partition st topic vp) topic' vp' =
     (if topic' = topic \<and> vp' = vp then None else partition_state st topic' vp')"
proof (cases "hm_get (topics st) topic")
  case None
  then show ?thesis by (auto simp: partition_state_def remove_partition_def)
next
  case (Some parts)
  have "hm_get parts vp' = None" if "hm_remove vp parts = []" "vp' \<noteq> vp"
    using hm_get_remove[of vp parts vp'] that by simp
  with Some show ?thesis
    by (auto simp: partition_state_def remove_partition_def hash_map Let_def split: option.splits)
qed

interpretation partition_table: keyed_table "\<lambda>st (topic, vp). partition_state st topic vp"
  "\<lambda>(topic, vp) p st. put_partition st topic vp p" "\<lambda>(topic, vp) st. remove_partition st topic vp"
  by unfold_locales (auto split: if_splits)

lemma put_partition_simps [simp]:
  "assignment (put_partition st topic vp p) = assignment st"
  "channels (put_partition st topic vp p) = channels st"
  "membership (put_partition st topic vp p) = membership st"
  "last_flush_topic (put_partition st topic vp p) = last_flush_topic st"
  by (simp_all add: put_partition_def)

lemma remove_partition_simps [simp]:
  "assignment (remove_partition st topic vp) = assignment st"
  "channels (remove_partition st topic vp) = channels st"
  by (auto simp: remove_partition_def Let_def split: option.splits)

lemma assignment_generation_cong:
  "assignment st' = assignment st \<Longrightarrow>
     assignment_generation_for_partition st' = assignment_generation_for_partition st"
  by (intro ext) (simp add: assignment_generation_for_partition_def)

text \<open>The hash maps of a write state have distinct keys, and no topic is left without partitions.\<close>

definition write_ok :: "WriteState \<Rightarrow> bool" where
  "write_ok st \<longleftrightarrow> hm_ok (topics st) \<and> (\<forall>(topic, parts) \<in> set (topics st). hm_ok parts \<and> parts \<noteq> [])"

lemma write_ok_put: "write_ok st \<Longrightarrow> write_ok (put_partition st topic vp p)"
proof -
  assume ok: "write_ok st"
  let ?parts = "case hm_get (topics st) topic of None \<Rightarrow> [] | Some parts \<Rightarrow> parts"
  have "hm_ok ?parts"
    using ok by (auto simp: write_ok_def split: option.splits dest: map_of_SomeD)
  then obtain q where q: "q = hm_insert vp p ?parts" "hm_ok q" "q \<noteq> []"
    by (auto simp: hm_ok_insert)
  have "topics (put_partition st topic vp p) = hm_insert topic q (topics st)"
    by (simp add: put_partition_def q(1))
  with ok q(2,3) hm_insert_subset[of topic q "topics st"] show ?thesis
    by (auto simp: write_ok_def hm_ok_insert)
qed

lemma partition_keys_set:
  assumes "write_ok st"
  shows "(topic, vp) \<in> set (partition_keys st) \<longleftrightarrow> partition_state st topic vp \<noteq> None"
proof -
  have "(topic, vp) \<in> set (partition_keys st) \<longleftrightarrow> (\<exists>parts p. (topic, parts) \<in> set (topics st) \<and> (vp, p) \<in> set parts)"
    unfolding partition_keys_def by (force simp: image_iff)
  also have "\<dots> \<longleftrightarrow> (\<exists>parts. hm_get (topics st) topic = Some parts \<and> hm_get parts vp \<noteq> None)"
    using assms by (fastforce simp: write_ok_def dest: map_of_SomeD)
  also have "\<dots> \<longleftrightarrow> partition_state st topic vp \<noteq> None"
    by (auto simp: partition_state_def split: option.splits)
  finally show ?thesis .
qed


subsection \<open>Totals over all partitions\<close>

text \<open>A quantity summed over the partitions of a write state.\<close>

definition partition_total ::
    "(string \<Rightarrow> VirtualPartitionId \<Rightarrow> PartitionState \<Rightarrow> 'a::comm_monoid_add) \<Rightarrow> WriteState \<Rightarrow> 'a" where
  "partition_total f st = hm_sum (\<lambda>topic parts. hm_sum (f topic) parts) (topics st)"

lemma partition_total_put:
  fixes f :: "string \<Rightarrow> VirtualPartitionId \<Rightarrow> PartitionState \<Rightarrow> 'a::cancel_comm_monoid_add"
  shows "partition_total f (put_partition st topic vp p)
    + (case partition_state st topic vp of None \<Rightarrow> 0 | Some q \<Rightarrow> f topic vp q)
    = partition_total f st + f topic vp p"
proof -
  let ?parts = "case hm_get (topics st) topic of None \<Rightarrow> [] | Some parts \<Rightarrow> parts"
  let ?g = "\<lambda>topic parts. hm_sum (f topic) parts"
  have outer: "hm_sum ?g (hm_insert topic (hm_insert vp p ?parts) (topics st)) + hm_sum (f topic) ?parts
      = hm_sum ?g (topics st) + hm_sum (f topic) (hm_insert vp p ?parts)"
    using hm_sum_insert[of ?g topic "hm_insert vp p ?parts" "topics st"]
    by (simp split: option.splits)
  have inner: "hm_sum (f topic) (hm_insert vp p ?parts)
      + (case partition_state st topic vp of None \<Rightarrow> 0 | Some q \<Rightarrow> f topic vp q)
      = hm_sum (f topic) ?parts + f topic vp p"
    using hm_sum_insert[of "f topic" vp p ?parts] by (simp add: partition_state_def split: option.splits)
  have cancel: "a + c = t + d" if "a + h = t + h'" "h' + c = h + d" for a c t d h h' :: 'a
  proof -
    have "(a + c) + h = (a + h) + c" by (simp add: ac_simps)
    also have "\<dots> = t + (h' + c)" by (simp only: that(1) add.assoc)
    also have "\<dots> = t + (h + d)" by (simp only: that(2))
    also have "\<dots> = (t + d) + h" by (simp add: ac_simps)
    finally show ?thesis by simp
  qed
  show ?thesis
    using cancel[OF outer inner] by (simp add: partition_total_def put_partition_def)
qed

lemma partition_total_cong [simp]:
  "partition_total f (st\<lparr>channels := chans\<rparr>) = partition_total f st"
  "partition_total f (st\<lparr>last_flush_topic := t\<rparr>) = partition_total f st"
  "partition_total f (st\<lparr>assignment := a\<rparr>) = partition_total f st"
  by (simp_all add: partition_total_def)

lemma partition_state_cong [simp]:
  "partition_state (st\<lparr>channels := chans\<rparr>) = partition_state st"
  "partition_state (st\<lparr>last_flush_topic := t\<rparr>) = partition_state st"
  "partition_state (st\<lparr>assignment := a\<rparr>) = partition_state st"
  by (intro ext; simp add: partition_state_def)+

lemma write_ok_cong [simp]:
  "write_ok (st\<lparr>channels := chans\<rparr>) = write_ok st"
  "write_ok (st\<lparr>last_flush_topic := t\<rparr>) = write_ok st"
  "write_ok (st\<lparr>assignment := a\<rparr>) = write_ok st"
  by (simp_all add: write_ok_def)

end
