(* ===== verification/Write_Api.thy ===== *)
theory Write_Api
  imports Types
begin

text \<open>
  The requests and errors of the write engine (\<open>write/api.rs\<close>) and the status a producer sees for
  each of them.  The text of an internal error is left out.
\<close>

record WriteRequest =
  request_topic :: string
  request_virtual_partition_id :: VirtualPartitionId
  request_records :: "Record list"

datatype WriteError =
    UnknownTopic string
  | InvalidPartition string VirtualPartitionId
  | NotLeaseHolder string VirtualPartitionId
  | InvalidRequest string
  | Overloaded string
  | WriteLeaseFenceLost
  | WriteInternal

datatype ProduceStatus =
    PRODUCE_STATUS_UNKNOWN_TOPIC
  | PRODUCE_STATUS_NOT_LEASE_HOLDER
  | PRODUCE_STATUS_BAD_REQUEST
  | PRODUCE_STATUS_OVERLOADED

fun write_error_status :: "WriteError \<Rightarrow> ProduceStatus" where
  "write_error_status (UnknownTopic _) = PRODUCE_STATUS_UNKNOWN_TOPIC"
| "write_error_status (NotLeaseHolder _ _) = PRODUCE_STATUS_NOT_LEASE_HOLDER"
| "write_error_status WriteLeaseFenceLost = PRODUCE_STATUS_NOT_LEASE_HOLDER"
| "write_error_status (InvalidPartition _ _) = PRODUCE_STATUS_BAD_REQUEST"
| "write_error_status (InvalidRequest _) = PRODUCE_STATUS_BAD_REQUEST"
| "write_error_status (Overloaded _) = PRODUCE_STATUS_OVERLOADED"
| "write_error_status WriteInternal = PRODUCE_STATUS_OVERLOADED"

end
