(* ===== verification/Scheduler.thy ===== *)
theory Scheduler
  imports Write_State Write_Api
begin

text \<open>
  The flush scheduler (\<open>write/scheduler.rs\<close>): the choice of the batches of the next flush plan, and
  the bookkeeping when a plan has been written or has failed.  The write state is passed explicitly;
  the messages sent to waiting requests are returned.  A failed \<open>expect\<close> is \<open>None\<close>.
\<close>

section \<open>Taking partitions\<close>

text \<open>\<open>usize::MAX\<close> as a number of partitions is no limit: \<open>None\<close>.\<close>

type_synonym limit = "nat option"

definition MAX_FENCED_METADATA_PARTITIONS :: nat where
  "MAX_FENCED_METADATA_PARTITIONS = 99"

definition fence_lost :: "FlushCompletion list \<Rightarrow> sent list" where
  "fence_lost cs = map (\<lambda>c. (c, Some LeaseFenceLost)) cs"

text \<open>The partition state and the channel values are the parts of the write state it changes.\<close>

definition take_flush_partition ::
    "FlushPublicationState list \<Rightarrow> PartitionState \<Rightarrow> VirtualPartitionId \<Rightarrow> FlushTrigger \<Rightarrow> bool
     \<Rightarrow> FlushPartition option \<times> sent list \<times> PartitionState \<times> FlushPublicationState list" where
  "take_flush_partition chans p vp trigger require_fence =
     (let taken = batches (buffer p);
          p1 = p\<lparr>buffer := buffer_reset (buffer p)\<rparr>
      in if taken = [] then (None, [], p1, chans)
         else
           let fence = bb_acceptance_fence (hd taken);
               matching_fences = (\<forall>b \<in> set taken. bb_acceptance_fence b = fence)
           in if require_fence \<and> (fence = None \<or> \<not> matching_fences)
              then (None, fence_lost (batch_completions taken), p1, chans)
              else
                let chan = length chans
                in (Some \<lparr>fp_virtual_partition_id = vp, fp_lease_fence = fence, fp_batches = taken,
                          fp_trigger = trigger, fp_publication_predecessor = publication_tail p,
                          fp_publication_state_tx = Some chan\<rparr>,
                    [],
                    p1\<lparr>publication_tail := Some chan, outstanding_flushes := outstanding_flushes p + 1\<rparr>,
                    chans @ [PublicationPending]))"

definition tail_pending :: "FlushPublicationState list \<Rightarrow> PartitionState \<Rightarrow> bool" where
  "tail_pending chans p =
     (case publication_tail p of None \<Rightarrow> False | Some c \<Rightarrow> chans ! c = PublicationPending)"

definition partition_flush_trigger ::
    "PartitionState \<Rightarrow> instant \<Rightarrow> EffectiveFlushConfig \<Rightarrow> FlushTrigger option" where
  "partition_flush_trigger p now config =
     (if draining p then Some LeaseDrain
      else if is_time_due (buffer p) now config then Some MaxDelay
      else buffer_flush_trigger (buffer p) now config)"

definition earliest_time_flush_deadline :: "WriteState \<Rightarrow> EffectiveFlushConfig \<Rightarrow> instant option" where
  "earliest_time_flush_deadline st config =
     (let deadlines =
        List.map_filter (\<lambda>p. time_deadline (buffer p) config)
          (filter (\<lambda>p. \<not> draining p \<and> \<not> tail_pending (channels st) p)
             (concat (map (\<lambda>(_, parts). map snd parts) (topics st))))
      in case deadlines of [] \<Rightarrow> None | d # ds \<Rightarrow> Some (fold min ds d))"

text \<open>
  \<open>take_flush_partitions\<close> pulls from a lazy iterator: partitions after the last one that is needed
  are not touched.
\<close>

fun take_flush_partitions ::
    "WriteState \<Rightarrow> string \<Rightarrow> VirtualPartitionId list \<Rightarrow> FlushTrigger \<Rightarrow> limit \<Rightarrow> bool
     \<Rightarrow> FlushPartition list \<times> sent list \<times> WriteState" where
  "take_flush_partitions st topic [] trigger max_partitions require_fence = ([], [], st)"
| "take_flush_partitions st topic (vp # vps) trigger max_partitions require_fence =
     (if max_partitions = Some 0 then ([], [], st)
      else case partition_state st topic vp of
        None \<Rightarrow> take_flush_partitions st topic vps trigger max_partitions require_fence
      | Some p \<Rightarrow>
          if trigger = MaxDelay \<and> draining p \<or> tail_pending (channels st) p
          then take_flush_partitions st topic vps trigger max_partitions require_fence
          else
            (case take_flush_partition (channels st) p vp trigger require_fence of
               (taken, msgs, p', chans) \<Rightarrow>
                 let st' = (put_partition st topic vp p')\<lparr>channels := chans\<rparr>
                 in case taken of
                      None \<Rightarrow>
                        (case take_flush_partitions st' topic vps trigger max_partitions require_fence of
                           (parts, msgs', st'') \<Rightarrow> (parts, msgs @ msgs', st''))
                    | Some part \<Rightarrow>
                        (case take_flush_partitions st' topic vps trigger
                                (map_option (\<lambda>n. n - 1) max_partitions) require_fence of
                           (parts, msgs', st'') \<Rightarrow> (part # parts, msgs @ msgs', st''))))"

section \<open>Collecting a plan\<close>

text \<open>The scan for flushable partitions, which stops once both answers are known.\<close>

fun scan_triggers :: "FlushTrigger option list \<Rightarrow> bool \<Rightarrow> bool \<Rightarrow> bool \<times> bool" where
  "scan_triggers [] flushable shared = (flushable, shared)"
| "scan_triggers (trigger # triggers) flushable shared =
     (let flushable' = (flushable \<or> trigger \<noteq> None);
          shared' = (shared \<or> trigger = Some MaxDelay)
      in if flushable' \<and> shared' then (flushable', shared')
         else scan_triggers triggers flushable' shared')"

text \<open>Where the rotation of topics resumes: the first key of a later topic than the last one.\<close>

fun position_after :: "string \<Rightarrow> (string \<times> VirtualPartitionId) list \<Rightarrow> nat option" where
  "position_after last_topic [] = None"
| "position_after last_topic ((topic, _) # keys) =
     (if last_topic < topic then Some 0 else map_option Suc (position_after last_topic keys))"

definition rotation_start :: "string option \<Rightarrow> (string \<times> VirtualPartitionId) list \<Rightarrow> nat" where
  "rotation_start last_topic keys =
     (case last_topic of
        None \<Rightarrow> 0
      | Some t \<Rightarrow> (case position_after t keys of None \<Rightarrow> 0 | Some i \<Rightarrow> i))"

definition partition_ids_of_topic ::
    "(string \<times> VirtualPartitionId) list \<Rightarrow> string \<Rightarrow> VirtualPartitionId list" where
  "partition_ids_of_topic keys topic = map snd (filter (\<lambda>(t, _). t = topic) keys)"

text \<open>The mutable locals of the selection loop.\<close>

record CollectState =
  cs_state :: WriteState
  cs_topic_plans :: "(string, TopicFlushPlan) hmap"
  cs_selected_shared_time_flush :: "bool option"
  cs_last_planned_topic :: "string option"
  cs_sent :: "sent list"

definition key_trigger ::
    "bool \<Rightarrow> instant \<Rightarrow> EffectiveFlushConfig \<Rightarrow> PartitionState option \<Rightarrow> FlushTrigger option" where
  "key_trigger shared_time_flush now flush_config p =
     (case p of
        None \<Rightarrow> None
      | Some p \<Rightarrow>
          if shared_time_flush \<and> \<not> draining p \<and> batches (buffer p) \<noteq> [] then Some MaxDelay
          else partition_flush_trigger p now flush_config)"

definition requires_new_topic_plan :: "bool \<Rightarrow> TopicFlushPlan option \<Rightarrow> FlushTrigger \<Rightarrow> bool" where
  "requires_new_topic_plan fenced existing trigger =
     (case existing of
        None \<Rightarrow> True
      | Some plan \<Rightarrow>
          (case tfp_partitions plan of
             [] \<Rightarrow> True
           | first # _ \<Rightarrow> fp_trigger first \<noteq> trigger
               \<or> fenced \<and> length (tfp_partitions plan) = MAX_FENCED_METADATA_PARTITIONS))"

definition joins_selected_plan :: "bool option \<Rightarrow> bool \<Rightarrow> FlushTrigger \<Rightarrow> TopicFlushPlan option \<Rightarrow> bool" where
  "joins_selected_plan selected requires_new trigger existing =
     (let shared_time_plan = (trigger = MaxDelay \<and> requires_new)
      in case selected of
           None \<Rightarrow> True
         | Some True \<Rightarrow> shared_time_plan \<and> (\<not> requires_new \<or> existing = None)
         | Some False \<Rightarrow> \<not> requires_new)"

definition max_partitions_for :: "bool \<Rightarrow> bool \<Rightarrow> TopicFlushPlan option \<Rightarrow> limit" where
  "max_partitions_for fenced requires_new existing =
     (if fenced
      then if requires_new then Some MAX_FENCED_METADATA_PARTITIONS
           else Some (MAX_FENCED_METADATA_PARTITIONS
                  - (case existing of None \<Rightarrow> 0 | Some plan \<Rightarrow> length (tfp_partitions plan)))
      else None)"

definition collect_key ::
    "bool \<Rightarrow> bool \<Rightarrow> instant \<Rightarrow> EffectiveFlushConfig \<Rightarrow> (string, TopicInfo) hmap
     \<Rightarrow> (string \<times> VirtualPartitionId) list \<Rightarrow> string \<times> VirtualPartitionId \<Rightarrow> CollectState
     \<Rightarrow> CollectState option" where
  "collect_key fenced shared_time_flush now flush_config infos keys key cs =
     (case key of (topic, vp) \<Rightarrow>
      case hm_get infos topic of
        None \<Rightarrow> None
      | Some topic_info \<Rightarrow>
      (case key_trigger shared_time_flush now flush_config (partition_state (cs_state cs) topic vp) of
         None \<Rightarrow> Some cs
       | Some trigger \<Rightarrow>
         let existing = hm_get (cs_topic_plans cs) topic;
             requires_new = requires_new_topic_plan fenced existing trigger
         in if \<not> joins_selected_plan (cs_selected_shared_time_flush cs) requires_new trigger existing
            then Some cs
            else
              let vps = (if trigger = MaxDelay then partition_ids_of_topic keys topic else [vp])
              in (case take_flush_partitions (cs_state cs) topic vps trigger
                         (max_partitions_for fenced requires_new existing) fenced of
                    (parts, msgs, st') \<Rightarrow>
                      let cs1 = cs\<lparr>cs_state := st', cs_sent := cs_sent cs @ msgs\<rparr>
                      in if parts = [] then Some cs1
                         else if requires_new then
                           Some (cs1\<lparr>
                             cs_topic_plans := hm_insert topic
                               \<lparr>tfp_topic = topic, tfp_partitions = parts,
                                tfp_max_metadata_publication_lag = max_metadata_publication_lag topic_info,
                                tfp_metadata_window_size = metadata_window_size topic_info,
                                tfp_fenced_metadata_writes = fenced\<rparr> (cs_topic_plans cs1),
                             cs_selected_shared_time_flush :=
                               (case cs_selected_shared_time_flush cs1 of
                                  None \<Rightarrow> Some (trigger = MaxDelay \<and> requires_new)
                                | Some b \<Rightarrow> Some b),
                             cs_last_planned_topic := Some topic\<rparr>)
                         else
                           (case existing of
                              None \<Rightarrow> None
                            | Some plan \<Rightarrow>
                                Some (cs1\<lparr>cs_topic_plans := hm_insert topic
                                  (plan\<lparr>tfp_partitions := tfp_partitions plan @ parts\<rparr>)
                                  (cs_topic_plans cs1)\<rparr>)))))"

fun collect_keys ::
    "bool \<Rightarrow> bool \<Rightarrow> instant \<Rightarrow> EffectiveFlushConfig \<Rightarrow> (string, TopicInfo) hmap
     \<Rightarrow> (string \<times> VirtualPartitionId) list \<Rightarrow> (string \<times> VirtualPartitionId) list \<Rightarrow> CollectState
     \<Rightarrow> CollectState option" where
  "collect_keys fenced shared now flush_config infos keys [] cs = Some cs"
| "collect_keys fenced shared now flush_config infos keys (key # rest) cs =
     (case collect_key fenced shared now flush_config infos keys key cs of
        None \<Rightarrow> None
      | Some cs' \<Rightarrow> collect_keys fenced shared now flush_config infos keys rest cs')"

text \<open>
  The final assembly moves the senders of the taken partitions into the list of completions; it
  panics when a partition has none.
\<close>

definition partition_completion :: "string \<Rightarrow> FlushPartition \<Rightarrow> FlushPublicationCompletion option" where
  "partition_completion topic part =
     map_option (\<lambda>chan. \<lparr>fpc_topic = topic, fpc_virtual_partition_id = fp_virtual_partition_id part,
                         fpc_state_tx = chan\<rparr>) (fp_publication_state_tx part)"

fun collect_options :: "'a option list \<Rightarrow> 'a list option" where
  "collect_options [] = Some []"
| "collect_options (x # xs) =
     (case x of None \<Rightarrow> None | Some y \<Rightarrow> map_option (Cons y) (collect_options xs))"

definition plan_completions :: "TopicFlushPlan list \<Rightarrow> FlushPublicationCompletion list option" where
  "plan_completions plans =
     collect_options
       (concat (map (\<lambda>plan. map (partition_completion (tfp_topic plan)) (tfp_partitions plan)) plans))"

definition without_senders :: "TopicFlushPlan \<Rightarrow> TopicFlushPlan" where
  "without_senders plan =
     plan\<lparr>tfp_partitions := map (\<lambda>part. part\<lparr>fp_publication_state_tx := None\<rparr>) (tfp_partitions plan)\<rparr>"

definition collect_next_flush_plan ::
    "WriteState \<Rightarrow> instant \<Rightarrow> WriteConfig \<Rightarrow> EffectiveFlushConfig \<Rightarrow> FeatureFlagsWatch option
     \<Rightarrow> (string, TopicInfo) hmap \<Rightarrow> (FlushPlan option \<times> sent list \<times> WriteState) option" where
  "collect_next_flush_plan st now config flush_config feature_flags infos =
     (let fenced = fenced_metadata_writes config feature_flags;
          triggers = concat (map (\<lambda>(_, parts).
            map (\<lambda>(_, p). partition_flush_trigger p now flush_config) parts) (topics st));
          (flushable, shared_time_flush) = scan_triggers triggers False False
      in if \<not> flushable then Some (None, [], st)
         else
           let keys = sort (partition_keys st);
               start = rotation_start (last_flush_topic st) keys
           in case collect_keys fenced shared_time_flush now flush_config infos keys (rotate start keys)
                     \<lparr>cs_state = st, cs_topic_plans = [], cs_selected_shared_time_flush = None,
                      cs_last_planned_topic = None, cs_sent = []\<rparr> of
                None \<Rightarrow> None
              | Some cs \<Rightarrow>
                  let st' = (cs_state cs)\<lparr>last_flush_topic :=
                        (case cs_last_planned_topic cs of
                           None \<Rightarrow> last_flush_topic (cs_state cs) | Some t \<Rightarrow> Some t)\<rparr>
                  in if cs_selected_shared_time_flush cs = None then Some (None, cs_sent cs, st')
                     else
                       let plans = sort_key tfp_topic (map snd (cs_topic_plans cs))
                       in (case plan_completions plans of
                             None \<Rightarrow> None
                           | Some completions \<Rightarrow>
                               Some (Some \<lparr>plan_topics = map without_senders plans,
                                           plan_max_segment_bytes = max_segment_bytes config feature_flags,
                                           plan_publication_completions = completions\<rparr>,
                                     cs_sent cs, st')))"

definition begin_shutdown_drain :: "WriteState \<Rightarrow> WriteState" where
  "begin_shutdown_drain st =
     st\<lparr>topics := map (\<lambda>(topic, parts).
          (topic, map (\<lambda>(vp, p). (vp, p\<lparr>draining := True\<rparr>)) parts)) (topics st)\<rparr>"

section \<open>Completing a plan\<close>

definition partition_result_error ::
    "FlushPartitionResult list \<Rightarrow> string \<Rightarrow> VirtualPartitionId \<Rightarrow> FlushCompletionError
     \<Rightarrow> FlushCompletionError option" where
  "partition_result_error results topic vp fallback =
     (case find (\<lambda>r. fpr_topic r = topic \<and> fpr_virtual_partition_id r = vp) results of
        None \<Rightarrow> Some fallback | Some r \<Rightarrow> fpr_error r)"

definition completion_state :: "FlushCompletionError option \<Rightarrow> FlushPublicationState" where
  "completion_state error =
     Completed (case error of None \<Rightarrow> Succeeded | Some e \<Rightarrow> Failed e)"

fun is_failed :: "FlushPublicationState \<Rightarrow> bool" where
  "is_failed (Completed (Failed _)) = True"
| "is_failed _ = False"

definition mark_one_complete ::
    "FlushPartitionResult list \<Rightarrow> FlushCompletionError \<Rightarrow> FlushPublicationCompletion \<Rightarrow> WriteState \<Rightarrow> WriteState" where
  "mark_one_complete results fallback completion st =
     (let topic = fpc_topic completion; vp = fpc_virtual_partition_id completion;
          error = partition_result_error results topic vp fallback;
          st1 = st\<lparr>channels := (channels st)[fpc_state_tx completion := completion_state error]\<rparr>
      in case partition_state st1 topic vp of
           None \<Rightarrow> st1
         | Some p \<Rightarrow>
             let p1 = p\<lparr>outstanding_flushes := outstanding_flushes p - 1\<rparr>;
                 failed = (case publication_tail p1 of
                             None \<Rightarrow> False | Some chan \<Rightarrow> is_failed (channels st1 ! chan))
             in put_partition st1 topic vp (if failed then p1\<lparr>publication_tail := None\<rparr> else p1))"

definition mark_flush_complete ::
    "WriteState \<Rightarrow> FlushPublicationCompletion list \<Rightarrow> FlushPartitionResult list \<Rightarrow> FlushCompletionError
     \<Rightarrow> WriteState" where
  "mark_flush_complete st completions results fallback =
     fold (mark_one_complete results fallback) completions st"

record FlushPlanCompletion =
  partition_results :: "FlushPartitionResult list"
  split_count :: u64

record FlushPlanFeedback =
  feedback_split_count :: u64
  feedback_successful :: bool

definition waiting_requests :: "FlushPlan \<Rightarrow> (string \<times> VirtualPartitionId \<times> FlushCompletion) list" where
  "waiting_requests plan =
     concat (map (\<lambda>topic_plan. concat (map (\<lambda>part.
        map (\<lambda>c. (tfp_topic topic_plan, fp_virtual_partition_id part, c)) (batch_completions (fp_batches part)))
        (tfp_partitions topic_plan))) (plan_topics plan))"

text \<open>
  \<open>flush_plan_and_notify\<close> around the result of the flush itself: publication states, partition
  bookkeeping, and the answer to every request whose batch was in the plan.
\<close>

definition flush_plan_and_notify ::
    "WriteState \<Rightarrow> FlushPlan \<Rightarrow> WriteError + FlushPlanCompletion
     \<Rightarrow> FlushPlanFeedback \<times> sent list \<times> WriteState" where
  "flush_plan_and_notify st plan result =
     (let successful = (case result of
            Inl _ \<Rightarrow> False
          | Inr completion \<Rightarrow> (\<forall>r \<in> set (partition_results completion). fpr_error r = None));
          fallback = (if result = Inl WriteLeaseFenceLost then LeaseFenceLost else InternalFailure);
          results = (case result of Inl _ \<Rightarrow> [] | Inr completion \<Rightarrow> partition_results completion);
          splits = (case result of Inl _ \<Rightarrow> 0 | Inr completion \<Rightarrow> split_count completion)
      in (\<lparr>feedback_split_count = splits, feedback_successful = successful\<rparr>,
          map (\<lambda>(topic, vp, c). (c, partition_result_error results topic vp fallback)) (waiting_requests plan),
          mark_flush_complete st (plan_publication_completions plan) results fallback))"

section \<open>Lemmas\<close>

subsection \<open>Accounting of batches\<close>

text \<open>
  Batches are counted with the partition they belong to: those in the buffers, those in the sections
  of a plan, and the answers that batches without a usable fence get.
\<close>

type_synonym tagged = "string \<times> VirtualPartitionId \<times> BufferedBatch"

definition tag :: "string \<Rightarrow> VirtualPartitionId \<Rightarrow> BufferedBatch list \<Rightarrow> tagged multiset" where
  "tag topic vp bs = mset (map (\<lambda>b. (topic, vp, b)) bs)"

definition buffered :: "WriteState \<Rightarrow> tagged multiset" where
  "buffered = partition_total (\<lambda>topic vp p. tag topic vp (batches (buffer p)))"

definition planned_parts :: "string \<Rightarrow> FlushPartition list \<Rightarrow> tagged multiset" where
  "planned_parts topic parts = (\<Sum>part\<leftarrow>parts. tag topic (fp_virtual_partition_id part) (fp_batches part))"

definition planned :: "TopicFlushPlan list \<Rightarrow> tagged multiset" where
  "planned plans = (\<Sum>plan\<leftarrow>plans. planned_parts (tfp_topic plan) (tfp_partitions plan))"

definition tagged_completions :: "tagged multiset \<Rightarrow> FlushCompletion multiset" where
  "tagged_completions bs =
     (\<Sum>(_, _, b) \<in># bs. (case bb_completion b of None \<Rightarrow> {#} | Some c \<Rightarrow> {#c#}))"

definition lost_answers :: "tagged multiset \<Rightarrow> sent multiset" where
  "lost_answers bs = {#(c, Some LeaseFenceLost). c \<in># tagged_completions bs#}"

lemma tag_simps [simp]: "tag topic vp [] = {#}" "tag topic vp (b # bs) = add_mset (topic, vp, b) (tag topic vp bs)"
  by (simp_all add: tag_def)

lemma planned_parts_simps [simp]:
  "planned_parts topic [] = {#}"
  "planned_parts topic (part # parts) =
     tag topic (fp_virtual_partition_id part) (fp_batches part) + planned_parts topic parts"
  "planned_parts topic (parts @ parts') = planned_parts topic parts + planned_parts topic parts'"
  by (simp_all add: planned_parts_def)

lemma tagged_completions_simps [simp]:
  "tagged_completions {#} = {#}" "tagged_completions (M + N) = tagged_completions M + tagged_completions N"
  by (simp_all add: tagged_completions_def)

lemma tagged_completions_tag: "tagged_completions (tag topic vp bs) = mset (batch_completions bs)"
  by (induction bs) (auto simp: tagged_completions_def split: option.splits)

lemma lost_answers_simps [simp]:
  "lost_answers {#} = {#}" "lost_answers (M + N) = lost_answers M + lost_answers N"
  "lost_answers (tag topic vp bs) = mset (fence_lost (batch_completions bs))"
  by (simp_all add: lost_answers_def fence_lost_def tagged_completions_tag)

lemma buffered_put:
  assumes "partition_state st topic vp = Some p"
  shows "buffered (put_partition st topic vp p') + tag topic vp (batches (buffer p))
    = buffered st + tag topic vp (batches (buffer p'))"
  unfolding buffered_def
  using partition_total_put[of "\<lambda>topic vp p. tag topic vp (batches (buffer p))" st topic vp p'] assms
  by simp

lemma buffered_cong [simp]:
  "buffered (st\<lparr>channels := chans\<rparr>) = buffered st"
  "buffered (st\<lparr>last_flush_topic := t\<rparr>) = buffered st"
  by (simp_all add: buffered_def)

subsection \<open>Taking a partition\<close>

text \<open>
  What a scheduling pass may do to a partition: empty its buffer, extend its chain of publications.
\<close>

definition drained_to :: "PartitionState \<Rightarrow> PartitionState \<Rightarrow> bool" where
  "drained_to p p' \<longleftrightarrow> seq_allocator p' = seq_allocator p \<and> lease_fence p' = lease_fence p
     \<and> ps_lease_expiration_at p' = ps_lease_expiration_at p \<and> draining p' = draining p
     \<and> allocation_in_flight p' = allocation_in_flight p
     \<and> (buffer p' = buffer p \<or> buffer p' = buffer_reset (buffer p))"

lemma buffer_reset_idem [simp]: "buffer_reset (buffer_reset b) = buffer_reset b"
  by (simp add: buffer_reset_def)

lemma drained_to_refl [simp]: "drained_to p p"
  by (simp add: drained_to_def)

lemma drained_to_trans: "drained_to p q \<Longrightarrow> drained_to q r \<Longrightarrow> drained_to p r"
  by (auto simp: drained_to_def)

lemma drained_to_batches:
  "drained_to p p' \<Longrightarrow> batches (buffer p') \<noteq> [] \<Longrightarrow> batches (buffer p') = batches (buffer p)"
  by (auto simp: drained_to_def)

definition drains :: "WriteState \<Rightarrow> WriteState \<Rightarrow> bool" where
  "drains st st' \<longleftrightarrow> assignment st' = assignment st \<and> (write_ok st \<longrightarrow> write_ok st')
     \<and> (\<forall>topic vp. rel_option drained_to (partition_state st topic vp) (partition_state st' topic vp))"

lemma drains_refl [simp]: "drains st st"
  by (simp add: drains_def option.rel_refl)

lemma drains_trans:
  assumes "drains st st'" "drains st' st''"
  shows "drains st st''"
proof -
  have "rel_option drained_to (partition_state st topic vp) (partition_state st'' topic vp)" for topic vp
  proof -
    have "rel_option drained_to (partition_state st topic vp) (partition_state st' topic vp)"
      "rel_option drained_to (partition_state st' topic vp) (partition_state st'' topic vp)"
      using assms unfolding drains_def by blast+
    then show ?thesis by (cases rule: option.rel_cases; auto elim!: option.rel_cases intro: drained_to_trans)
  qed
  with assms show ?thesis by (simp add: drains_def)
qed

lemma drains_put:
  assumes "partition_state st topic vp = Some p" "drained_to p p'"
  shows "drains st ((put_partition st topic vp p')\<lparr>channels := chans\<rparr>)"
  using assms by (auto simp: drains_def write_ok_put option.rel_refl)

lemma drains_partition:
  assumes "drains st st'" "partition_state st' topic vp = Some p'"
  obtains p where "partition_state st topic vp = Some p" "drained_to p p'"
proof -
  have "rel_option drained_to (partition_state st topic vp) (partition_state st' topic vp)"
    using assms(1) unfolding drains_def by blast
  with assms(2) that show thesis by (auto simp: option_rel_Some2)
qed

text \<open>The guarantee a fenced partition section carries.\<close>

definition fence_ok :: "bool \<Rightarrow> FlushPartition \<Rightarrow> bool" where
  "fence_ok require_fence part \<longleftrightarrow> (require_fence \<longrightarrow> fp_lease_fence part \<noteq> None
     \<and> (\<forall>b \<in> set (fp_batches part). bb_acceptance_fence b = fp_lease_fence part))"

text \<open>A partition whose batches a pass may claim: they were accepted under one known fence.\<close>

definition claimable :: "bool \<Rightarrow> PartitionState \<Rightarrow> bool" where
  "claimable require_fence p \<longleftrightarrow> batches (buffer p) \<noteq> [] \<and> (require_fence \<longrightarrow>
     (\<exists>fence. \<forall>b \<in> set (batches (buffer p)). bb_acceptance_fence b = Some fence))"

lemma take_flush_partition_cases:
  assumes "take_flush_partition chans p vp trigger require_fence = (taken, msgs, p', chans')"
  obtains (skipped) "taken = None" "chans' = chans" "p' = p\<lparr>buffer := buffer_reset (buffer p)\<rparr>"
      "msgs = fence_lost (batch_completions (batches (buffer p)))"
      "batches (buffer p) = [] \<or> \<not> claimable require_fence p"
  | (taken) part where "taken = Some part" "msgs = []" "chans' = chans @ [PublicationPending]"
      "batches (buffer p) \<noteq> []"
      "p' = p\<lparr>buffer := buffer_reset (buffer p), publication_tail := Some (length chans),
             outstanding_flushes := outstanding_flushes p + 1\<rparr>"
      "fp_batches part = batches (buffer p)" "fp_virtual_partition_id part = vp" "fp_trigger part = trigger"
      "fp_publication_predecessor part = publication_tail p" "fp_publication_state_tx part = Some (length chans)"
      "fence_ok require_fence part" "claimable require_fence p"
proof (cases "batches (buffer p) = []")
  case True
  with assms show thesis by (intro skipped) (auto simp: take_flush_partition_def fence_lost_def)
next
  case nonempty: False
  let ?bs = "batches (buffer p)" and ?f = "bb_acceptance_fence (hd (batches (buffer p)))"
  show thesis
  proof (cases "require_fence \<and> (?f = None \<or> \<not> (\<forall>b \<in> set ?bs. bb_acceptance_fence b = ?f))")
    case True
    have "\<not> claimable require_fence p"
    proof
      assume "claimable require_fence p"
      then obtain fence where "\<forall>b \<in> set ?bs. bb_acceptance_fence b = Some fence"
        using True by (auto simp: claimable_def)
      with hd_in_set[OF nonempty] True show False by simp
    qed
    moreover note body = assms[unfolded take_flush_partition_def Let_def if_not_P[OF nonempty] if_P[OF True]]
    ultimately show thesis by (intro skipped) auto
  next
    case False
    then have "require_fence \<longrightarrow> (\<exists>fence. ?f = Some fence \<and> (\<forall>b \<in> set ?bs. bb_acceptance_fence b = ?f))"
      by (cases ?f) blast+
    then have "claimable require_fence p" using nonempty unfolding claimable_def by metis
    moreover note body = assms[unfolded take_flush_partition_def Let_def if_not_P[OF nonempty] if_not_P[OF False]]
    have "fence_ok require_fence (the taken)" using body False unfolding fence_ok_def by force
    ultimately show thesis using body nonempty by (intro taken[of "the taken"]) auto
  qed
qed

lemma take_flush_partition_drains:
  assumes "take_flush_partition chans p vp trigger require_fence = (taken, msgs, p', chans')"
  shows "drained_to p p' \<and> batches (buffer p') = []"
  by (rule take_flush_partition_cases[OF assms]) (simp_all add: drained_to_def)

text \<open>Where a section of a plan comes from: the whole buffer of its partition.\<close>

definition section_of :: "WriteState \<Rightarrow> string \<Rightarrow> FlushPartition \<Rightarrow> bool" where
  "section_of st topic part \<longleftrightarrow>
     (\<exists>p. partition_state st topic (fp_virtual_partition_id part) = Some p
        \<and> fp_batches part = batches (buffer p) \<and> batches (buffer p) \<noteq> []
        \<and> fp_publication_state_tx part \<noteq> None)"

lemma section_of_earlier:
  assumes "section_of st' topic part" "drains st st'"
  shows "section_of st topic part"
proof -
  obtain p' where p': "partition_state st' topic (fp_virtual_partition_id part) = Some p'"
    "fp_batches part = batches (buffer p')" "batches (buffer p') \<noteq> []" "fp_publication_state_tx part \<noteq> None"
    using assms(1) by (auto simp: section_of_def)
  obtain p where p: "partition_state st topic (fp_virtual_partition_id part) = Some p" "drained_to p p'"
    using drains_partition[OF assms(2) p'(1)] by blast
  with p' drained_to_batches[OF p(2)] show ?thesis by (auto simp: section_of_def)
qed

definition emptied :: "WriteState \<Rightarrow> string \<Rightarrow> FlushPartition \<Rightarrow> bool" where
  "emptied st topic part \<longleftrightarrow>
     (\<exists>p. partition_state st topic (fp_virtual_partition_id part) = Some p \<and> batches (buffer p) = [])"

lemma emptied_later:
  assumes "emptied st topic part" "drains st st'"
  shows "emptied st' topic part"
proof -
  obtain p where p: "partition_state st topic (fp_virtual_partition_id part) = Some p" "batches (buffer p) = []"
    using assms(1) by (auto simp: emptied_def)
  have "rel_option drained_to (partition_state st topic (fp_virtual_partition_id part))
      (partition_state st' topic (fp_virtual_partition_id part))"
    using assms(2) unfolding drains_def by blast
  with p show ?thesis by (auto simp: emptied_def option_rel_Some1 drained_to_def)
qed

lemma section_not_emptied:
  "section_of st topic part \<Longrightarrow> emptied st topic part' \<Longrightarrow> fp_virtual_partition_id part \<noteq> fp_virtual_partition_id part'"
  by (auto simp: section_of_def emptied_def)

lemma take_flush_partitions_spec:
  assumes "take_flush_partitions st topic vps trigger max_partitions require_fence = (parts, msgs, st')"
  shows "drains st st'
    \<and> (\<exists>dropped. buffered st = buffered st' + planned_parts topic parts + dropped
         \<and> mset msgs = lost_answers dropped \<and> (dropped \<noteq> {#} \<longrightarrow> require_fence))
    \<and> (\<forall>part \<in> set parts. section_of st topic part \<and> fp_trigger part = trigger
         \<and> fp_virtual_partition_id part \<in> set vps \<and> fence_ok require_fence part \<and> emptied st' topic part)
    \<and> distinct (map fp_virtual_partition_id parts)
    \<and> (\<forall>n. max_partitions = Some n \<longrightarrow> length parts \<le> n)"
  using assms
proof (induction vps arbitrary: st parts msgs st' max_partitions)
  case Nil
  then show ?case by (auto intro: exI[of _ "{#}"])
next
  case (Cons vp vps)
  show ?case
  proof (cases "max_partitions = Some 0")
    case True
    with Cons.prems show ?thesis by (auto intro: exI[of _ "{#}"])
  next
    case room: False
    show ?thesis
    proof (cases "\<exists>p. partition_state st topic vp = Some p
        \<and> \<not> (trigger = MaxDelay \<and> draining p \<or> tail_pending (channels st) p)")
      case False
      then have "take_flush_partitions st topic vps trigger max_partitions require_fence = (parts, msgs, st')"
        using Cons.prems room by (auto split: option.splits if_splits)
      from Cons.IH[OF this] show ?thesis by auto
    next
      case True
      then obtain p where p: "partition_state st topic vp = Some p"
        "\<not> (trigger = MaxDelay \<and> draining p \<or> tail_pending (channels st) p)" by blast
      obtain tk ms p' chans' where tk: "take_flush_partition (channels st) p vp trigger require_fence = (tk, ms, p', chans')"
        by (metis prod_cases4)
      define st1 where "st1 = (put_partition st topic vp p')\<lparr>channels := chans'\<rparr>"
      have d1: "drains st st1"
        using take_flush_partition_drains[OF tk] drains_put[OF p(1)] by (simp add: st1_def)
      have b1: "buffered st = buffered st1 + tag topic vp (batches (buffer p))"
        using buffered_put[OF p(1), of p'] take_flush_partition_drains[OF tk] by (simp add: st1_def)
      show ?thesis
      proof (cases tk)
        case None
        obtain ms' where rest: "take_flush_partitions st1 topic vps trigger max_partitions require_fence = (parts, ms', st')"
          and m: "msgs = ms @ ms'"
          using Cons.prems room p tk None by (auto simp: st1_def Let_def split: prod.splits)
        have ms: "mset ms = lost_answers (tag topic vp (batches (buffer p)))"
          "tag topic vp (batches (buffer p)) \<noteq> {#} \<longrightarrow> require_fence"
          using tk None by (auto elim!: take_flush_partition_cases simp: claimable_def)
        note IH = Cons.IH[OF rest]
        obtain dropped where dr: "buffered st1 = buffered st' + planned_parts topic parts + dropped"
          "mset ms' = lost_answers dropped" "dropped \<noteq> {#} \<longrightarrow> require_fence" using IH by blast
        have "buffered st = buffered st' + planned_parts topic parts + (dropped + tag topic vp (batches (buffer p)))"
          using b1 dr by (simp add: ac_simps)
        moreover have "mset msgs = lost_answers (dropped + tag topic vp (batches (buffer p)))"
          using ms dr m by (simp add: ac_simps)
        moreover have "dropped + tag topic vp (batches (buffer p)) \<noteq> {#} \<longrightarrow> require_fence"
          using ms(2) dr(3) by auto
        ultimately have "\<exists>dropped. buffered st = buffered st' + planned_parts topic parts + dropped
            \<and> mset msgs = lost_answers dropped \<and> (dropped \<noteq> {#} \<longrightarrow> require_fence)" by blast
        then show ?thesis
          using IH drains_trans[OF d1] section_of_earlier[OF _ d1] by simp
      next
        case (Some part)
        obtain parts' where rest: "take_flush_partitions st1 topic vps trigger
              (map_option (\<lambda>n. n - 1) max_partitions) require_fence = (parts', msgs, st')"
          and ps: "parts = part # parts'"
          using Cons.prems room p tk Some by (auto simp: st1_def Let_def split: prod.splits elim: take_flush_partition_cases)
        have pt: "fp_batches part = batches (buffer p)" "batches (buffer p) \<noteq> []" "fp_virtual_partition_id part = vp"
          "fp_trigger part = trigger" "fp_publication_state_tx part \<noteq> None" "fence_ok require_fence part"
          using tk Some by (auto elim!: take_flush_partition_cases)
        note IH = Cons.IH[OF rest]
        obtain dropped where dr: "buffered st1 = buffered st' + planned_parts topic parts' + dropped"
          "mset msgs = lost_answers dropped" "dropped \<noteq> {#} \<longrightarrow> require_fence" using IH by blast
        have "buffered st = buffered st' + planned_parts topic parts + dropped"
          using b1 dr by (simp add: ps pt ac_simps)
        moreover have "section_of st topic part" using p(1) pt by (auto simp: section_of_def)
        moreover have "length parts \<le> n" if "max_partitions = Some n" for n
          using IH that room by (cases n) (auto simp: ps)
        moreover have "emptied st1 topic part"
          using take_flush_partition_drains[OF tk] pt(3) by (simp add: emptied_def st1_def)
        moreover have "fp_virtual_partition_id part \<notin> fp_virtual_partition_id ` set parts'"
          using IH section_not_emptied[OF _ \<open>emptied st1 topic part\<close>] by force
        ultimately show ?thesis
          using IH pt dr(2,3) drains_trans[OF d1] section_of_earlier[OF _ d1] emptied_later[of st1 topic part st']
          by (auto simp: ps)
      qed
    qed
  qed
qed


subsection \<open>The selection loop\<close>

text \<open>A topic section of the plan under construction.\<close>

definition topic_plan_ok :: "bool \<Rightarrow> WriteState \<Rightarrow> WriteState \<Rightarrow> string \<Rightarrow> TopicFlushPlan \<Rightarrow> bool" where
  "topic_plan_ok fenced st0 st topic plan \<longleftrightarrow> tfp_topic plan = topic
     \<and> tfp_partitions plan \<noteq> [] \<and> tfp_fenced_metadata_writes plan = fenced
     \<and> (fenced \<longrightarrow> length (tfp_partitions plan) \<le> MAX_FENCED_METADATA_PARTITIONS)
     \<and> distinct (map fp_virtual_partition_id (tfp_partitions plan))
     \<and> (\<forall>part \<in> set (tfp_partitions plan). section_of st0 topic part \<and> emptied st topic part
          \<and> fence_ok fenced part \<and> fp_trigger part = fp_trigger (hd (tfp_partitions plan)))"

lemma topic_plan_ok_later:
  "topic_plan_ok fenced st0 st topic plan \<Longrightarrow> drains st st' \<Longrightarrow> topic_plan_ok fenced st0 st' topic plan"
  unfolding topic_plan_ok_def by (blast intro: emptied_later)

definition collected :: "(string, TopicFlushPlan) hmap \<Rightarrow> tagged multiset" where
  "collected plans = hm_sum (\<lambda>topic plan. planned_parts topic (tfp_partitions plan)) plans"

definition accounted :: "bool \<Rightarrow> WriteState \<Rightarrow> CollectState \<Rightarrow> bool" where
  "accounted fenced st0 cs \<longleftrightarrow> (\<exists>dropped.
     buffered st0 = buffered (cs_state cs) + collected (cs_topic_plans cs) + dropped
     \<and> mset (cs_sent cs) = lost_answers dropped \<and> (dropped \<noteq> {#} \<longrightarrow> fenced))"

definition collect_ok :: "bool \<Rightarrow> WriteState \<Rightarrow> CollectState \<Rightarrow> bool" where
  "collect_ok fenced st0 cs \<longleftrightarrow> drains st0 (cs_state cs) \<and> hm_ok (cs_topic_plans cs)
     \<and> (\<forall>(topic, plan) \<in> set (cs_topic_plans cs). topic_plan_ok fenced st0 (cs_state cs) topic plan)
     \<and> (cs_selected_shared_time_flush cs = None \<longleftrightarrow> cs_topic_plans cs = [])
     \<and> accounted fenced st0 cs"

text \<open>A section is inserted only for a topic that has none, so no claimed batch is overwritten.\<close>

lemma joins_new_plan_is_fresh:
  assumes "collect_ok fenced st0 cs" "requires_new_topic_plan fenced (hm_get (cs_topic_plans cs) topic) trigger"
    "joins_selected_plan (cs_selected_shared_time_flush cs) True trigger (hm_get (cs_topic_plans cs) topic)"
  shows "hm_get (cs_topic_plans cs) topic = None"
  using assms by (auto simp: joins_selected_plan_def collect_ok_def Let_def split: option.splits bool.splits)

lemma accounted_extend:
  assumes "accounted fenced st0 cs" "mset msgs = lost_answers dropped" "dropped \<noteq> {#} \<longrightarrow> fenced"
    "buffered (cs_state cs) = buffered st' + extra + dropped"
    "cs_state cs' = st'" "cs_sent cs' = cs_sent cs @ msgs"
    "collected (cs_topic_plans cs') = collected (cs_topic_plans cs) + extra"
  shows "accounted fenced st0 cs'"
proof -
  obtain d where d: "buffered st0 = buffered (cs_state cs) + collected (cs_topic_plans cs) + d"
    "mset (cs_sent cs) = lost_answers d" "d \<noteq> {#} \<longrightarrow> fenced" using assms(1) by (auto simp: accounted_def)
  have "buffered st0 = buffered (cs_state cs') + collected (cs_topic_plans cs') + (d + dropped)"
    using d(1) assms(4,5,7) by (simp add: ac_simps)
  moreover have "mset (cs_sent cs') = lost_answers (d + dropped)"
    using d(2) assms(2,6) by simp
  moreover have "d + dropped \<noteq> {#} \<longrightarrow> fenced" using d(3) assms(3) by auto
  ultimately show ?thesis unfolding accounted_def by blast
qed

lemma collect_key_ok:
  assumes ok: "collect_ok fenced st0 cs"
    and step: "collect_key fenced shared now flush_config infos keys (topic, vp) cs = Some cs'"
  shows "collect_ok fenced st0 cs'"
proof -
  obtain info where info: "hm_get infos topic = Some info"
    using step by (auto simp: collect_key_def split: option.splits)
  note body = step[unfolded collect_key_def prod.case info option.case]
  show ?thesis
  proof (cases "key_trigger shared now flush_config (partition_state (cs_state cs) topic vp)")
    case None
    with body ok show ?thesis by simp
  next
    case (Some trigger)
    let ?existing = "hm_get (cs_topic_plans cs) topic"
    let ?new = "requires_new_topic_plan fenced ?existing trigger"
    let ?limit = "max_partitions_for fenced ?new ?existing"
    let ?vps = "if trigger = MaxDelay then partition_ids_of_topic keys topic else [vp]"
    show ?thesis
    proof (cases "joins_selected_plan (cs_selected_shared_time_flush cs) ?new trigger ?existing")
      case False
      with body ok Some show ?thesis by (simp add: Let_def)
    next
      case joins: True
      obtain parts msgs st' where tk: "take_flush_partitions (cs_state cs) topic ?vps trigger ?limit fenced = (parts, msgs, st')"
        by (metis prod_cases3)
      note spec = take_flush_partitions_spec[OF tk]
      obtain dropped where dr: "buffered (cs_state cs) = buffered st' + planned_parts topic parts + dropped"
        "mset msgs = lost_answers dropped" "dropped \<noteq> {#} \<longrightarrow> fenced" using spec by blast
      have d: "drains (cs_state cs) st'" using spec by blast
      have d0: "drains st0 st'" using drains_trans ok d by (auto simp: collect_ok_def)
      have acc: "accounted fenced st0 cs" using ok by (simp add: collect_ok_def)
      have old: "\<forall>(t, plan) \<in> set (cs_topic_plans cs). topic_plan_ok fenced st0 st' t plan"
        using ok topic_plan_ok_later[OF _ d] by (auto simp: collect_ok_def)
      have parts: "\<forall>part \<in> set parts. section_of st0 topic part \<and> emptied st' topic part \<and> fence_ok fenced part
          \<and> fp_trigger part = trigger" "distinct (map fp_virtual_partition_id parts)"
        using spec section_of_earlier ok by (auto simp: collect_ok_def)
      have len: "length parts \<le> n" if "?limit = Some n" for n using spec that by blast
      consider (none_taken) "parts = []" | (fresh) "parts \<noteq> []" "?new" | (extend) "parts \<noteq> []" "\<not> ?new" by blast
      then show ?thesis
      proof cases
        case none_taken
        then have cs': "cs' = cs\<lparr>cs_state := st', cs_sent := cs_sent cs @ msgs\<rparr>"
          using body Some joins tk by (simp add: Let_def)
        have "planned_parts topic parts = {#}" using none_taken by simp
        then have "accounted fenced st0 cs'"
          by (intro accounted_extend[OF acc dr(2,3) dr(1)]) (simp_all add: cs')
        then show ?thesis using ok old d0 by (auto simp: collect_ok_def cs')
      next
        case fresh
        have none: "?existing = None"
          using joins_new_plan_is_fresh[OF ok fresh(2)] joins fresh(2) by simp
        let ?plan = "\<lparr>tfp_topic = topic, tfp_partitions = parts,
          tfp_max_metadata_publication_lag = max_metadata_publication_lag info,
          tfp_metadata_window_size = metadata_window_size info, tfp_fenced_metadata_writes = fenced\<rparr>"
        have plans: "cs_topic_plans cs' = cs_topic_plans cs @ [(topic, ?plan)]"
          using body Some joins tk fresh none
          by (auto simp: Let_def map_of_eq_None_iff intro!: hm_insert_fresh)
        have rest: "cs_state cs' = st'" "cs_sent cs' = cs_sent cs @ msgs" "cs_selected_shared_time_flush cs' \<noteq> None"
          using body Some joins tk fresh by (auto simp: Let_def split: option.split)
        have "topic_plan_ok fenced st0 st' topic ?plan"
          using parts len fresh by (auto simp: topic_plan_ok_def max_partitions_for_def)
        moreover have "accounted fenced st0 cs'"
          by (rule accounted_extend[OF acc dr(2,3) dr(1) rest(1,2)])
            (simp add: plans collected_def hm_sum_def)
        moreover have "hm_ok (cs_topic_plans cs')"
          using ok none by (auto simp: plans collect_ok_def map_of_eq_None_iff)
        ultimately show ?thesis
          using d0 old rest by (auto simp: collect_ok_def plans)
      next
        case extend
        then obtain plan where plan: "?existing = Some plan" by (cases ?existing) (auto simp: requires_new_topic_plan_def)
        let ?plan = "plan\<lparr>tfp_partitions := tfp_partitions plan @ parts\<rparr>"
        have plans: "cs_topic_plans cs' = hm_insert topic ?plan (cs_topic_plans cs)"
          and rest: "cs_state cs' = st'" "cs_sent cs' = cs_sent cs @ msgs"
            "cs_selected_shared_time_flush cs' = cs_selected_shared_time_flush cs"
          using body Some joins tk extend plan by (auto simp: Let_def)
        have pok: "topic_plan_ok fenced st0 (cs_state cs) topic plan" "topic_plan_ok fenced st0 st' topic plan"
          using ok old map_of_SomeD[OF plan] by (auto simp: collect_ok_def)
        obtain first rest_parts where ps: "tfp_partitions plan = first # rest_parts"
          using pok(1) by (auto simp: topic_plan_ok_def neq_Nil_conv)
        have trig: "fp_trigger (hd (tfp_partitions plan)) = trigger"
          using extend(2) by (simp add: plan ps requires_new_topic_plan_def)
        have disj: "fp_virtual_partition_id part \<noteq> fp_virtual_partition_id part'"
          if "part \<in> set parts" "part' \<in> set (tfp_partitions plan)" for part part'
          using that pok(1) spec section_not_emptied[of "cs_state cs" topic part part'] unfolding topic_plan_ok_def by blast
        have room: "fenced \<longrightarrow> length (tfp_partitions plan @ parts) \<le> MAX_FENCED_METADATA_PARTITIONS"
        proof
          assume fenced
          then have "?limit = Some (MAX_FENCED_METADATA_PARTITIONS - length (tfp_partitions plan))"
            "length (tfp_partitions plan) \<le> MAX_FENCED_METADATA_PARTITIONS"
            using extend(2) pok(1) by (simp_all add: max_partitions_for_def plan topic_plan_ok_def)
          then show "length (tfp_partitions plan @ parts) \<le> MAX_FENCED_METADATA_PARTITIONS"
            using len[of "MAX_FENCED_METADATA_PARTITIONS - length (tfp_partitions plan)"] by simp
        qed
        have "fp_virtual_partition_id ` set (tfp_partitions plan) \<inter> fp_virtual_partition_id ` set parts = {}"
          using disj by force
        then have "topic_plan_ok fenced st0 st' topic ?plan"
          using parts pok(2) trig room unfolding topic_plan_ok_def by (simp add: ps ball_Un)
        moreover have "collected (cs_topic_plans cs') = collected (cs_topic_plans cs) + planned_parts topic parts"
          using hm_sum_insert[of "\<lambda>topic plan. planned_parts topic (tfp_partitions plan)" topic ?plan "cs_topic_plans cs"]
          by (simp add: collected_def plans plan)
        then have "accounted fenced st0 cs'" by (rule accounted_extend[OF acc dr(2,3) dr(1) rest(1,2)])
        moreover have "hm_ok (cs_topic_plans cs')" "cs_topic_plans cs' \<noteq> []" "cs_topic_plans cs \<noteq> []"
          using ok map_of_SomeD[OF plan] by (auto simp: plans collect_ok_def hm_ok_insert)
        ultimately show ?thesis
          using d0 old rest ok hm_insert_subset[of topic ?plan "cs_topic_plans cs"]
          unfolding collect_ok_def plans by auto
      qed
    qed
  qed
qed


lemma collect_keys_ok:
  assumes "collect_keys fenced shared now flush_config infos keys rest cs = Some cs'" "collect_ok fenced st0 cs"
  shows "collect_ok fenced st0 cs'"
  using assms
proof (induction rest arbitrary: cs)
  case (Cons key rest)
  obtain cs1 where "collect_key fenced shared now flush_config infos keys key cs = Some cs1"
    "collect_keys fenced shared now flush_config infos keys rest cs1 = Some cs'"
    using Cons.prems(1) by (auto split: option.splits)
  with Cons.IH collect_key_ok[OF Cons.prems(2)] show ?case by (cases key) blast
qed simp

text \<open>The loop does not panic while every partition belongs to a configured topic.\<close>

lemma collect_key_total:
  assumes "hm_get infos topic \<noteq> None" "collect_ok fenced st0 cs"
  shows "\<exists>cs'. collect_key fenced shared now flush_config infos keys (topic, vp) cs = Some cs'"
proof -
  have "hm_get (cs_topic_plans cs) topic \<noteq> None"
    if "\<not> requires_new_topic_plan fenced (hm_get (cs_topic_plans cs) topic) trigger" for trigger
    using that by (cases "hm_get (cs_topic_plans cs) topic") (auto simp: requires_new_topic_plan_def)
  note some_plan = this
  obtain info where info: "hm_get infos topic = Some info" using assms(1) by auto
  show ?thesis
  proof (cases "key_trigger shared now flush_config (partition_state (cs_state cs) topic vp)")
    case None
    then show ?thesis by (simp add: collect_key_def info)
  next
    case (Some trigger)
    let ?existing = "hm_get (cs_topic_plans cs) topic"
    let ?new = "requires_new_topic_plan fenced ?existing trigger"
    obtain parts msgs st' where tk: "take_flush_partitions (cs_state cs) topic
        (if trigger = MaxDelay then partition_ids_of_topic keys topic else [vp]) trigger
        (max_partitions_for fenced ?new ?existing) fenced = (parts, msgs, st')"
      by (metis prod_cases3)
    show ?thesis
    proof (cases ?new)
      case True
      with Some tk show ?thesis by (simp add: collect_key_def info Let_def)
    next
      case False
      then obtain plan where "?existing = Some plan" using some_plan by auto
      with Some tk False show ?thesis by (simp add: collect_key_def info Let_def)
    qed
  qed
qed

lemma collect_keys_total:
  assumes "\<forall>(topic, vp) \<in> set rest. hm_get infos topic \<noteq> None" "collect_ok fenced st0 cs"
  shows "\<exists>cs'. collect_keys fenced shared now flush_config infos keys rest cs = Some cs'"
  using assms
proof (induction rest arbitrary: cs)
  case (Cons key rest)
  obtain topic vp where key: "key = (topic, vp)" by force
  obtain cs1 where cs1: "collect_key fenced shared now flush_config infos keys key cs = Some cs1"
    using collect_key_total[of infos topic fenced st0 cs shared now flush_config keys vp] Cons.prems
    by (auto simp: key)
  have "collect_ok fenced st0 cs1" using collect_key_ok[OF Cons.prems(2)] cs1 by (simp add: key)
  with Cons cs1 show ?case by auto
qed simp

lemma scan_triggers_flushable:
  "fst (scan_triggers ts flushable shared) \<longleftrightarrow> flushable \<or> (\<exists>t \<in> set ts. t \<noteq> None)"
  by (induction ts arbitrary: flushable shared) (auto simp: Let_def)

lemma initial_collect_ok:
  "collect_ok fenced st \<lparr>cs_state = st, cs_topic_plans = [], cs_selected_shared_time_flush = None,
     cs_last_planned_topic = None, cs_sent = []\<rparr>"
  by (auto simp: collect_ok_def accounted_def collected_def intro: exI[of _ "{#}"])

lemma collect_options_all:
  "\<forall>x \<in> set xs. x \<noteq> None \<Longrightarrow> \<exists>ys. collect_options xs = Some ys \<and> map Some ys = xs"
  by (induction xs) auto

lemma planned_sort:
  assumes "hm_ok plans" "\<forall>(topic, plan) \<in> set plans. tfp_topic plan = topic"
  shows "planned (map without_senders (sort_key tfp_topic (map snd plans))) = collected plans"
proof -
  let ?f = "\<lambda>plan. planned_parts (tfp_topic plan) (tfp_partitions plan)"
  have part: "planned_parts topic (map (\<lambda>part. part\<lparr>fp_publication_state_tx := None\<rparr>) parts) = planned_parts topic parts"
    for topic parts by (induction parts) auto
  have "planned (map without_senders ps) = (\<Sum>plan\<leftarrow>ps. ?f plan)" for ps
    by (induction ps) (auto simp: planned_def without_senders_def part)
  also have "(\<Sum>plan\<leftarrow>sort_key tfp_topic (map snd plans). ?f plan) = (\<Sum>plan \<in># mset (sort_key tfp_topic (map snd plans)). ?f plan)"
    by (simp only: sum_mset_sum_list[symmetric] mset_map)
  also have "\<dots> = (\<Sum>plan\<leftarrow>map snd plans. ?f plan)"
    by (simp only: mset_sort sum_mset_sum_list[symmetric] mset_map)
  also have "\<dots> = collected plans"
    using assms(2) by (induction plans) (auto simp: collected_def)
  finally show ?thesis .
qed

text \<open>Every topic with partitions is configured; the write path creates state only for such topics.\<close>

definition topics_configured :: "(string, TopicInfo) hmap \<Rightarrow> WriteState \<Rightarrow> bool" where
  "topics_configured infos st \<longleftrightarrow> (\<forall>topic vp. partition_state st topic vp \<noteq> None \<longrightarrow> hm_get infos topic \<noteq> None)"

text \<open>A topic section of the finished plan.\<close>

definition plan_section_ok :: "bool \<Rightarrow> WriteState \<Rightarrow> TopicFlushPlan \<Rightarrow> bool" where
  "plan_section_ok fenced st plan \<longleftrightarrow> tfp_partitions plan \<noteq> []
     \<and> (fenced \<longrightarrow> length (tfp_partitions plan) \<le> MAX_FENCED_METADATA_PARTITIONS)
     \<and> distinct (map fp_virtual_partition_id (tfp_partitions plan))
     \<and> (\<forall>part \<in> set (tfp_partitions plan).
          fp_trigger part = fp_trigger (hd (tfp_partitions plan)) \<and> fence_ok fenced part
          \<and> (\<exists>p. partition_state st (tfp_topic plan) (fp_virtual_partition_id part) = Some p
               \<and> fp_batches part = batches (buffer p) \<and> batches (buffer p) \<noteq> []))"

lemma without_senders_section_ok:
  assumes "topic_plan_ok fenced st st' topic plan"
  shows "plan_section_ok fenced st (without_senders plan)"
proof -
  let ?strip = "\<lambda>part. part\<lparr>fp_publication_state_tx := None\<rparr>"
  let ?parts = "tfp_partitions plan"
  have "tfp_topic plan = topic" using assms unfolding topic_plan_ok_def by blast
  then have eq: "tfp_partitions (without_senders plan) = map ?strip ?parts" "tfp_topic (without_senders plan) = topic"
    by (simp_all add: without_senders_def)
  have ne: "?parts \<noteq> []" "fenced \<longrightarrow> length ?parts \<le> MAX_FENCED_METADATA_PARTITIONS"
    "distinct (map fp_virtual_partition_id ?parts)"
    using assms unfolding topic_plan_ok_def by blast+
  have vps: "map fp_virtual_partition_id (map ?strip ps) = map fp_virtual_partition_id ps" for ps by simp
  have first: "fp_trigger (hd (map ?strip ?parts)) = fp_trigger (hd ?parts)" using ne(1) by (simp add: hd_map)
  have each: "fp_trigger part = fp_trigger (hd ?parts) \<and> fence_ok fenced (?strip part)
      \<and> (\<exists>p. partition_state st topic (fp_virtual_partition_id part) = Some p
           \<and> fp_batches part = batches (buffer p) \<and> batches (buffer p) \<noteq> [])" if "part \<in> set ?parts" for part
  proof -
    have "section_of st topic part" "fence_ok fenced part" "fp_trigger part = fp_trigger (hd ?parts)"
      using that assms unfolding topic_plan_ok_def by blast+
    then show ?thesis by (auto simp: section_of_def fence_ok_def)
  qed
  show ?thesis
    unfolding plan_section_ok_def eq vps first
  proof (intro conjI ballI)
    fix part'
    assume "part' \<in> set (map ?strip ?parts)"
    then obtain part where part: "part \<in> set ?parts" "part' = ?strip part" by auto
    show "fp_trigger part' = fp_trigger (hd ?parts)" "fence_ok fenced part'"
      "\<exists>p. partition_state st topic (fp_virtual_partition_id part') = Some p
         \<and> fp_batches part' = batches (buffer p) \<and> batches (buffer p) \<noteq> []"
      using each[OF part(1)] by (simp_all add: part(2))
  qed (use ne in simp_all)
qed

definition planned_batches :: "FlushPlan option \<Rightarrow> tagged multiset" where
  "planned_batches plan = (case plan of None \<Rightarrow> {#} | Some pl \<Rightarrow> planned (plan_topics pl))"

lemma collect_next_flush_plan_spec:
  assumes "write_ok st" "topics_configured infos st" "fenced = fenced_metadata_writes config feature_flags"
  obtains plan msgs st' where
    "collect_next_flush_plan st now config flush_config feature_flags infos = Some (plan, msgs, st')"
    "\<exists>dropped. buffered st = buffered st' + planned_batches plan + dropped
       \<and> mset msgs = lost_answers dropped \<and> (dropped \<noteq> {#} \<longrightarrow> fenced)"
    "drains st st'"
    "\<forall>pl. plan = Some pl \<longrightarrow> distinct (map tfp_topic (plan_topics pl))
       \<and> sorted (map tfp_topic (plan_topics pl)) \<and> plan_topics pl \<noteq> []
       \<and> (\<forall>sec \<in> set (plan_topics pl). plan_section_ok fenced st sec)"
proof (cases "fst (scan_triggers (concat (map (\<lambda>(_, parts). map (\<lambda>(_, p). partition_flush_trigger p now flush_config) parts)
    (topics st))) False False)")
  case False
  then have "collect_next_flush_plan st now config flush_config feature_flags infos = Some (None, [], st)"
    by (simp add: collect_next_flush_plan_def Let_def split_def)
  moreover have "\<exists>dropped. buffered st = buffered st + planned_batches None + dropped
      \<and> mset [] = lost_answers dropped \<and> (dropped \<noteq> {#} \<longrightarrow> fenced)"
    by (rule exI[of _ "{#}"]) (simp add: planned_batches_def)
  ultimately show thesis by (rule that) simp_all
next
  case flushable: True
  let ?keys = "sort (partition_keys st)"
  let ?order = "rotate (rotation_start (last_flush_topic st) ?keys) ?keys"
  let ?cs0 = "\<lparr>cs_state = st, cs_topic_plans = [], cs_selected_shared_time_flush = None,
     cs_last_planned_topic = None, cs_sent = []\<rparr>"
  obtain shared where shared: "snd (scan_triggers (concat (map (\<lambda>(_, parts).
      map (\<lambda>(_, p). partition_flush_trigger p now flush_config) parts) (topics st))) False False) = shared" by blast
  have conf: "\<forall>(topic, vp) \<in> set ?order. hm_get infos topic \<noteq> None"
  proof -
    have "hm_get infos topic \<noteq> None" if "(topic, vp) \<in> set ?order" for topic vp
    proof -
      have "partition_state st topic vp \<noteq> None"
        using that partition_keys_set[OF assms(1), of topic vp] by simp
      with assms(2) show ?thesis unfolding topics_configured_def by blast
    qed
    then show ?thesis by blast
  qed
  obtain cs where cs: "collect_keys fenced shared now flush_config infos ?keys ?order ?cs0 = Some cs"
    using collect_keys_total[OF conf initial_collect_ok] by blast
  have ok: "collect_ok fenced st cs" by (rule collect_keys_ok[OF cs initial_collect_ok])
  let ?st' = "(cs_state cs)\<lparr>last_flush_topic := (case cs_last_planned_topic cs of
      None \<Rightarrow> last_flush_topic (cs_state cs) | Some t \<Rightarrow> Some t)\<rparr>"
  obtain dropped where dropped: "buffered st = buffered ?st' + collected (cs_topic_plans cs) + dropped"
    "mset (cs_sent cs) = lost_answers dropped" "dropped \<noteq> {#} \<longrightarrow> fenced"
    using ok by (auto simp: collect_ok_def accounted_def)
  have dr: "drains st ?st'" using ok by (simp add: collect_ok_def drains_def)
  show thesis
  proof (cases "cs_selected_shared_time_flush cs = None")
    case True
    then have "cs_topic_plans cs = []" using ok by (simp add: collect_ok_def)
    moreover have "collect_next_flush_plan st now config flush_config feature_flags infos = Some (None, cs_sent cs, ?st')"
      using flushable shared cs True by (simp add: collect_next_flush_plan_def Let_def split_def assms(3)[symmetric])
    moreover have "\<exists>dropped. buffered st = buffered ?st' + planned_batches None + dropped
        \<and> mset (cs_sent cs) = lost_answers dropped \<and> (dropped \<noteq> {#} \<longrightarrow> fenced)"
      using dropped \<open>cs_topic_plans cs = []\<close> by (intro exI[of _ dropped]) (simp add: planned_batches_def collected_def)
    ultimately show thesis using dr by (intro that[of None "cs_sent cs" ?st']) simp_all
  next
    case False
    let ?plans = "sort_key tfp_topic (map snd (cs_topic_plans cs))"
    have plan_ok: "\<forall>(topic, plan) \<in> set (cs_topic_plans cs). topic_plan_ok fenced st (cs_state cs) topic plan"
      "hm_ok (cs_topic_plans cs)" "cs_topic_plans cs \<noteq> []"
      using ok False by (auto simp: collect_ok_def)
    have named: "\<forall>(topic, plan) \<in> set (cs_topic_plans cs). tfp_topic plan = topic"
      using plan_ok(1) by (auto simp: topic_plan_ok_def)
    have senders: "\<forall>x \<in> set (concat (map (\<lambda>plan. map (partition_completion (tfp_topic plan)) (tfp_partitions plan)) ?plans)). x \<noteq> None"
    proof -
      have "fp_publication_state_tx part \<noteq> None" if "(topic, plan) \<in> set (cs_topic_plans cs)" "part \<in> set (tfp_partitions plan)"
        for topic plan part
        using plan_ok(1) that unfolding topic_plan_ok_def section_of_def by blast
      then show ?thesis by (fastforce simp: partition_completion_def)
    qed
    obtain completions where comp: "plan_completions ?plans = Some completions"
      using collect_options_all[OF senders] by (auto simp: plan_completions_def)
    let ?plan = "\<lparr>plan_topics = map without_senders ?plans,
        plan_max_segment_bytes = max_segment_bytes config feature_flags,
        plan_publication_completions = completions\<rparr>"
    have "mset (map tfp_topic ?plans) = mset (map fst (cs_topic_plans cs))"
      using named by (auto simp: image_mset.compositionality comp_def intro!: image_mset_cong)
    then have names: "distinct (map tfp_topic ?plans)" using plan_ok(2) mset_eq_imp_distinct_iff by blast
    have same_names: "map tfp_topic (plan_topics ?plan) = map tfp_topic ?plans" by (simp add: without_senders_def)
    have sections: "plan_section_ok fenced st sec" if sec: "sec \<in> set (plan_topics ?plan)" for sec
    proof -
      obtain plan where "plan \<in> set (map snd (cs_topic_plans cs))" "sec = without_senders plan"
        using sec by auto
      then obtain topic where "(topic, plan) \<in> set (cs_topic_plans cs)" "sec = without_senders plan" by force
      then show ?thesis using plan_ok(1) without_senders_section_ok by blast
    qed
    have ne: "plan_topics ?plan \<noteq> []"
    proof -
      have "length (plan_topics ?plan) = length (cs_topic_plans cs)" by simp
      with plan_ok(3) show ?thesis by (metis length_0_conv)
    qed
    show thesis
    proof (rule that[of "Some ?plan" "cs_sent cs" ?st'])
      show "collect_next_flush_plan st now config flush_config feature_flags infos = Some (Some ?plan, cs_sent cs, ?st')"
        using flushable shared cs False comp by (simp add: collect_next_flush_plan_def Let_def split_def assms(3)[symmetric])
      have "planned_batches (Some ?plan) = collected (cs_topic_plans cs)"
        using planned_sort[OF plan_ok(2) named] by (simp add: planned_batches_def)
      then show "\<exists>dropped. buffered st = buffered ?st' + planned_batches (Some ?plan) + dropped
          \<and> mset (cs_sent cs) = lost_answers dropped \<and> (dropped \<noteq> {#} \<longrightarrow> fenced)"
        using dropped by metis
      show "drains st ?st'" by (rule dr)
      have "distinct (map tfp_topic (plan_topics ?plan)) \<and> sorted (map tfp_topic (plan_topics ?plan))
          \<and> plan_topics ?plan \<noteq> [] \<and> (\<forall>sec \<in> set (plan_topics ?plan). plan_section_ok fenced st sec)"
        unfolding same_names using names ne sections by (intro conjI ballI) (assumption | simp)+
      then show "\<forall>pl. Some ?plan = Some pl \<longrightarrow> distinct (map tfp_topic (plan_topics pl))
          \<and> sorted (map tfp_topic (plan_topics pl)) \<and> plan_topics pl \<noteq> []
          \<and> (\<forall>sec \<in> set (plan_topics pl). plan_section_ok fenced st sec)"
        by (simp only: option.inject) blast
    qed
  qed
qed

end
