(* ===== verification/Flush_Rounds.thy ===== *)
theory Flush_Rounds
  imports Scheduler
begin

text \<open>
  What a round of the flush scheduler guarantees, from the buffers of the write state over the plan
  cut from them to the answers of the requests: batches are conserved, sections are well formed, due
  partitions make progress and every request is answered once.
\<close>

section \<open>Passes that take nothing\<close>

text \<open>
  A pass without a section leaves the channels and every claimable partition alone, and no partition
  it visited could have been claimed.
\<close>

definition untouched :: "bool \<Rightarrow> WriteState \<Rightarrow> WriteState \<Rightarrow> bool" where
  "untouched fenced st st' \<longleftrightarrow> channels st' = channels st
     \<and> (\<forall>topic vp p. partition_state st topic vp = Some p \<longrightarrow> claimable fenced p
          \<longrightarrow> partition_state st' topic vp = Some p)"

lemma untouched_refl [simp]: "untouched fenced st st"
  by (simp add: untouched_def)

lemma untouched_trans: "untouched fenced st st' \<Longrightarrow> untouched fenced st' st'' \<Longrightarrow> untouched fenced st st''"
  by (simp add: untouched_def)

definition takeable :: "bool \<Rightarrow> FlushTrigger \<Rightarrow> WriteState \<Rightarrow> PartitionState \<Rightarrow> bool" where
  "takeable fenced trigger st p \<longleftrightarrow> claimable fenced p \<and> \<not> tail_pending (channels st) p
     \<and> \<not> (trigger = MaxDelay \<and> draining p)"

lemma take_flush_partitions_none:
  assumes "take_flush_partitions st topic vps trigger limit fenced = ([], msgs, st')" "limit \<noteq> Some 0"
  shows "untouched fenced st st'
    \<and> (\<forall>vp \<in> set vps. \<forall>p. partition_state st topic vp = Some p \<longrightarrow> \<not> takeable fenced trigger st p)"
  using assms
proof (induction vps arbitrary: st msgs)
  case (Cons vp vps)
  show ?case
  proof (cases "\<exists>p. partition_state st topic vp = Some p
      \<and> \<not> (trigger = MaxDelay \<and> draining p \<or> tail_pending (channels st) p)")
    case False
    then have "take_flush_partitions st topic vps trigger limit fenced = ([], msgs, st')"
      using Cons.prems by (auto split: option.splits if_splits)
    from Cons.IH[OF this Cons.prems(2)] False show ?thesis by (auto simp: takeable_def)
  next
    case True
    then obtain p where p: "partition_state st topic vp = Some p"
      "\<not> (trigger = MaxDelay \<and> draining p \<or> tail_pending (channels st) p)" by blast
    obtain tk ms p' chans' where tk: "take_flush_partition (channels st) p vp trigger fenced = (tk, ms, p', chans')"
      by (metis prod_cases4)
    let ?st1 = "(put_partition st topic vp p')\<lparr>channels := chans'\<rparr>"
    have none: "tk = None" using Cons.prems p tk by (auto simp: Let_def split: option.splits prod.splits)
    then obtain ms' where rest: "take_flush_partitions ?st1 topic vps trigger limit fenced = ([], ms', st')"
      using Cons.prems p tk by (auto simp: Let_def split: prod.splits)
    have skip: "chans' = channels st" "\<not> claimable fenced p"
      using tk none by (auto elim!: take_flush_partition_cases simp: claimable_def)
    have step: "untouched fenced st ?st1" using p(1) skip by (auto simp: untouched_def)
    note ih = Cons.IH[OF rest Cons.prems(2)]
    have "\<not> takeable fenced trigger st q" if "v \<in> set (vp # vps)" "partition_state st topic v = Some q" for v q
    proof
      assume t: "takeable fenced trigger st q"
      then have "v \<noteq> vp" using that(2) p(1) skip(2) by (auto simp: takeable_def)
      moreover have "partition_state ?st1 topic v = Some q"
        using step t that(2) unfolding untouched_def takeable_def by blast
      ultimately show False using ih that(1) t skip(1) by (auto simp: takeable_def)
    qed
    with untouched_trans[OF step] ih show ?thesis by blast
  qed
qed simp

text \<open>While no section has been taken, the selection loop has not passed a partition it could take.\<close>

definition nothing_selected :: "bool \<Rightarrow> WriteState \<Rightarrow> CollectState \<Rightarrow> bool" where
  "nothing_selected fenced st cs \<longleftrightarrow> cs_selected_shared_time_flush cs = None \<and> cs_topic_plans cs = []
     \<and> untouched fenced st (cs_state cs)"

lemma collect_key_selects:
  assumes "collect_key fenced shared now flush_config infos keys (topic, vp) cs = Some cs'"
    "nothing_selected fenced st cs" "(topic, vp) \<in> set keys"
  shows "nothing_selected fenced st cs'
      \<and> (\<forall>p. partition_state st topic vp = Some p \<longrightarrow> partition_flush_trigger p now flush_config \<noteq> None
           \<longrightarrow> \<not> (claimable fenced p \<and> \<not> tail_pending (channels st) p))
    \<or> cs_selected_shared_time_flush cs' \<noteq> None"
proof (cases "key_trigger shared now flush_config (partition_state (cs_state cs) topic vp)")
  case None
  have "\<not> (claimable fenced p \<and> \<not> tail_pending (channels st) p)"
    if "partition_state st topic vp = Some p" "partition_flush_trigger p now flush_config \<noteq> None" for p
  proof
    assume "claimable fenced p \<and> \<not> tail_pending (channels st) p"
    then have "partition_state (cs_state cs) topic vp = Some p"
      using assms(2) that(1) unfolding nothing_selected_def untouched_def by blast
    with None that(2) show False by (simp add: key_trigger_def split: if_splits)
  qed
  moreover have "cs' = cs" using assms(1) None by (auto simp: collect_key_def split: option.splits)
  ultimately show ?thesis using assms(2) by blast
next
  case (Some trigger)
  have sel: "cs_selected_shared_time_flush cs = None" "cs_topic_plans cs = []"
    "untouched fenced st (cs_state cs)" using assms(2) by (simp_all add: nothing_selected_def)
  let ?vps = "if trigger = MaxDelay then partition_ids_of_topic keys topic else [vp]"
  let ?limit = "max_partitions_for fenced True None"
  obtain parts msgs st' where tk: "take_flush_partitions (cs_state cs) topic ?vps trigger ?limit fenced = (parts, msgs, st')"
    by (metis prod_cases3)
  obtain info where info: "hm_get infos topic = Some info"
    using assms(1) by (auto simp: collect_key_def split: option.splits)
  have limit: "?limit \<noteq> Some 0" by (simp add: max_partitions_for_def MAX_FENCED_METADATA_PARTITIONS_def)
  have mem: "vp \<in> set ?vps" using assms(3) by (force simp: partition_ids_of_topic_def)
  have new: "requires_new_topic_plan fenced None trigger" by (simp add: requires_new_topic_plan_def)
  have joins: "joins_selected_plan None True trigger None" by (simp add: joins_selected_plan_def)
  note body = assms(1)[unfolded collect_key_def prod.case info option.case Some sel(1,2) Let_def, simplified new joins tk]
  show ?thesis
  proof (cases parts)
    case Nil
    have cs': "cs' = cs\<lparr>cs_state := st', cs_sent := cs_sent cs @ msgs\<rparr>"
      using body Nil new joins tk by simp
    note none = take_flush_partitions_none[OF tk[unfolded Nil] limit]
    have "nothing_selected fenced st cs'"
      using sel none untouched_trans by (auto simp: nothing_selected_def cs')
    moreover have "\<not> (claimable fenced p \<and> \<not> tail_pending (channels st) p)"
      if "partition_state st topic vp = Some p" "partition_flush_trigger p now flush_config \<noteq> None" for p
    proof
      assume c: "claimable fenced p \<and> \<not> tail_pending (channels st) p"
      then have "partition_state (cs_state cs) topic vp = Some p" "channels (cs_state cs) = channels st"
        using sel(3) that(1) unfolding untouched_def by blast+
      moreover from this(1) Some have "\<not> (trigger = MaxDelay \<and> draining p)"
        by (auto simp: key_trigger_def partition_flush_trigger_def split: if_splits)
      ultimately show False using none mem c by (auto simp: takeable_def)
    qed
    ultimately show ?thesis by blast
  next
    case (Cons part rest)
    with body new joins tk have "cs_selected_shared_time_flush cs' = Some (trigger = MaxDelay)" by (auto simp: sel)
    then show ?thesis by simp
  qed
qed

lemma collect_key_keeps_selection:
  assumes "collect_key fenced shared now flush_config infos keys key cs = Some cs'"
    "cs_selected_shared_time_flush cs \<noteq> None"
  shows "cs_selected_shared_time_flush cs' \<noteq> None"
  using assms
  by (auto simp: collect_key_def Let_def split: prod.splits option.splits if_splits)

lemma collect_keys_select:
  assumes "collect_keys fenced shared now flush_config infos keys rest cs = Some cs'"
    "nothing_selected fenced st cs \<or> cs_selected_shared_time_flush cs \<noteq> None" "set rest \<subseteq> set keys"
    "(topic, vp) \<in> set rest" "partition_state st topic vp = Some p"
    "partition_flush_trigger p now flush_config \<noteq> None" "claimable fenced p" "\<not> tail_pending (channels st) p"
  shows "cs_selected_shared_time_flush cs' \<noteq> None"
  using assms(1-4)
proof (induction rest arbitrary: cs)
  case (Cons key rest)
  obtain cs1 where cs1: "collect_key fenced shared now flush_config infos keys key cs = Some cs1"
    "collect_keys fenced shared now flush_config infos keys rest cs1 = Some cs'"
    using Cons.prems(1) by (auto split: option.splits)
  obtain t v where key: "key = (t, v)" by force
  have kept: "cs_selected_shared_time_flush cs2 \<noteq> None"
    if "collect_keys fenced shared now flush_config infos keys ks c = Some cs2"
      "cs_selected_shared_time_flush c \<noteq> None" for ks c cs2
    using that
    by (induction ks arbitrary: c) (auto split: option.splits dest: collect_key_keeps_selection)
  show ?case
  proof (cases "cs_selected_shared_time_flush cs1 = None")
    case False
    then show ?thesis using kept cs1(2) by blast
  next
    case True
    then have "nothing_selected fenced st cs"
      using Cons.prems(2) collect_key_keeps_selection[OF cs1(1)] by blast
    then have step: "nothing_selected fenced st cs1"
      "\<forall>p. partition_state st t v = Some p \<longrightarrow> partition_flush_trigger p now flush_config \<noteq> None
         \<longrightarrow> \<not> (claimable fenced p \<and> \<not> tail_pending (channels st) p)"
      using collect_key_selects[OF cs1(1)[unfolded key]] Cons.prems(3) True key by auto
    then have "(topic, vp) \<noteq> (t, v)" using assms(5-8) by blast
    then show ?thesis using Cons.IH[OF cs1(2)] step(1) Cons.prems(3,4) key by auto
  qed
qed simp

lemma flush_triggers_scanned:
  assumes "write_ok st" "partition_state st topic vp = Some p" "partition_flush_trigger p now flush_config \<noteq> None"
  shows "fst (scan_triggers (concat (map (\<lambda>(_, parts). map (\<lambda>(_, p). partition_flush_trigger p now flush_config) parts)
    (topics st))) False False)"
proof -
  obtain parts where "(topic, parts) \<in> set (topics st)" "(vp, p) \<in> set parts"
    using assms(2) by (auto simp: partition_state_def split: option.splits dest: map_of_SomeD)
  then show ?thesis using assms(3) unfolding scan_triggers_flushable by force
qed

section \<open>Answers\<close>

lemma planned_completions:
  "tagged_completions (planned_parts topic parts)
     = mset (concat (map (\<lambda>part. batch_completions (fp_batches part)) parts))"
  by (induction parts) (simp_all add: tagged_completions_tag)

lemma waiting_requests_completions:
  "mset (map (\<lambda>(_, _, c). c) (waiting_requests plan)) = tagged_completions (planned (plan_topics plan))"
proof -
  have "mset (map (\<lambda>(_, _, c). c) (concat (map (\<lambda>topic_plan. concat (map (\<lambda>part.
      map (\<lambda>c. (tfp_topic topic_plan, fp_virtual_partition_id part, c)) (batch_completions (fp_batches part)))
      (tfp_partitions topic_plan))) ts))) = tagged_completions (planned ts)" for ts
    by (induction ts) (simp_all add: planned_def planned_completions map_concat comp_def)
  then show ?thesis by (simp add: waiting_requests_def)
qed

lemma lost_answers_completions: "image_mset fst (lost_answers bs) = tagged_completions bs"
  by (simp add: lost_answers_def image_mset.compositionality comp_def)

text \<open>Completed publications stay completed.\<close>

lemma mark_one_channels:
  "channels (mark_one_complete results fallback c st)
     = (channels st)[fpc_state_tx c := completion_state
          (partition_result_error results (fpc_topic c) (fpc_virtual_partition_id c) fallback)]"
  by (simp add: mark_one_complete_def Let_def split: option.splits)

definition publication_done :: "FlushPublicationState \<Rightarrow> bool" where
  "publication_done s \<longleftrightarrow> (\<exists>r. s = Completed r)"

lemma completion_state_done [simp]: "publication_done (completion_state e)"
  by (simp add: publication_done_def completion_state_def)

lemma mark_flush_complete_channels:
  shows "length (channels (mark_flush_complete st cs results fallback)) = length (channels st)"
    and "publication_done (channels st ! i)
       \<Longrightarrow> publication_done (channels (mark_flush_complete st cs results fallback) ! i)"
    and "c \<in> set cs \<Longrightarrow> fpc_state_tx c < length (channels st)
       \<Longrightarrow> publication_done (channels (mark_flush_complete st cs results fallback) ! fpc_state_tx c)"
proof -
  have step: "length (channels (mark_one_complete results fallback c st)) = length (channels st)" for c st
    by (simp add: mark_one_channels)
  have step': "publication_done (channels st ! i) \<Longrightarrow> publication_done (channels (mark_one_complete results fallback c st) ! i)"
    for c st i
    by (cases "i = fpc_state_tx c"; cases "i < length (channels st)"; simp add: mark_one_channels list_update_beyond)
  have len: "length (channels (fold (mark_one_complete results fallback) cs st)) = length (channels st)" for st
    by (induction cs arbitrary: st) (simp_all add: step)
  have kept: "publication_done (channels st ! i)
      \<Longrightarrow> publication_done (channels (fold (mark_one_complete results fallback) cs st) ! i)" for cs st i
    by (induction cs arbitrary: st) (simp_all add: step')
  show "length (channels (mark_flush_complete st cs results fallback)) = length (channels st)"
    by (simp add: mark_flush_complete_def len)
  show "publication_done (channels st ! i)
      \<Longrightarrow> publication_done (channels (mark_flush_complete st cs results fallback) ! i)"
    by (simp add: mark_flush_complete_def kept)
  have "c \<in> set cs \<Longrightarrow> fpc_state_tx c < length (channels st)
      \<Longrightarrow> publication_done (channels (fold (mark_one_complete results fallback) cs st) ! fpc_state_tx c)" for st
  proof (induction cs arbitrary: st)
    case (Cons d ds)
    show ?case
    proof (cases "c = d")
      case True
      then have "publication_done (channels (mark_one_complete results fallback d st) ! fpc_state_tx c)"
        using Cons.prems(2) by (simp add: mark_one_channels)
      then show ?thesis by (simp add: kept)
    next
      case False
      then show ?thesis using Cons step by simp
    qed
  qed simp
  then show "c \<in> set cs \<Longrightarrow> fpc_state_tx c < length (channels st)
      \<Longrightarrow> publication_done (channels (mark_flush_complete st cs results fallback) ! fpc_state_tx c)"
    by (simp add: mark_flush_complete_def)
qed

lemma partition_result_ok:
  assumes "partition_result_error results topic vp fallback = None"
  shows "\<exists>r \<in> set results. fpr_topic r = topic \<and> fpr_virtual_partition_id r = vp \<and> fpr_error r = None"
  using assms
  by (auto simp: partition_result_error_def find_Some_iff split: option.splits)

lemma ok_answer_reported:
  assumes "flush_plan_and_notify later plan result = (feedback, answers, later')" "(c, None) \<in> set answers"
  shows "\<exists>completion topic vp. result = Inr completion \<and> (topic, vp, c) \<in> set (waiting_requests plan)
    \<and> (\<exists>r \<in> set (partition_results completion). fpr_topic r = topic
         \<and> fpr_virtual_partition_id r = vp \<and> fpr_error r = None)"
proof -
  let ?results = "case result of Inl _ \<Rightarrow> [] | Inr completion \<Rightarrow> partition_results completion"
  let ?fallback = "if result = Inl WriteLeaseFenceLost then LeaseFenceLost else InternalFailure"
  have "answers = map (\<lambda>(topic, vp, c). (c, partition_result_error ?results topic vp ?fallback)) (waiting_requests plan)"
    using assms(1) by (auto simp: flush_plan_and_notify_def Let_def)
  with assms(2) obtain topic vp where req: "(topic, vp, c) \<in> set (waiting_requests plan)"
    "partition_result_error ?results topic vp ?fallback = None" by auto
  from partition_result_ok[OF this(2)] obtain completion where
    "result = Inr completion" "\<exists>r \<in> set (partition_results completion). fpr_topic r = topic
       \<and> fpr_virtual_partition_id r = vp \<and> fpr_error r = None" by (cases result) auto
  with req(1) show ?thesis by blast
qed

text \<open>The guarantees of a pass, for its actual result.\<close>

lemma collect_result:
  assumes "write_ok st" "topics_configured infos st"
    "collect_next_flush_plan st now config flush_config feature_flags infos = Some (plan, msgs, st')"
  shows "\<exists>dropped. buffered st = buffered st' + planned_batches plan + dropped
      \<and> mset msgs = lost_answers dropped \<and> (dropped \<noteq> {#} \<longrightarrow> fenced_metadata_writes config feature_flags)"
    and "drains st st'"
    and "\<forall>pl. plan = Some pl \<longrightarrow> distinct (map tfp_topic (plan_topics pl))
       \<and> sorted (map tfp_topic (plan_topics pl)) \<and> plan_topics pl \<noteq> []
       \<and> (\<forall>sec \<in> set (plan_topics pl). plan_section_ok (fenced_metadata_writes config feature_flags) st sec)"
proof -
  obtain plan' msgs' st'' where spec:
    "collect_next_flush_plan st now config flush_config feature_flags infos = Some (plan', msgs', st'')"
    "\<exists>dropped. buffered st = buffered st'' + planned_batches plan' + dropped
       \<and> mset msgs' = lost_answers dropped \<and> (dropped \<noteq> {#} \<longrightarrow> fenced_metadata_writes config feature_flags)"
    "drains st st''"
    "\<forall>pl. plan' = Some pl \<longrightarrow> distinct (map tfp_topic (plan_topics pl))
       \<and> sorted (map tfp_topic (plan_topics pl)) \<and> plan_topics pl \<noteq> []
       \<and> (\<forall>sec \<in> set (plan_topics pl). plan_section_ok (fenced_metadata_writes config feature_flags) st sec)"
    by (rule collect_next_flush_plan_spec[OF assms(1,2) refl, of now config flush_config feature_flags]) (rule that)
  have same: "plan' = plan" "msgs' = msgs" "st'' = st'" using spec(1) unfolding assms(3) by simp_all
  note spec = spec[unfolded same]
  show "\<exists>dropped. buffered st = buffered st' + planned_batches plan + dropped
      \<and> mset msgs = lost_answers dropped \<and> (dropped \<noteq> {#} \<longrightarrow> fenced_metadata_writes config feature_flags)"
    by (rule spec(2))
  show "drains st st'" by (rule spec(3))
  show "\<forall>pl. plan = Some pl \<longrightarrow> distinct (map tfp_topic (plan_topics pl))
       \<and> sorted (map tfp_topic (plan_topics pl)) \<and> plan_topics pl \<noteq> []
       \<and> (\<forall>sec \<in> set (plan_topics pl). plan_section_ok (fenced_metadata_writes config feature_flags) st sec)"
    by (rule spec(4))
qed

lemma collect_total:
  assumes "write_ok st" "topics_configured infos st"
  shows "\<exists>plan msgs st'. collect_next_flush_plan st now config flush_config feature_flags infos = Some (plan, msgs, st')"
  by (rule collect_next_flush_plan_spec[OF assms refl, of now config flush_config feature_flags]) (intro exI)

section \<open>A concrete round\<close>

text \<open>
  One topic with one partition that drains; its buffer holds one batch that was accepted under a
  fence, with a waiting request.
\<close>

definition sample_fence :: ProducerLeaseFence where
  "sample_fence = \<lparr>fence_holder_id = ''b'', fence_lease_epoch = 1, fence_lease_session_id = ''s''\<rparr>"

definition sample_batch :: "FlushCompletion \<Rightarrow> BufferedBatch" where
  "sample_batch c = \<lparr>bb_records = [new_record [1] 0], bb_summary = \<lparr>record_count = 1, summary_payload_bytes = 1\<rparr>,
     bb_seq_range = \<lparr>seq_start = 0, seq_end = 0\<rparr>, bb_acceptance_fence = Some sample_fence, bb_completion = Some c\<rparr>"

definition sample_partition :: PartitionState where
  "sample_partition = default_partition\<lparr>buffer := buffer_push empty_buffer (sample_batch 7) 0,
     lease_fence := Some sample_fence, ps_lease_expiration_at := Some 9, draining := True\<rparr>"

definition sample_state :: WriteState where
  "sample_state = (with_membership Pending)\<lparr>topics := [(''t'', [(0, sample_partition)])]\<rparr>"

definition sample_config :: WriteConfig where
  "sample_config = with_defaults\<lparr>wc_fenced_metadata_writes := True\<rparr>"

definition sample_infos :: "(string, TopicInfo) hmap" where
  "sample_infos = [(''t'', \<lparr>topic_name = ''t'', partition_count = 1, num_writers = 1, retention = 5,
     max_metadata_publication_lag = 6, metadata_window_size = 7\<rparr>)]"

definition sample_flush :: EffectiveFlushConfig where
  "sample_flush = \<lparr>max_bytes = 10, max_delay = 3,
     adaptive_flush_delay = \<lparr>adaptive_enabled = False, adaptive_floor = 1, adaptive_max_delay = 3\<rparr>\<rparr>"

definition sample_plan :: FlushPlan where
  "sample_plan = \<lparr>plan_topics = [\<lparr>tfp_topic = ''t'',
      tfp_partitions = [\<lparr>fp_virtual_partition_id = 0, fp_lease_fence = Some sample_fence,
        fp_batches = [sample_batch 7], fp_trigger = LeaseDrain, fp_publication_predecessor = None,
        fp_publication_state_tx = None\<rparr>],
      tfp_max_metadata_publication_lag = 6, tfp_metadata_window_size = 7, tfp_fenced_metadata_writes = True\<rparr>],
    plan_max_segment_bytes = DEFAULT_MAX_SEGMENT_BYTES,
    plan_publication_completions = [\<lparr>fpc_topic = ''t'', fpc_virtual_partition_id = 0, fpc_state_tx = 0\<rparr>]\<rparr>"

definition sample_after :: WriteState where
  "sample_after = (with_membership Pending)\<lparr>topics := [(''t'', [(0, sample_partition\<lparr>buffer := empty_buffer,
     publication_tail := Some 0, outstanding_flushes := 1\<rparr>)])], last_flush_topic := Some ''t'',
     channels := [PublicationPending]\<rparr>"

lemmas sample_defs = sample_batch_def sample_partition_def sample_state_def sample_config_def sample_infos_def
  sample_flush_def with_membership_def default_partition_def empty_buffer_def buffer_push_def

lemma sample_ok: "write_ok sample_state" "topics_configured sample_infos sample_state"
  "fenced_metadata_writes sample_config None"
  "partition_state sample_state ''t'' 0 = Some sample_partition"
  by (auto simp: sample_defs write_ok_def topics_configured_def partition_state_def
      fenced_metadata_writes_def flag_bool_def split: if_splits)

lemma sample_due: "claimable True sample_partition" "\<not> tail_pending (channels sample_state) sample_partition"
  "partition_flush_trigger sample_partition 0 sample_flush \<noteq> None"
  by (auto simp: sample_defs claimable_def tail_pending_def partition_flush_trigger_def)

lemma sample_collect:
  "collect_next_flush_plan sample_state 0 sample_config sample_flush None sample_infos
     = Some (Some sample_plan, [], sample_after)"
  by (simp add: sample_defs sample_plan_def sample_after_def collect_next_flush_plan_def Let_def
      fenced_metadata_writes_def flag_bool_def partition_flush_trigger_def partition_keys_def
      rotation_start_def collect_key_def key_trigger_def partition_state_def requires_new_topic_plan_def
      joins_selected_plan_def max_partitions_for_def MAX_FENCED_METADATA_PARTITIONS_def tail_pending_def
      take_flush_partition_def put_partition_def buffer_reset_def plan_completions_def partition_completion_def
      without_senders_def max_segment_bytes_def effective_max_segment_bytes_def flag_integer_def
      with_defaults_def DEFAULT_MAX_SEGMENT_BYTES_def hash_map)

section \<open>Properties\<close>

text \<open>
  Claim C10.  Collecting the next plan neither loses nor duplicates a batch and does not panic.  Every
  batch that was buffered is still buffered, or is in the plan, or was dropped because its partition
  had no usable fence; then fenced metadata writes are on and its request, and no other, is told
  that the lease was lost.
\<close>

theorem flush_plan_conserves_batches:
  assumes "write_ok st" "topics_configured infos st"
  shows "\<exists>plan msgs st' dropped.
    collect_next_flush_plan st now config flush_config feature_flags infos = Some (plan, msgs, st')
    \<and> buffered st = buffered st' + planned_batches plan + dropped
    \<and> mset msgs = lost_answers dropped
    \<and> (dropped \<noteq> {#} \<longrightarrow> fenced_metadata_writes config feature_flags)"
  using collect_total[OF assms, of now config flush_config feature_flags] collect_result(1)[OF assms] by blast

theorem flush_plan_conserves_batches_witness:
  "write_ok sample_state \<and> topics_configured sample_infos sample_state \<and>
   (\<exists>plan msgs st' dropped.
    collect_next_flush_plan sample_state 0 sample_config sample_flush None sample_infos = Some (plan, msgs, st')
    \<and> buffered sample_state = buffered st' + planned_batches plan + dropped
    \<and> mset msgs = lost_answers dropped)"
  using flush_plan_conserves_batches[OF sample_ok(1,2)] sample_ok(1,2) by blast



text \<open>
  Claim C33.  The scheduler makes progress: when some partition is due (drained, timed out or full),
  holds batches it may publish and has no publication pending, the next pass returns a plan.
\<close>

theorem due_partition_yields_plan:
  assumes "write_ok st" "topics_configured infos st" "partition_state st topic vp = Some p"
    "partition_flush_trigger p now flush_config \<noteq> None"
    "claimable (fenced_metadata_writes config feature_flags) p" "\<not> tail_pending (channels st) p"
  shows "\<exists>plan msgs st'. collect_next_flush_plan st now config flush_config feature_flags infos
    = Some (Some plan, msgs, st')"
proof -
  let ?fenced = "fenced_metadata_writes config feature_flags"
  let ?keys = "sort (partition_keys st)"
  let ?order = "rotate (rotation_start (last_flush_topic st) ?keys) ?keys"
  obtain plan msgs st' where some:
    "collect_next_flush_plan st now config flush_config feature_flags infos = Some (plan, msgs, st')"
    using collect_total[OF assms(1,2)] by blast
  note flushable = flush_triggers_scanned[OF assms(1,3,4)]
  have "plan \<noteq> None"
  proof
    assume none: "plan = None"
    obtain shared cs where cs: "collect_keys ?fenced shared now flush_config infos ?keys ?order
        \<lparr>cs_state = st, cs_topic_plans = [], cs_selected_shared_time_flush = None,
         cs_last_planned_topic = None, cs_sent = []\<rparr> = Some cs" "cs_selected_shared_time_flush cs = None"
      using some flushable unfolding none
      by (auto simp: collect_next_flush_plan_def Let_def split_def split: option.splits if_splits)
    have "(topic, vp) \<in> set ?order" using assms(3) partition_keys_set[OF assms(1), of topic vp] by simp
    then have "cs_selected_shared_time_flush cs \<noteq> None"
      by (intro collect_keys_select[OF cs(1) _ _ _ assms(3,4,5,6)]) (simp_all add: nothing_selected_def)
    with cs(2) show False by simp
  qed
  with some show ?thesis by auto
qed

theorem due_partition_yields_plan_witness:
  "partition_state sample_state ''t'' 0 = Some sample_partition
   \<and> (\<exists>plan msgs st'. collect_next_flush_plan sample_state 0 sample_config sample_flush None sample_infos
        = Some (Some plan, msgs, st'))"
  using due_partition_yields_plan[OF sample_ok(1,2,4) sample_due(3), of sample_config None] sample_due(1,2) sample_ok(3,4)
  by simp

text \<open>
  Claim C11.  Every request is answered once.  The requests waiting in the buffers before a round are
  those waiting after it, those told during planning that the lease was lost, and those answered
  when the plan ends, whatever the outcome and whatever else happened to the write state in
  between.  A request is told success only if the flush reported success for its partition, and the
  publication channel of every partition of the plan is completed.
\<close>

theorem flush_round_answers_once:
  assumes "write_ok st" "topics_configured infos st"
    "collect_next_flush_plan st now config flush_config feature_flags infos = Some (Some plan, msgs, st')"
    "flush_plan_and_notify later plan result = (feedback, answers, later')"
  shows "tagged_completions (buffered st)
      = tagged_completions (buffered st') + mset (map fst msgs) + mset (map fst answers)
    \<and> (\<forall>c. (c, None) \<in> set answers \<longrightarrow>
         (\<exists>completion topic vp. result = Inr completion \<and> (topic, vp, c) \<in> set (waiting_requests plan)
            \<and> (\<exists>r \<in> set (partition_results completion). fpr_topic r = topic
                 \<and> fpr_virtual_partition_id r = vp \<and> fpr_error r = None)))
    \<and> (\<forall>c \<in> set (plan_publication_completions plan). fpc_state_tx c < length (channels later)
         \<longrightarrow> publication_done (channels later' ! fpc_state_tx c))"
proof (intro conjI allI impI ballI)
  let ?results = "case result of Inl _ \<Rightarrow> [] | Inr completion \<Rightarrow> partition_results completion"
  let ?fallback = "if result = Inl WriteLeaseFenceLost then LeaseFenceLost else InternalFailure"
  have answers: "answers = map (\<lambda>(topic, vp, c). (c, partition_result_error ?results topic vp ?fallback)) (waiting_requests plan)"
    "later' = mark_flush_complete later (plan_publication_completions plan) ?results ?fallback"
    using assms(4) by (auto simp: flush_plan_and_notify_def Let_def)
  obtain dropped where "buffered st = buffered st' + planned_batches (Some plan) + dropped"
    "mset msgs = lost_answers dropped"
    using collect_result(1)[OF assms(1-3)] by blast
  moreover have "mset (map fst answers) = tagged_completions (planned (plan_topics plan))"
    unfolding waiting_requests_completions[symmetric] answers(1) by (simp add: comp_def split_def)
  ultimately show "tagged_completions (buffered st)
      = tagged_completions (buffered st') + mset (map fst msgs) + mset (map fst answers)"
    by (simp add: planned_batches_def lost_answers_completions[symmetric])
  fix c
  assume "(c, None) \<in> set answers"
  then show "\<exists>completion topic vp. result = Inr completion \<and> (topic, vp, c) \<in> set (waiting_requests plan)
      \<and> (\<exists>r \<in> set (partition_results completion). fpr_topic r = topic
           \<and> fpr_virtual_partition_id r = vp \<and> fpr_error r = None)" by (rule ok_answer_reported[OF assms(4)])
next
  fix c
  assume "c \<in> set (plan_publication_completions plan)" "fpc_state_tx c < length (channels later)"
  then show "publication_done (channels later' ! fpc_state_tx c)"
    using assms(4) mark_flush_complete_channels(3) by (auto simp: flush_plan_and_notify_def Let_def)
qed

theorem flush_round_answers_once_witness:
  "(let (feedback, answers, later) = flush_plan_and_notify sample_after sample_plan
          (Inr \<lparr>partition_results = [\<lparr>fpr_topic = ''t'', fpr_virtual_partition_id = 0, fpr_error = None\<rparr>],
                split_count = 0\<rparr>)
    in answers = [(7, None)] \<and> channels later = [Completed Succeeded]
       \<and> tagged_completions (buffered sample_state)
           = tagged_completions (buffered sample_after) + mset (map fst answers))"
  using flush_round_answers_once[OF sample_ok(1,2) sample_collect, of sample_after "Inr \<lparr>partition_results =
      [\<lparr>fpr_topic = ''t'', fpr_virtual_partition_id = 0, fpr_error = None\<rparr>], split_count = 0\<rparr>"]
  by (simp add: flush_plan_and_notify_def waiting_requests_def sample_plan_def sample_batch_def sample_after_def
      partition_result_error_def mark_flush_complete_def mark_one_complete_def with_membership_def
      partition_state_def completion_state_def put_partition_def Let_def)

end
