(* ===== verification/Allocation.thy ===== *)
theory Allocation
  imports Write_State
begin

text \<open>
  Allocation transitions (\<open>write/allocation.rs\<close>): how a request or the lease maintenance claims the
  right to change the lease and the reservation of a partition, and how the claim is finished once
  the lease store has answered.  The mutex-protected state is passed explicitly; what \<open>finish\<close> sends
  to discarded requests is returned.
\<close>

section \<open>Finishing a transition\<close>

record AllocationTransition =
  at_topic :: string
  at_virtual_partition_id :: VirtualPartitionId
  at_assignment_generation :: u64
  at_reset_sequence_allocation_on_finish :: bool
  at_finished :: bool

datatype AllocationTransitionFinish = Applied | StaleAssignment

datatype LeaseExpirationUpdate = PreserveExpiration | SetExpiration "instant option"

text \<open>\<open>matches!(update, Set(Some(_)))\<close>.\<close>

fun sets_some :: "LeaseExpirationUpdate \<Rightarrow> bool" where
  "sets_some (SetExpiration (Some _)) = True"
| "sets_some _ = False"

text \<open>
  The lease part of a finish: the expiration, and the fence, whose change discards the buffer.
\<close>

definition finish_lease ::
    "PartitionState \<Rightarrow> LeaseExpirationUpdate \<Rightarrow> ProducerPartitionLease option
     \<Rightarrow> FlushCompletion list \<times> PartitionState" where
  "finish_lease p update lease =
     (let p1 = (case update of PreserveExpiration \<Rightarrow> p | SetExpiration t \<Rightarrow> p\<lparr>ps_lease_expiration_at := t\<rparr>)
      in case lease of
           Some l \<Rightarrow>
             let fence = Some (lease_fence_of l)
             in if lease_fence p1 \<noteq> fence
                then let (stale, b) = buffer_discard (buffer p1)
                     in (stale, p1\<lparr>buffer := b, lease_fence := fence\<rparr>)
                else ([], p1\<lparr>lease_fence := fence\<rparr>)
         | None \<Rightarrow>
             if update = SetExpiration None
             then let (stale, b) = buffer_discard (buffer p1)
                  in (stale, p1\<lparr>buffer := b, lease_fence := None\<rparr>)
             else ([], p1))"

text \<open>What a finish under the current assignment does to the partition.\<close>

definition finish_current ::
    "bool \<Rightarrow> PartitionState \<Rightarrow> LeaseExpirationUpdate \<Rightarrow> ProducerPartitionLease option
     \<Rightarrow> SeqRange option \<Rightarrow> u64 option \<Rightarrow> FlushCompletion list \<times> PartitionState" where
  "finish_current reset_on_finish p update lease new_reservation records_allocated =
     (let (stale, p1) = finish_lease p update lease;
          p2 = (if update = SetExpiration None \<or> reset_on_finish \<and> sets_some update
                then reset_sequence_allocation p1 else p1);
          p3 = (case new_reservation of
                  None \<Rightarrow> p2
                | Some r \<Rightarrow> p2\<lparr>seq_allocator := install_or_extend_reservation (seq_allocator p2) r\<rparr>);
          p4 = (case (records_allocated, update) of
                  (Some n, SetExpiration (Some _)) \<Rightarrow>
                    p3\<lparr>records_allocated_since_lease_maintenance :=
                         saturating_sub (records_allocated_since_lease_maintenance p3) n\<rparr>
                | _ \<Rightarrow> p3)
      in (stale, p4))"

definition finish_inner ::
    "WriteState \<Rightarrow> AllocationTransition \<Rightarrow> LeaseExpirationUpdate \<Rightarrow> ProducerPartitionLease option
     \<Rightarrow> SeqRange option \<Rightarrow> u64 option
     \<Rightarrow> AllocationTransitionFinish \<times> AllocationTransition \<times> sent list \<times> WriteState" where
  "finish_inner st tr update lease new_reservation records_allocated =
     (if at_finished tr then (StaleAssignment, tr, [], st)
      else
        let topic = at_topic tr; vp = at_virtual_partition_id tr;
            current = assignment_generation_is_current st topic vp (at_assignment_generation tr);
            tr' = tr\<lparr>at_finished := True\<rparr>
        in case partition_state st topic vp of
             None \<Rightarrow> (StaleAssignment, tr', [], st)
           | Some p \<Rightarrow>
               let (stale, p') =
                     (if current
                      then finish_current (at_reset_sequence_allocation_on_finish tr) p update lease
                             new_reservation records_allocated
                      else ([], p));
                   p'' = p'\<lparr>allocation_in_flight := False, allocation_started_at := None\<rparr>
               in (if current then Applied else StaleAssignment, tr',
                   map (\<lambda>c. (c, Some LeaseFenceLost)) stale, put_partition st topic vp p''))"

definition finish where
  "finish st tr update lease new_reservation = finish_inner st tr update lease new_reservation None"

definition finish_lease_maintenance where
  "finish_lease_maintenance st tr update lease new_reservation records_allocated =
     finish_inner st tr update lease new_reservation (Some records_allocated)"

text \<open>Dropping a transition finishes it without a result.\<close>

definition drop_transition where
  "drop_transition st tr = finish_inner st tr PreserveExpiration None None None"

section \<open>Beginning a transition\<close>

datatype ReservationReason =
    InitialReservation | ForegroundExhaustion | MaintenanceTopUp | MaintenanceHighUtilization

record ReservationRequest =
  request_size :: u64
  request_reason :: ReservationReason

record AllocationTransitionWork =
  work_transition :: AllocationTransition
  work_assignment_generation :: u64
  work_needs_lease :: bool
  work_lease_was_expired :: bool
  work_reservation :: "ReservationRequest option"
  work_sequence_progress :: ProducerSequenceProgress
  work_records_allocated_since_last_maintenance :: "u64 option"

datatype AllocationTransitionDecision =
    NotAssigned | Draining | Ready | Waiting | Claimed AllocationTransitionWork

definition MAINTENANCE_TARGET_HIGH_UTILIZATION_PERCENT :: u64 where
  "MAINTENANCE_TARGET_HIGH_UTILIZATION_PERCENT = 75"

definition maintenance_high_utilization_threshold :: "u64 \<Rightarrow> u64" where
  "maintenance_high_utilization_threshold target =
     saturating_add (saturating_mul target MAINTENANCE_TARGET_HIGH_UTILIZATION_PERCENT) 99 div 100"

text \<open>
  Whether lease maintenance finds the reservation highly used.  The target is looked up, and so
  initialised, only under the first two conditions.
\<close>

definition maintenance_high_utilization ::
    "PartitionState \<Rightarrow> bool \<Rightarrow> u64 \<Rightarrow> bool \<times> PartitionState" where
  "maintenance_high_utilization p renew_lease base =
     (if renew_lease \<and> has_reservation (seq_allocator p)
      then let (target, p') = reservation_target p base
           in (maintenance_high_utilization_threshold target
                 \<le> records_allocated_since_lease_maintenance p, p')
      else (False, p))"

text \<open>The reservation to request, if any, and the partition with its reservation target.\<close>

definition reservation_request ::
    "PartitionState \<Rightarrow> u64 \<Rightarrow> bool \<Rightarrow> bool \<Rightarrow> u64 \<Rightarrow> ReservationRequest option \<times> PartitionState" where
  "reservation_request p n_records renew_lease high base =
     (if \<not> can_allocate (seq_allocator p) n_records then
        let reason = (if \<not> has_reservation (seq_allocator p) then InitialReservation
                      else if high then MaintenanceHighUtilization
                      else if renew_lease then MaintenanceTopUp
                      else ForegroundExhaustion);
            (n, p') = (if reason = ForegroundExhaustion \<or> reason = MaintenanceHighUtilization
                       then double_reservation_target p base else reservation_target p base)
        in (Some \<lparr>request_size = n, request_reason = reason\<rparr>, p')
      else if renew_lease
              \<and> remaining_capacity (seq_allocator p) < records_allocated_since_lease_maintenance p
      then let (n, p') = (if high then double_reservation_target p base else reservation_target p base)
           in (Some \<lparr>request_size = n,
                     request_reason = (if high then MaintenanceHighUtilization else MaintenanceTopUp)\<rparr>, p')
      else (None, p))"

definition begin_allocation_transition ::
    "WriteState \<Rightarrow> string \<Rightarrow> VirtualPartitionId \<Rightarrow> u64 \<Rightarrow> instant \<Rightarrow> bool \<Rightarrow> u64
     \<Rightarrow> AllocationTransitionDecision \<times> WriteState" where
  "begin_allocation_transition st topic vp n_records now renew_lease base =
     (case assignment_generation_for_partition st topic vp of
        None \<Rightarrow> (NotAssigned, st)
      | Some generation \<Rightarrow>
          let (p, st1) = partition_state_mut st topic vp
          in if draining p \<and> \<not> renew_lease then (Draining, st1)
             else if allocation_in_flight p then (Waiting, st1)
             else
               let lease_was_expired = needs_lease p now;
                   needs = renew_lease \<or> lease_was_expired;
                   records_allocated = records_allocated_since_lease_maintenance p;
                   (high, p1) = maintenance_high_utilization p renew_lease base;
                   (request, p2) = reservation_request p1 n_records renew_lease high base
               in if \<not> needs \<and> request = None then (Ready, put_partition st1 topic vp p2)
                  else
                    (Claimed
                      \<lparr>work_transition =
                         \<lparr>at_topic = topic, at_virtual_partition_id = vp,
                          at_assignment_generation = generation,
                          at_reset_sequence_allocation_on_finish = lease_was_expired,
                          at_finished = False\<rparr>,
                       work_assignment_generation = generation,
                       work_needs_lease = needs,
                       work_lease_was_expired = lease_was_expired,
                       work_reservation = request,
                       work_sequence_progress =
                         (if lease_was_expired then default_progress else sequence_progress (seq_allocator p2)),
                       work_records_allocated_since_last_maintenance =
                         (if renew_lease then Some records_allocated else None)\<rparr>,
                     put_partition st1 topic vp
                       (p2\<lparr>allocation_in_flight := True, allocation_started_at := Some now\<rparr>)))"

section \<open>Lemmas\<close>

text \<open>
  What a decision leaves alone: everything of a partition but its reservation target and the marks
  of a transition in flight.
\<close>

definition same_data :: "PartitionState \<Rightarrow> PartitionState \<Rightarrow> bool" where
  "same_data p p' \<longleftrightarrow> buffer p' = buffer p \<and> seq_allocator p' = seq_allocator p
     \<and> ps_lease_expiration_at p' = ps_lease_expiration_at p \<and> lease_fence p' = lease_fence p
     \<and> publication_tail p' = publication_tail p \<and> outstanding_flushes p' = outstanding_flushes p
     \<and> draining p' = draining p
     \<and> records_allocated_since_lease_maintenance p' = records_allocated_since_lease_maintenance p"

lemma same_data_refl [simp]: "same_data p p"
  by (simp add: same_data_def)

lemma same_data_trans: "same_data p q \<Longrightarrow> same_data q r \<Longrightarrow> same_data p r"
  by (simp add: same_data_def)

lemma reservation_target_same [simp]:
  "same_data p (snd (reservation_target p base))"
  "allocation_in_flight (snd (reservation_target p base)) = allocation_in_flight p"
  by (auto simp: reservation_target_def same_data_def split: option.splits)

lemma double_reservation_target_same [simp]:
  "same_data p (snd (double_reservation_target p base))"
  "allocation_in_flight (snd (double_reservation_target p base)) = allocation_in_flight p"
  by (auto simp: double_reservation_target_def reservation_target_def same_data_def Let_def
      split: option.splits)

lemma maintenance_high_utilization_same [simp]:
  "same_data p (snd (maintenance_high_utilization p renew base))"
  "allocation_in_flight (snd (maintenance_high_utilization p renew base)) = allocation_in_flight p"
  by (simp_all add: maintenance_high_utilization_def Let_def split_def)

lemma reservation_request_same [simp]:
  "same_data p (snd (reservation_request p n renew high base))"
  "allocation_in_flight (snd (reservation_request p n renew high base)) = allocation_in_flight p"
  by (simp_all add: reservation_request_def Let_def split_def)

lemma reservation_request_None:
  "fst (reservation_request p n renew high base) = None \<Longrightarrow> can_allocate (seq_allocator p) n"
  by (auto simp: reservation_request_def Let_def split_def split: if_splits)

definition partition_or_default :: "WriteState \<Rightarrow> string \<Rightarrow> VirtualPartitionId \<Rightarrow> PartitionState" where
  "partition_or_default st topic vp =
     (case partition_state st topic vp of None \<Rightarrow> default_partition | Some p \<Rightarrow> p)"

lemma begin_cases:
  assumes "begin_allocation_transition st topic vp n now renew base = (d, st')"
  obtains (not_assigned) "d = NotAssigned" "st' = st" "assignment_generation_for_partition st topic vp = None"
  | (assigned) generation p' where
      "assignment_generation_for_partition st topic vp = Some generation"
      "st' = put_partition (put_partition st topic vp (partition_or_default st topic vp)) topic vp p'
       \<or> st' = put_partition st topic vp p'"
      "same_data (partition_or_default st topic vp) p'"
      "d = Draining \<and> draining p' \<or> d = Waiting \<and> allocation_in_flight p'
        \<and> allocation_in_flight (partition_or_default st topic vp)
       \<or> d = Ready \<and> \<not> allocation_in_flight p' \<and> \<not> needs_lease p' now \<and> can_allocate (seq_allocator p') n
       \<or> (\<exists>w. d = Claimed w \<and> allocation_in_flight p'
            \<and> work_transition w = \<lparr>at_topic = topic, at_virtual_partition_id = vp,
                at_assignment_generation = generation,
                at_reset_sequence_allocation_on_finish = needs_lease p' now, at_finished = False\<rparr>)"
      "(\<exists>w. d = Claimed w) \<Longrightarrow> \<not> allocation_in_flight (partition_or_default st topic vp)"
      "(\<nexists>w. d = Claimed w) \<Longrightarrow> allocation_in_flight p' = allocation_in_flight (partition_or_default st topic vp)"
proof (cases "assignment_generation_for_partition st topic vp")
  case None
  with assms show thesis by (intro not_assigned) (auto simp: begin_allocation_transition_def)
next
  case (Some generation)
  let ?p = "partition_or_default st topic vp"
  have mut: "partition_state_mut st topic vp = (?p, put_partition st topic vp ?p)"
    by (simp add: partition_state_mut_def partition_or_default_def Let_def)
  note body = assms[unfolded begin_allocation_transition_def Some option.case mut Let_def prod.case]
  obtain high p1 where high: "maintenance_high_utilization ?p renew base = (high, p1)" by force
  obtain request p2 where request: "reservation_request p1 n renew high base = (request, p2)" by force
  have same: "same_data ?p p2" "allocation_in_flight p2 = allocation_in_flight ?p"
    using maintenance_high_utilization_same[of ?p renew base] reservation_request_same[of p1 n renew high base]
      high request by (auto intro: same_data_trans)
  have needs: "needs_lease p2 now = needs_lease ?p now"
    using same(1) by (simp add: same_data_def needs_lease_def)
  have alloc: "request = None \<Longrightarrow> can_allocate (seq_allocator p2) n"
    using reservation_request_None[of p1 n renew high base] request same(1)
      reservation_request_same(1)[of p1 n renew high base] by (simp add: same_data_def)
  note body' = body[unfolded high request prod.case]
  show thesis
  proof (cases "draining ?p \<and> \<not> renew")
    case True
    with body' have "d = Draining" "st' = put_partition st topic vp ?p" by simp_all
    then show thesis using True by (intro assigned[OF Some, of ?p]) simp_all
  next
    case False
    note body1 = body'[unfolded if_not_P[OF False]]
    show thesis
    proof (cases "allocation_in_flight ?p")
      case True
      with body1 have "d = Waiting" "st' = put_partition st topic vp ?p" by simp_all
      then show thesis using True by (intro assigned[OF Some, of ?p]) simp_all
    next
      case idle: False
      note body2 = body1[unfolded if_not_P[OF idle]]
      show thesis
      proof (cases "\<not> (renew \<or> needs_lease ?p now) \<and> request = None")
        case True
        with body2 have "d = Ready" "st' = put_partition (put_partition st topic vp ?p) topic vp p2" by simp_all
        then show thesis using True same needs alloc idle by (intro assigned[OF Some, of p2]) simp_all
      next
        case claim: False
        let ?q = "p2\<lparr>allocation_in_flight := True, allocation_started_at := Some now\<rparr>"
        from body2[unfolded if_not_P[OF claim]] obtain w where "d = Claimed w"
          "work_transition w = \<lparr>at_topic = topic, at_virtual_partition_id = vp,
             at_assignment_generation = generation,
             at_reset_sequence_allocation_on_finish = needs_lease ?p now, at_finished = False\<rparr>"
          "st' = put_partition (put_partition st topic vp ?p) topic vp ?q" by auto
        then show thesis using same(1) needs idle
          by (intro assigned[OF Some, of ?q]) (simp_all add: same_data_def needs_lease_def)
      qed
    qed
  qed
qed

text \<open>The effect of a decision on every partition and on the rest of the state.\<close>

lemma begin_frame:
  assumes "begin_allocation_transition st topic vp n now renew base = (d, st')"
  shows "assignment st' = assignment st" "channels st' = channels st"
    "last_flush_topic st' = last_flush_topic st" "write_ok st \<Longrightarrow> write_ok st'"
    "(topic', vp') \<noteq> (topic, vp) \<Longrightarrow> partition_state st' topic' vp' = partition_state st topic' vp'"
  using assms by (auto elim!: begin_cases simp: write_ok_put)

lemma begin_partition:
  assumes "begin_allocation_transition st topic vp n now renew base = (d, st')"
    "partition_state st' topic vp = Some p'"
  shows "same_data (partition_or_default st topic vp) p'"
    "allocation_in_flight p' \<longleftrightarrow> allocation_in_flight (partition_or_default st topic vp) \<or> (\<exists>w. d = Claimed w)"
    "(\<exists>w. d = Claimed w) \<Longrightarrow> \<not> allocation_in_flight (partition_or_default st topic vp)"
  using assms(2) by (rule_tac begin_cases[OF assms(1)]; auto simp: partition_or_default_def)+


text \<open>The effect of a finish.\<close>

lemma finish_lease_cases:
  assumes "finish_lease p update lease = (stale, p')"
  shows "seq_allocator p' = seq_allocator p \<and> publication_tail p' = publication_tail p
    \<and> outstanding_flushes p' = outstanding_flushes p \<and> draining p' = draining p
    \<and> ps_lease_expiration_at p' = (case update of PreserveExpiration \<Rightarrow> ps_lease_expiration_at p | SetExpiration t \<Rightarrow> t)
    \<and> (stale = [] \<and> buffer p' = buffer p \<and> lease_fence p' = lease_fence p
       \<or> stale = batch_completions (batches (buffer p)) \<and> buffer p' = snd (buffer_discard (buffer p))
         \<and> lease_fence p' = map_option lease_fence_of lease)"
  using assms
  by (auto simp: finish_lease_def Let_def buffer_discard_def split: option.splits LeaseExpirationUpdate.splits if_splits)

lemma reset_sequence_allocation_simps [simp]:
  "seq_allocator (reset_sequence_allocation p) = default_allocator"
  "buffer (reset_sequence_allocation p) = buffer p"
  "lease_fence (reset_sequence_allocation p) = lease_fence p"
  "publication_tail (reset_sequence_allocation p) = publication_tail p"
  "outstanding_flushes (reset_sequence_allocation p) = outstanding_flushes p"
  "draining (reset_sequence_allocation p) = draining p"
  "allocation_in_flight (reset_sequence_allocation p) = allocation_in_flight p"
  "ps_lease_expiration_at (reset_sequence_allocation p) = ps_lease_expiration_at p"
  by (simp_all add: reset_sequence_allocation_def)

lemma finish_current_effect:
  assumes "finish_current reset p update lease r n = (stale, p')"
  obtains p1 where "finish_lease p update lease = (stale, p1)"
    "buffer p' = buffer p1" "lease_fence p' = lease_fence p1" "publication_tail p' = publication_tail p1"
    "outstanding_flushes p' = outstanding_flushes p1" "draining p' = draining p1"
    "ps_lease_expiration_at p' = ps_lease_expiration_at p1"
    "seq_allocator p' =
       (let a = (if update = SetExpiration None \<or> reset \<and> sets_some update
                 then default_allocator else seq_allocator p1)
        in case r of None \<Rightarrow> a | Some new \<Rightarrow> install_or_extend_reservation a new)"
proof -
  obtain st1 p1 where p1: "finish_lease p update lease = (st1, p1)" by force
  with assms show thesis
    by (intro that[of p1])
      (auto simp: finish_current_def Let_def split: option.splits LeaseExpirationUpdate.splits if_splits)
qed

lemma finish_inner_cases:
  assumes "finish_inner st tr update lease r n = (result, tr', msgs, st')"
  obtains (finished) "at_finished tr" "result = StaleAssignment" "tr' = tr" "msgs = []" "st' = st"
  | (missing) "\<not> at_finished tr" "partition_state st (at_topic tr) (at_virtual_partition_id tr) = None"
      "result = StaleAssignment" "tr' = tr\<lparr>at_finished := True\<rparr>" "msgs = []" "st' = st"
  | (stale) p where "\<not> at_finished tr" "partition_state st (at_topic tr) (at_virtual_partition_id tr) = Some p"
      "\<not> assignment_generation_is_current st (at_topic tr) (at_virtual_partition_id tr) (at_assignment_generation tr)"
      "result = StaleAssignment" "tr' = tr\<lparr>at_finished := True\<rparr>" "msgs = []"
      "st' = put_partition st (at_topic tr) (at_virtual_partition_id tr)
         (p\<lparr>allocation_in_flight := False, allocation_started_at := None\<rparr>)"
  | (applied) p p' stale where "\<not> at_finished tr"
      "partition_state st (at_topic tr) (at_virtual_partition_id tr) = Some p"
      "assignment_generation_is_current st (at_topic tr) (at_virtual_partition_id tr) (at_assignment_generation tr)"
      "finish_current (at_reset_sequence_allocation_on_finish tr) p update lease r n = (stale, p')"
      "result = Applied" "tr' = tr\<lparr>at_finished := True\<rparr>"
      "msgs = map (\<lambda>c. (c, Some LeaseFenceLost)) stale"
      "st' = put_partition st (at_topic tr) (at_virtual_partition_id tr)
         (p'\<lparr>allocation_in_flight := False, allocation_started_at := None\<rparr>)"
proof (cases "at_finished tr")
  case True
  with assms show thesis by (intro finished) (auto simp: finish_inner_def)
next
  case open_tr: False
  note body = assms[unfolded finish_inner_def if_not_P[OF open_tr] Let_def]
  show thesis
  proof (cases "partition_state st (at_topic tr) (at_virtual_partition_id tr)")
    case None
    with body open_tr show thesis by (intro missing) auto
  next
    case (Some p)
    obtain s p' where f: "finish_current (at_reset_sequence_allocation_on_finish tr) p update lease r n = (s, p')" by force
    show thesis
    proof (cases "assignment_generation_is_current st (at_topic tr) (at_virtual_partition_id tr) (at_assignment_generation tr)")
      case True
      with body Some f open_tr show thesis by (intro applied[of p s p']) auto
    next
      case False
      with body Some open_tr show thesis by (intro stale[of p]) auto
    qed
  qed
qed

lemma finish_inner_frame:
  assumes "finish_inner st tr update lease r n = (result, tr', msgs, st')"
  shows "assignment st' = assignment st" "channels st' = channels st"
    "last_flush_topic st' = last_flush_topic st" "write_ok st \<Longrightarrow> write_ok st'"
    "(topic', vp') \<noteq> (at_topic tr, at_virtual_partition_id tr)
       \<Longrightarrow> partition_state st' topic' vp' = partition_state st topic' vp'"
    "at_finished tr'" 
  using assms by (auto elim!: finish_inner_cases simp: write_ok_put)

end
