(* ===== verification/Write_Engine.thy ===== *)
theory Write_Engine
  imports Allocation Write_Api
begin

text \<open>
  The produce path of the write engine: \<open>produce_batch\<close> of \<open>write/engine.rs\<close> and the calls to the
  lease store of \<open>write/lease/mod.rs\<close>.  The lease store is the in-memory store of \<open>Producer_Lease\<close>.
  The parts of \<open>produce_batch\<close> that run under the lock of the write state are single functions, so
  that other tasks can run between them; \<open>produce_loop\<close> composes them for a request that runs alone.
\<close>

section \<open>Validation\<close>

definition n_records :: "Record list \<Rightarrow> u64" where
  "n_records records = of_nat (length records)"

definition validate_request ::
    "(string, TopicInfo) hmap \<Rightarrow> bool \<Rightarrow> WriteRequest \<Rightarrow> WriteError + BatchSummary" where
  "validate_request infos overloaded request =
     (case hm_get infos (request_topic request) of
        None \<Rightarrow> Inl (UnknownTopic (request_topic request))
      | Some topic_info \<Rightarrow>
          if \<not> is_valid_partition topic_info (request_virtual_partition_id request)
          then Inl (InvalidPartition (request_topic request) (request_virtual_partition_id request))
          else if request_records request = [] then Inl (InvalidRequest ''record batch is empty'')
          else case summary_from_records (request_records request) of
                 None \<Rightarrow> Inl WriteInternal
               | Some summary \<Rightarrow>
                   if overloaded then Inl (Overloaded ''broker admission controller is overloaded'')
                   else Inr summary)"

section \<open>Buffering\<close>

text \<open>
  One attempt to buffer the request under the lock.  The request's one-shot channel is its
  completion; \<open>Buffered\<close> carries the sequence range and whether the scheduler is woken.
\<close>

datatype BufferAttempt =
    Rejected WriteError
  | NotReady
  | Buffered SeqRange bool

definition buffer_batch ::
    "PartitionState \<Rightarrow> Record list \<Rightarrow> BatchSummary \<Rightarrow> SeqRange \<Rightarrow> FlushCompletion \<Rightarrow> instant \<Rightarrow> PartitionState" where
  "buffer_batch p records summary range' completion now =
     p\<lparr>records_allocated_since_lease_maintenance :=
         saturating_add (records_allocated_since_lease_maintenance p) (n_records records),
       buffer := buffer_push (buffer p)
         \<lparr>bb_records = records, bb_summary = summary, bb_seq_range = range',
          bb_acceptance_fence = lease_fence p, bb_completion = Some completion\<rparr> now\<rparr>"

definition should_notify_flush :: "BufferState \<Rightarrow> BufferState \<Rightarrow> instant \<Rightarrow> EffectiveFlushConfig \<Rightarrow> bool" where
  "should_notify_flush before after now flush_config =
     (batches before = []
      \<or> \<not> max_bytes flush_config \<le> buffered_bytes before \<and> max_bytes flush_config \<le> buffered_bytes after
      \<or> is_time_due after now flush_config)"

definition buffer_attempt ::
    "WriteState \<Rightarrow> string \<Rightarrow> VirtualPartitionId \<Rightarrow> Record list \<Rightarrow> BatchSummary \<Rightarrow> EffectiveFlushConfig
     \<Rightarrow> FlushCompletion \<Rightarrow> instant \<Rightarrow> BufferAttempt \<times> WriteState" where
  "buffer_attempt st topic vp records summary flush_config completion now =
     (if assignment_generation_for_partition st topic vp = None then (Rejected (NotLeaseHolder topic vp), st)
      else
        let (p, st1) = partition_state_mut st topic vp
        in if draining p then (Rejected (NotLeaseHolder topic vp), st1)
           else if allocation_in_flight p \<or> needs_lease p now
                   \<or> \<not> can_allocate (seq_allocator p) (n_records records)
           then (NotReady, st1)
           else case allocate (seq_allocator p) (n_records records) of
                  (None, _) \<Rightarrow> (Rejected (Overloaded ''sequence reservation exhausted''), st1)
                | (Some range', a) \<Rightarrow>
                    let p' = buffer_batch (p\<lparr>seq_allocator := a\<rparr>) records summary range' completion now
                    in (Buffered range' (should_notify_flush (buffer p) (buffer p') now flush_config),
                        put_partition st1 topic vp p'))"

section \<open>Calls to the lease store\<close>

text \<open>The fields of \<open>WriteEngineImpl\<close> that the produce path reads.\<close>

record WriteEngineImpl =
  engine_config :: WriteConfig
  engine_topics :: "(string, TopicInfo) hmap"
  engine_holder_id :: string
  engine_lease_session_id :: string
  engine_flush_config :: EffectiveFlushConfig

definition partition_lease_key :: "string \<Rightarrow> VirtualPartitionId \<Rightarrow> ProducerPartitionLeaseKey" where
  "partition_lease_key topic vp = \<lparr>lease_topic = topic, lease_virtual_partition_id = vp\<rparr>"

definition ensure_lease ::
    "date_range \<Rightarrow> WriteEngineImpl \<Rightarrow> LeaseStore \<Rightarrow> string \<Rightarrow> VirtualPartitionId \<Rightarrow> instant
     \<Rightarrow> ProducerSequenceProgress \<Rightarrow> (WriteError + ProducerPartitionLease) \<times> LeaseStore" where
  "ensure_lease dates engine store topic vp now progress =
     (case acquire_lease dates store (partition_lease_key topic vp) (engine_holder_id engine)
             (engine_lease_session_id engine) now (wc_lease_duration (engine_config engine)) progress of
        (Inl _, store') \<Rightarrow> (Inl WriteInternal, store')
      | (Inr (LeaseAcquired lease), store') \<Rightarrow> (Inr lease, store')
      | (Inr (LeaseHeldByOther _), store') \<Rightarrow> (Inl (NotLeaseHolder topic vp), store'))"

definition engine_reserve_sequences ::
    "WriteEngineImpl \<Rightarrow> LeaseStore \<Rightarrow> string \<Rightarrow> VirtualPartitionId \<Rightarrow> instant \<Rightarrow> u64
     \<Rightarrow> ProducerSequenceProgress \<Rightarrow> (WriteError + SeqRange) \<times> LeaseStore" where
  "engine_reserve_sequences engine store topic vp now reservation_size progress =
     (case reserve_sequences store (partition_lease_key topic vp) (engine_holder_id engine)
             (engine_lease_session_id engine) now reservation_size progress of
        (Inr (Reserved r), store') \<Rightarrow> (Inr (reservation_range r), store')
      | (Inr (ReservationHeldByOther _), store') \<Rightarrow> (Inl (NotLeaseHolder topic vp), store')
      | (Inr ReservationExpired, store') \<Rightarrow> (Inl (NotLeaseHolder topic vp), store')
      | (Inl _, store') \<Rightarrow> (Inl WriteInternal, store'))"

definition engine_acquire_and_reserve ::
    "date_range \<Rightarrow> WriteEngineImpl \<Rightarrow> LeaseStore \<Rightarrow> string \<Rightarrow> VirtualPartitionId \<Rightarrow> instant \<Rightarrow> u64
     \<Rightarrow> ProducerSequenceProgress \<Rightarrow> (WriteError + ProducerPartitionLease \<times> SeqRange) \<times> LeaseStore" where
  "engine_acquire_and_reserve dates engine store topic vp now reservation_size progress =
     (case acquire_lease_and_reserve_sequences dates store (partition_lease_key topic vp)
             (engine_holder_id engine) (engine_lease_session_id engine) now
             (wc_lease_duration (engine_config engine)) (Some reservation_size) progress of
        (Inr (Acquired lease (Some r)), store') \<Rightarrow> (Inr (lease, r), store')
      | (Inr (Acquired _ None), store') \<Rightarrow> (Inl WriteInternal, store')
      | (Inr (HeldByOther _), store') \<Rightarrow> (Inl (NotLeaseHolder topic vp), store')
      | (Inl _, store') \<Rightarrow> (Inl WriteInternal, store'))"

section \<open>A claimed transition\<close>

type_synonym claim_result = "WriteError + ProducerPartitionLease option \<times> SeqRange option"

definition claim_calls ::
    "date_range \<Rightarrow> WriteEngineImpl \<Rightarrow> LeaseStore \<Rightarrow> string \<Rightarrow> VirtualPartitionId \<Rightarrow> instant
     \<Rightarrow> AllocationTransitionWork \<Rightarrow> claim_result \<times> LeaseStore" where
  "claim_calls dates engine store topic vp now work =
     (case (work_needs_lease work, work_reservation work) of
        (True, Some request) \<Rightarrow>
          map_prod (map_sum id (\<lambda>(lease, r). (Some lease, Some r))) id
            (engine_acquire_and_reserve dates engine store topic vp now (request_size request)
               (work_sequence_progress work))
      | (True, None) \<Rightarrow>
          map_prod (map_sum id (\<lambda>lease. (Some lease, None))) id
            (ensure_lease dates engine store topic vp now (work_sequence_progress work))
      | (False, Some request) \<Rightarrow>
          map_prod (map_sum id (\<lambda>r. (None, Some r))) id
            (engine_reserve_sequences engine store topic vp now (request_size request)
               (work_sequence_progress work))
      | (False, None) \<Rightarrow> (Inr (None, None), store))"

text \<open>
  The end of a claim: an error abandons the transition and fails the request, a result is installed
  and the request tries again.
\<close>

definition finish_claim ::
    "WriteState \<Rightarrow> AllocationTransitionWork \<Rightarrow> claim_result
     \<Rightarrow> WriteError option \<times> sent list \<times> WriteState" where
  "finish_claim st work result =
     (case result of
        Inl error \<Rightarrow>
          (case finish st (work_transition work) PreserveExpiration None None of
             (_, _, msgs, st') \<Rightarrow> (Some error, msgs, st'))
      | Inr (acquired_lease, reservation') \<Rightarrow>
          let update = (case acquired_lease of
                          None \<Rightarrow> PreserveExpiration
                        | Some lease \<Rightarrow> SetExpiration (Some (lease_expires_at lease)))
          in case finish st (work_transition work) update acquired_lease reservation' of
               (_, _, msgs, st') \<Rightarrow> (None, msgs, st'))"

text \<open>The answer of the request, from what its one-shot channel delivers; \<open>None\<close> is a closed channel.\<close>

definition produce_response :: "SeqRange \<Rightarrow> FlushCompletionError option option \<Rightarrow> WriteError + SeqRange" where
  "produce_response range' completion =
     (case completion of
        Some None \<Rightarrow> Inr range'
      | Some (Some LeaseFenceLost) \<Rightarrow> Inl WriteLeaseFenceLost
      | Some (Some InternalFailure) \<Rightarrow> Inl WriteInternal
      | None \<Rightarrow> Inl WriteInternal)"

section \<open>The loop of a request\<close>

text \<open>
  The loop until the request is buffered, with the readings of the clock and no other task running.
  A wait for another task's transition would last forever; it is a repetition of the loop.
\<close>

record engine_run =
  run_state :: WriteState
  run_store :: LeaseStore
  run_sent :: "sent list"

datatype loop_step =
    Returned "WriteError + SeqRange \<times> bool" engine_run
  | Again engine_run

definition produce_iteration ::
    "date_range \<Rightarrow> WriteEngineImpl \<Rightarrow> string \<Rightarrow> VirtualPartitionId \<Rightarrow> Record list \<Rightarrow> BatchSummary
     \<Rightarrow> FlushCompletion \<Rightarrow> instant \<Rightarrow> engine_run \<Rightarrow> loop_step" where
  "produce_iteration dates engine topic vp records summary completion now run =
     (case buffer_attempt (run_state run) topic vp records summary (engine_flush_config engine) completion now of
        (Rejected error, st) \<Rightarrow> Returned (Inl error) (run\<lparr>run_state := st\<rparr>)
      | (Buffered range' notify, st) \<Rightarrow> Returned (Inr (range', notify)) (run\<lparr>run_state := st\<rparr>)
      | (NotReady, st) \<Rightarrow>
          (case begin_allocation_transition st topic vp (n_records records) now False
                  (wc_reservation_size (engine_config engine)) of
             (NotAssigned, st1) \<Rightarrow> Returned (Inl (NotLeaseHolder topic vp)) (run\<lparr>run_state := st1\<rparr>)
           | (Draining, st1) \<Rightarrow> Returned (Inl (NotLeaseHolder topic vp)) (run\<lparr>run_state := st1\<rparr>)
           | (Ready, st1) \<Rightarrow> Again (run\<lparr>run_state := st1\<rparr>)
           | (Waiting, st1) \<Rightarrow> Again (run\<lparr>run_state := st1\<rparr>)
           | (Claimed work, st1) \<Rightarrow>
               (case claim_calls dates engine (run_store run) topic vp now work of
                  (result, store') \<Rightarrow>
                    (case finish_claim st1 work result of
                       (error, msgs, st2) \<Rightarrow>
                         let run' = run\<lparr>run_state := st2, run_store := store', run_sent := run_sent run @ msgs\<rparr>
                         in case error of Some e \<Rightarrow> Returned (Inl e) run' | None \<Rightarrow> Again run'))))"

partial_function (option) produce_loop ::
    "date_range \<Rightarrow> WriteEngineImpl \<Rightarrow> string \<Rightarrow> VirtualPartitionId \<Rightarrow> Record list \<Rightarrow> BatchSummary
     \<Rightarrow> FlushCompletion \<Rightarrow> (nat \<Rightarrow> instant) \<Rightarrow> nat \<Rightarrow> engine_run
     \<Rightarrow> ((WriteError + SeqRange \<times> bool) \<times> engine_run) option" where
  "produce_loop dates engine topic vp records summary completion clock i run =
     (case produce_iteration dates engine topic vp records summary completion (clock i) run of
        Returned result run' \<Rightarrow> Some (result, run')
      | Again run' \<Rightarrow> produce_loop dates engine topic vp records summary completion clock (Suc i) run')"

section \<open>Lemmas\<close>

subsection \<open>What a claim asks of the lease store\<close>

lemma lease_reserved_exact:
  assumes "lease_reserved dates op store = Some (k, a, b)"
  shows "k = op_key op \<and> a = next_seq_mark store k \<and> a \<le> b \<and> next_seq_mark (lease_step dates op store) k = b + 1"
proof -
  have acq: "next_seq_mark store key = unat (seq_start r) \<and> unat (seq_start r) \<le> unat (seq_end r) \<and>
      next_seq_mark (snd (acquire_lease_and_reserve_sequences dates store key h s now d n p)) key = unat (seq_end r) + 1"
    if "fst (acquire_lease_and_reserve_sequences dates store key h s now d n p) = Inr (Acquired lease (Some r))"
    for key h s now d n p lease r
    using that by (cases "acquire_lease_and_reserve_sequences dates store key h s now d n p")
      (auto simp: next_seq_mark_row[of "_ :: LeaseStore"] word_le_nat_alt elim!: acquire_success_row)
  from assms show ?thesis
    by (auto simp: lease_reserved_def lease_step_def Let_def next_seq_mark_row[of "snd _"]
        dest!: acq reserve_returns_row split: lease_call.splits sum.splits option.splits
          LeaseAcquireAndReserveOutcome.splits SequenceReservationOutcome.splits)
qed

text \<open>The call a claim makes, as an operation of the store.\<close>

definition claim_op :: "WriteEngineImpl \<Rightarrow> string \<Rightarrow> VirtualPartitionId \<Rightarrow> instant \<Rightarrow> AllocationTransitionWork \<Rightarrow> lease_op" where
  "claim_op engine topic vp now work =
     \<lparr>op_key = partition_lease_key topic vp, op_holder = engine_holder_id engine,
      op_session = engine_lease_session_id engine, op_now = now,
      op_call =
        (let d = wc_lease_duration (engine_config engine); progress = work_sequence_progress work
         in case (work_needs_lease work, work_reservation work) of
              (True, Some request) \<Rightarrow> AcquireAndReserveCall d (Some (request_size request)) progress
            | (True, None) \<Rightarrow> AcquireCall d progress
            | (False, Some request) \<Rightarrow> ReserveCall (request_size request) progress
            | (False, None) \<Rightarrow> ReserveCall 0 progress)\<rparr>"

lemma lease_step_reserve_zero [simp]:
  "op_call op = ReserveCall 0 p \<Longrightarrow> lease_step dates op store = store"
  by (simp add: lease_step_def Let_def reserve_sequences_def)

lemma claim_calls_store:
  "snd (claim_calls dates engine store topic vp now work) = lease_step dates (claim_op engine topic vp now work) store"
proof (cases "work_needs_lease work")
  case True
  then show ?thesis
    by (cases "work_reservation work")
      (simp_all add: claim_calls_def claim_op_def lease_step_def ensure_lease_def engine_acquire_and_reserve_def
        Let_def split: prod.split sum.split LeaseAcquireOutcome.split LeaseAcquireAndReserveOutcome.split option.split)
next
  case False
  then show ?thesis
    by (cases "work_reservation work")
      (simp_all add: claim_calls_def claim_op_def lease_step_def engine_reserve_sequences_def reserve_sequences_def[of _ _ _ _ _ 0]
        Let_def split: prod.split sum.split SequenceReservationOutcome.split)
qed

lemma claim_calls_reserved:
  assumes "fst (claim_calls dates engine store topic vp now work) = Inr (lease, Some r)"
  shows "lease_reserved dates (claim_op engine topic vp now work) store
    = Some (partition_lease_key topic vp, unat (seq_start r), unat (seq_end r))"
  using assms
  by (cases "work_needs_lease work"; cases "work_reservation work")
    (auto simp: claim_calls_def claim_op_def lease_reserved_def ensure_lease_def engine_acquire_and_reserve_def
        engine_reserve_sequences_def Let_def split: prod.splits sum.splits LeaseAcquireOutcome.splits
        LeaseAcquireAndReserveOutcome.splits SequenceReservationOutcome.splits option.splits)

lemma claim_calls_shape:
  assumes "fst (claim_calls dates engine store topic vp now work) = Inr (lease, r)"
  shows "lease \<noteq> None \<longleftrightarrow> work_needs_lease work" "r \<noteq> None \<longleftrightarrow> work_reservation work \<noteq> None"
  using assms
  by (cases "work_needs_lease work"; cases "work_reservation work";
      auto simp: claim_calls_def map_sum_def split: sum.splits prod.splits)+

lemma acquire_lease_expiry:
  assumes "acquire_lease dates store key h s now d p = (Inr (LeaseAcquired lease), store')"
  shows "lease_expires_at lease = now + d"
  using arg_cong[where f = fst, OF assms] unfolding acquire_lease_fst
  by (cases "acquire_lease_and_reserve_sequences dates store key h s now d None p")
    (auto simp: to_lease_def elim!: acquire_success_row split: sum.splits LeaseAcquireAndReserveOutcome.splits)

lemma acquire_expiry:
  assumes "acquire_lease_and_reserve_sequences dates store key h s now d n p = (Inr (Acquired lease r), store')"
  shows "lease_expires_at lease = now + d"
  using assms by (auto simp: to_lease_def elim!: acquire_success_row)

lemma claim_calls_expiry:
  assumes "fst (claim_calls dates engine store topic vp now work) = Inr (Some lease, r)"
  shows "lease_expires_at lease = now + wc_lease_duration (engine_config engine)"
proof -
  have needs: "work_needs_lease work" using claim_calls_shape(1)[OF assms] by simp
  show ?thesis
  proof (cases "work_reservation work")
    case None
    then show ?thesis using assms needs
      by (auto simp: claim_calls_def ensure_lease_def split: prod.splits sum.splits LeaseAcquireOutcome.splits
          intro: acquire_lease_expiry)
  next
    case (Some request)
    then show ?thesis using assms needs
      by (auto simp: claim_calls_def engine_acquire_and_reserve_def intro: acquire_expiry
          split: prod.splits sum.splits LeaseAcquireAndReserveOutcome.splits option.splits)
  qed
qed

subsection \<open>Attempts and claims\<close>

lemma put_partition_twice [simp]:
  "put_partition (put_partition st topic vp p) topic vp q = put_partition st topic vp q"
  by (simp add: put_partition_def update_last map_of_SomeD hash_map split: option.splits)

lemma partition_or_default_put [simp]: "partition_or_default (put_partition st topic vp p) topic vp = p"
  by (simp add: partition_or_default_def)

lemma partition_state_mut_eq:
  "partition_state_mut st topic vp
     = (partition_or_default st topic vp, put_partition st topic vp (partition_or_default st topic vp))"
  by (simp add: partition_state_mut_def partition_or_default_def Let_def)

lemma assignment_generation_put [simp]:
  "assignment_generation_for_partition (put_partition st topic vp p) = assignment_generation_for_partition st"
  by (rule assignment_generation_cong) simp

text \<open>When an attempt takes the request, and what it leaves behind otherwise.\<close>

definition buffer_ready :: "PartitionState \<Rightarrow> u64 \<Rightarrow> instant \<Rightarrow> bool" where
  "buffer_ready p n now \<longleftrightarrow>
     \<not> draining p \<and> \<not> allocation_in_flight p \<and> \<not> needs_lease p now \<and> can_allocate (seq_allocator p) n"

lemma buffer_attempt_cases:
  assumes "buffer_attempt st topic vp records summary flush_config c now = (outcome, st')"
  obtains (unassigned) "outcome = Rejected (NotLeaseHolder topic vp)" "st' = st"
      "assignment_generation_for_partition st topic vp = None"
  | (rejected) e where "outcome = Rejected e" "st' = put_partition st topic vp (partition_or_default st topic vp)"
      "assignment_generation_for_partition st topic vp \<noteq> None"
  | (not_ready) "outcome = NotReady" "st' = put_partition st topic vp (partition_or_default st topic vp)"
      "assignment_generation_for_partition st topic vp \<noteq> None" "\<not> draining (partition_or_default st topic vp)"
      "\<not> buffer_ready (partition_or_default st topic vp) (n_records records) now"
  | (buffered) range' a notify where "outcome = Buffered range' notify"
      "assignment_generation_for_partition st topic vp \<noteq> None"
      "buffer_ready (partition_or_default st topic vp) (n_records records) now"
      "allocate (seq_allocator (partition_or_default st topic vp)) (n_records records) = (Some range', a)"
      "st' = put_partition st topic vp
         (buffer_batch ((partition_or_default st topic vp)\<lparr>seq_allocator := a\<rparr>) records summary range' c now)"
proof (cases "assignment_generation_for_partition st topic vp = None")
  case True
  with assms show thesis by (intro unassigned) (auto simp: buffer_attempt_def)
next
  case assigned: False
  let ?p = "partition_or_default st topic vp"
  note body = assms[unfolded buffer_attempt_def if_not_P[OF assigned] partition_state_mut_eq Let_def prod.case]
  show thesis
  proof (cases "draining ?p")
    case True
    with body assigned show thesis by (intro rejected) auto
  next
    case live: False
    note body = body[unfolded if_not_P[OF live]]
    show thesis
    proof (cases "buffer_ready ?p (n_records records) now")
      case False
      with body live assigned show thesis
        by (intro not_ready) (auto simp: buffer_ready_def split: if_splits)
    next
      case True
      obtain out a where al: "allocate (seq_allocator ?p) (n_records records) = (out, a)" by force
      show thesis
      proof (cases out)
        case None
        with body al True assigned show thesis by (intro rejected) (auto simp: buffer_ready_def)
      next
        case (Some range')
        obtain notify where "outcome = Buffered range' notify" "st' = put_partition st topic vp
            (buffer_batch (?p\<lparr>seq_allocator := a\<rparr>) records summary range' c now)"
          using body al True Some by (auto simp: buffer_ready_def)
        then show thesis by (rule buffered[OF _ assigned True al[unfolded Some]])
      qed
    qed
  qed
qed

text \<open>A produce request's claim on a partition that is idle.\<close>

lemma begin_idle:
  assumes "begin_allocation_transition st topic vp n now False base = (d, st')"
    "assignment_generation_for_partition st topic vp = Some generation"
    "partition_or_default st topic vp = p" "\<not> draining p" "\<not> allocation_in_flight p"
    "needs_lease p now \<or> \<not> can_allocate (seq_allocator p) n"
  obtains work p' where "d = Claimed work" "same_data p p'" "allocation_in_flight p'"
    "st' = put_partition st topic vp p'"
    "work_transition work = \<lparr>at_topic = topic, at_virtual_partition_id = vp,
       at_assignment_generation = generation, at_reset_sequence_allocation_on_finish = needs_lease p now,
       at_finished = False\<rparr>"
    "work_needs_lease work = needs_lease p now"
    "work_reservation work = None \<longleftrightarrow> can_allocate (seq_allocator p) n"
proof -
  obtain request p2 where rq: "reservation_request p n False False base = (request, p2)" by force
  have none: "request = None \<longleftrightarrow> can_allocate (seq_allocator p) n"
    using rq by (auto simp: reservation_request_def Let_def split_def split: if_splits)
  have same: "same_data p p2" using reservation_request_same(1)[of p n False False base] rq by simp
  have claim: "\<not> (\<not> (False \<or> needs_lease p now) \<and> request = None)" using assms(6) none by blast
  have high: "maintenance_high_utilization p False base = (False, p)" by (simp add: maintenance_high_utilization_def)
  have drain: "\<not> (draining p \<and> \<not> False)" using assms(4) by simp
  note body = assms(1)[unfolded begin_allocation_transition_def assms(2) option.case partition_state_mut_eq
      assms(3) Let_def prod.case if_not_P[OF drain] if_not_P[OF assms(5)] high rq if_not_P[OF claim]]
  let ?q = "p2\<lparr>allocation_in_flight := True, allocation_started_at := Some now\<rparr>"
  show thesis
    by (rule that[of "case d of Claimed w \<Rightarrow> w | _ \<Rightarrow> undefined" ?q])
      (use body same none in \<open>auto simp: same_data_def\<close>)
qed

text \<open>Finishing a claim whose assignment is still current.\<close>

lemma finish_claim_current:
  assumes "finish_claim (put_partition st topic vp q) work (Inr (lease, r)) = (error, msgs, st')"
    "work_transition work = \<lparr>at_topic = topic, at_virtual_partition_id = vp,
       at_assignment_generation = generation, at_reset_sequence_allocation_on_finish = reset,
       at_finished = False\<rparr>"
    "assignment_generation_for_partition st topic vp = Some generation"
  obtains p' where "error = None" "st' = put_partition st topic vp p'" "\<not> allocation_in_flight p'"
    "ps_lease_expiration_at p' =
       (case lease of None \<Rightarrow> ps_lease_expiration_at q | Some l \<Rightarrow> Some (lease_expires_at l))"
    "seq_allocator p' =
       (let a = (if reset \<and> lease \<noteq> None then default_allocator else seq_allocator q)
        in case r of None \<Rightarrow> a | Some new \<Rightarrow> install_or_extend_reservation a new)"
proof -
  let ?update = "case lease of None \<Rightarrow> PreserveExpiration | Some l \<Rightarrow> SetExpiration (Some (lease_expires_at l))"
  obtain res tr' msgs' st'' where f: "finish_inner (put_partition st topic vp q) (work_transition work) ?update lease r None
      = (res, tr', msgs', st'')" by (metis prod_cases4)
  have e: "error = None" "st' = st''" using assms(1) f by (auto simp: finish_claim_def finish_def)
  obtain stale p1 where p1: "finish_current reset q ?update lease r None = (stale, p1)"
    "st'' = put_partition st topic vp (p1\<lparr>allocation_in_flight := False, allocation_started_at := None\<rparr>)"
    using f assms(2,3) by (auto elim!: finish_inner_cases simp: assignment_generation_is_current_def)
  obtain p2 where p2: "finish_lease q ?update lease = (stale, p2)" "ps_lease_expiration_at p1 = ps_lease_expiration_at p2"
    "seq_allocator p1 = (let a = (if ?update = SetExpiration None \<or> reset \<and> sets_some ?update
        then default_allocator else seq_allocator p2) in case r of None \<Rightarrow> a | Some new \<Rightarrow> install_or_extend_reservation a new)"
    by (rule finish_current_effect[OF p1(1)]) blast
  have "ps_lease_expiration_at p2 = (case lease of None \<Rightarrow> ps_lease_expiration_at q | Some l \<Rightarrow> Some (lease_expires_at l))"
    "seq_allocator p2 = seq_allocator q" using finish_lease_cases[OF p2(1)] by (auto split: option.splits)
  then show thesis
    using e p1(2) p2 by (intro that[of "p1\<lparr>allocation_in_flight := False, allocation_started_at := None\<rparr>"])
      (auto simp: Let_def split: option.splits)
qed

text \<open>
  One more round of the loop: the lease was renewed, or the reservation was extended by the range the
  store had next.
\<close>

lemma produce_iteration_again:
  assumes "produce_iteration dates engine topic vp records summary c now run = Again run'"
    "partition_or_default (run_state run) topic vp = p" "\<not> allocation_in_flight p"
  obtains p' where "partition_or_default (run_state run') topic vp = p'" "\<not> allocation_in_flight p'"
    "needs_lease p now \<or> \<not> can_allocate (seq_allocator p) (n_records records)"
    "needs_lease p now \<and> ps_lease_expiration_at p' = Some (now + wc_lease_duration (engine_config engine))
     \<or> \<not> needs_lease p now \<and> ps_lease_expiration_at p' = ps_lease_expiration_at p
       \<and> (\<exists>r. unat (seq_start r) = next_seq_mark (run_store run) (partition_lease_key topic vp)
            \<and> unat (seq_start r) \<le> unat (seq_end r)
            \<and> next_seq_mark (run_store run') (partition_lease_key topic vp) = unat (seq_end r) + 1
            \<and> seq_allocator p' = install_or_extend_reservation (seq_allocator p) r)"
proof -
  let ?st = "run_state run" and ?key = "partition_lease_key topic vp"
  obtain outcome st0 where att: "buffer_attempt ?st topic vp records summary (engine_flush_config engine) c now = (outcome, st0)"
    by force
  have nr: "outcome = NotReady"
    using assms(1) att by (cases outcome) (auto simp: produce_iteration_def)
  with att have st0: "st0 = put_partition ?st topic vp p" "\<not> draining p" "\<not> buffer_ready p (n_records records) now"
    "assignment_generation_for_partition ?st topic vp \<noteq> None"
    by (auto elim!: buffer_attempt_cases simp: assms(2))
  obtain generation where gen: "assignment_generation_for_partition ?st topic vp = Some generation" using st0(4) by blast
  obtain d st1 where bg: "begin_allocation_transition st0 topic vp (n_records records) now False
      (wc_reservation_size (engine_config engine)) = (d, st1)" by force
  obtain work q where w: "d = Claimed work" "same_data p q" "allocation_in_flight q" "st1 = put_partition st0 topic vp q"
    "work_transition work = \<lparr>at_topic = topic, at_virtual_partition_id = vp,
       at_assignment_generation = generation, at_reset_sequence_allocation_on_finish = needs_lease p now,
       at_finished = False\<rparr>"
    "work_needs_lease work = needs_lease p now" "work_reservation work = None \<longleftrightarrow> can_allocate (seq_allocator p) (n_records records)"
    by (rule begin_idle[OF bg]) (use st0 gen assms(3) in \<open>auto simp: buffer_ready_def\<close>)
  obtain result store' where calls: "claim_calls dates engine (run_store run) topic vp now work = (result, store')" by force
  obtain error msgs st2 where fin: "finish_claim st1 work result = (error, msgs, st2)" by (metis prod_cases3)
  note body = assms(1)[unfolded produce_iteration_def att nr prod.case BufferAttempt.case bg w(1)
      AllocationTransitionDecision.case calls fin Let_def]
  from body have err: "error = None" "run_state run' = st2" "run_store run' = store'" by (auto split: option.splits)
  obtain lease r where res: "result = Inr (lease, r)"
    using fin err(1) by (cases result) (auto simp: finish_claim_def split: prod.splits)
  have st1: "st1 = put_partition ?st topic vp q" using w(4) st0(1) by simp
  obtain p' where p': "st2 = put_partition ?st topic vp p'" "\<not> allocation_in_flight p'"
    "ps_lease_expiration_at p' = (case lease of None \<Rightarrow> ps_lease_expiration_at q | Some l \<Rightarrow> Some (lease_expires_at l))"
    "seq_allocator p' = (let a = (if needs_lease p now \<and> lease \<noteq> None then default_allocator else seq_allocator q)
        in case r of None \<Rightarrow> a | Some new \<Rightarrow> install_or_extend_reservation a new)"
    by (rule finish_claim_current[OF fin[unfolded st1 res] w(5) gen])
  have fst: "fst (claim_calls dates engine (run_store run) topic vp now work) = Inr (lease, r)" using calls res by simp
  note shape = claim_calls_shape[OF fst]
  show thesis
  proof (rule that[of p'])
    show "partition_or_default (run_state run') topic vp = p'" using err(2) p'(1) by simp
    show "\<not> allocation_in_flight p'" by fact
    show "needs_lease p now \<or> \<not> can_allocate (seq_allocator p) (n_records records)"
      using st0(2,3) assms(3) by (auto simp: buffer_ready_def)
    show "needs_lease p now \<and> ps_lease_expiration_at p' = Some (now + wc_lease_duration (engine_config engine))
       \<or> \<not> needs_lease p now \<and> ps_lease_expiration_at p' = ps_lease_expiration_at p
         \<and> (\<exists>r. unat (seq_start r) = next_seq_mark (run_store run) ?key \<and> unat (seq_start r) \<le> unat (seq_end r)
              \<and> next_seq_mark (run_store run') ?key = unat (seq_end r) + 1
              \<and> seq_allocator p' = install_or_extend_reservation (seq_allocator p) r)"
    proof (cases "needs_lease p now")
      case True
      then obtain l where "lease = Some l" using shape(1) w(6) by auto
      then show ?thesis using True p'(3) claim_calls_expiry fst by auto
    next
      case False
      then have none: "lease = None" using shape(1) w(6) by auto
      have "\<not> can_allocate (seq_allocator p) (n_records records)"
        using st0(2,3) assms(3) False by (simp add: buffer_ready_def)
      then obtain new where new: "r = Some new" using shape(2) w(7) by auto
      have "lease_reserved dates (claim_op engine topic vp now work) (run_store run)
          = Some (?key, unat (seq_start new), unat (seq_end new))"
        using claim_calls_reserved fst new by blast
      note exact = lease_reserved_exact[OF this]
      have "store' = lease_step dates (claim_op engine topic vp now work) (run_store run)"
        using claim_calls_store[of dates engine "run_store run" topic vp now work] calls by simp
      then show ?thesis
        using False none new p'(3,4) w(2) exact err(3) by (auto simp: same_data_def)
    qed
  qed
qed

subsection \<open>The loop of a request ends\<close>

lemma produce_loop_step:
  assumes "\<And>run'. produce_iteration dates engine topic vp records summary c (clock i) run = Again run'
    \<Longrightarrow> \<exists>r. produce_loop dates engine topic vp records summary c clock (Suc i) run' = Some r"
  shows "\<exists>r. produce_loop dates engine topic vp records summary c clock i run = Some r"
  using assms by (subst produce_loop.simps) (auto split: loop_step.split)

text \<open>
  The reservation at hand is the last one the store made, and \<open>m\<close> numbers short of the request.
\<close>

definition short_by :: "nat \<Rightarrow> u64 \<Rightarrow> SeqAllocator \<Rightarrow> nat \<Rightarrow> bool" where
  "short_by m n a mark \<longleftrightarrow> (\<exists>r. reservation a = Some r \<and> mark = unat (seq_end r) + 1
     \<and> unat (next_seq a) + unat n \<le> unat (seq_end r) + 1 + m)"

lemma short_by_zero:
  assumes "short_by 0 n a mark" "n \<noteq> 0"
  shows "can_allocate a n"
proof -
  obtain r where r: "reservation a = Some r" "unat (next_seq a) + unat n \<le> unat (seq_end r) + 1"
    using assms(1) by (auto simp: short_by_def)
  have "unat n \<noteq> 0" using assms(2) by (simp add: unat_eq_0)
  then have "unat (next_seq a) + (unat n - 1) \<le> unat (seq_end r)" using r(2) by linarith
  with r(1) assms(2) show ?thesis
    by (auto simp: can_allocate_def word_le_nat_alt unat_saturating_add unat_saturating_sub min_def)
qed

lemma short_by_extend:
  assumes "short_by m n a (unat (seq_start r))" "unat (seq_start r) \<le> unat (seq_end r)" "m \<noteq> 0"
  shows "short_by (m - 1) n (install_or_extend_reservation a r) (unat (seq_end r) + 1)"
proof -
  obtain cur where cur: "reservation a = Some cur" "unat (seq_start r) = unat (seq_end cur) + 1"
    "unat (next_seq a) + unat n \<le> unat (seq_end cur) + 1 + m"
    using assms(1) by (auto simp: short_by_def)
  have "checked_add (seq_end cur) 1 = Some (seq_start r)" using cur(2) by (simp add: machine_int)
  with cur assms(2,3) show ?thesis by (auto simp: short_by_def install_or_extend_reservation_def)
qed

lemma short_by_install:
  "\<exists>m. short_by m n (install_or_extend_reservation a r) (unat (seq_end r) + 1)"
  by (rule exI[of _ "2 ^ 65"], insert u64_bound[of n] u64_bound[of "next_seq a"] u64_bound[of "seq_start r"])
    (auto simp: short_by_def install_or_extend_reservation_def split: option.splits)

text \<open>With a lease that outlasts the loop, every round makes the reservation longer.\<close>

lemma produce_loop_leased_short:
  assumes "partition_or_default (run_state run) topic vp = p" "\<not> allocation_in_flight p"
    "\<forall>j \<ge> i. \<not> needs_lease p (clock j)" "n_records records \<noteq> 0"
    "short_by m (n_records records) (seq_allocator p) (next_seq_mark (run_store run) (partition_lease_key topic vp))"
  shows "\<exists>r. produce_loop dates engine topic vp records summary c clock i run = Some r"
  using assms(1-3,5)
proof (induction m arbitrary: i run p)
  case 0
  show ?case
  proof (rule produce_loop_step)
    fix run' assume "produce_iteration dates engine topic vp records summary c (clock i) run = Again run'"
    from produce_iteration_again[OF this 0(1,2)] 0(3,4) show "\<exists>r. produce_loop dates engine topic vp records summary c clock (Suc i) run' = Some r"
      using short_by_zero assms(4) by (metis order_refl)
  qed
next
  case (Suc m)
  show ?case
  proof (rule produce_loop_step)
    fix run' assume again: "produce_iteration dates engine topic vp records summary c (clock i) run = Again run'"
    have "\<not> needs_lease p (clock i)" using Suc.prems(3) by simp
    with produce_iteration_again[OF again Suc.prems(1,2)] obtain p' r where
      p': "partition_or_default (run_state run') topic vp = p'" "\<not> allocation_in_flight p'"
      "ps_lease_expiration_at p' = ps_lease_expiration_at p"
      "unat (seq_start r) = next_seq_mark (run_store run) (partition_lease_key topic vp)"
      "unat (seq_start r) \<le> unat (seq_end r)"
      "next_seq_mark (run_store run') (partition_lease_key topic vp) = unat (seq_end r) + 1"
      "seq_allocator p' = install_or_extend_reservation (seq_allocator p) r" by metis
    have "short_by m (n_records records) (seq_allocator p') (next_seq_mark (run_store run') (partition_lease_key topic vp))"
      using short_by_extend[of "Suc m" _ "seq_allocator p" r] Suc.prems(4) p'(4-7) by simp
    moreover have "\<forall>j \<ge> Suc i. \<not> needs_lease p' (clock j)" using Suc.prems(3) p'(3) by (simp add: needs_lease_def)
    ultimately show "\<exists>r. produce_loop dates engine topic vp records summary c clock (Suc i) run' = Some r"
      using Suc.IH[OF p'(1,2)] by blast
  qed
qed

lemma produce_loop_leased:
  assumes "partition_or_default (run_state run) topic vp = p" "\<not> allocation_in_flight p"
    "\<forall>j \<ge> i. \<not> needs_lease p (clock j)" "n_records records \<noteq> 0"
  shows "\<exists>r. produce_loop dates engine topic vp records summary c clock i run = Some r"
proof (rule produce_loop_step)
  fix run' assume again: "produce_iteration dates engine topic vp records summary c (clock i) run = Again run'"
  have "\<not> needs_lease p (clock i)" using assms(3) by simp
  with produce_iteration_again[OF again assms(1,2)] obtain p' r where
    p': "partition_or_default (run_state run') topic vp = p'" "\<not> allocation_in_flight p'"
    "ps_lease_expiration_at p' = ps_lease_expiration_at p"
    "next_seq_mark (run_store run') (partition_lease_key topic vp) = unat (seq_end r) + 1"
    "seq_allocator p' = install_or_extend_reservation (seq_allocator p) r" by metis
  moreover have "\<forall>j \<ge> Suc i. \<not> needs_lease p' (clock j)" using assms(3) p'(3) by (simp add: needs_lease_def)
  ultimately show "\<exists>r. produce_loop dates engine topic vp records summary c clock (Suc i) run' = Some r"
    using produce_loop_leased_short[OF p'(1,2) _ assms(4)] short_by_install[of "n_records records" "seq_allocator p" r]
    by metis
qed

text \<open>
  When the lease ends during the loop, the next round renews it, and the new lease outlasts the rest
  of the loop.
\<close>

lemma produce_loop_renewed:
  assumes "\<forall>i j. clock j < clock i + wc_lease_duration (engine_config engine)" "n_records records \<noteq> 0"
    "partition_or_default (run_state run) topic vp = p" "\<not> allocation_in_flight p"
    "ps_lease_expiration_at p = Some (clock i + wc_lease_duration (engine_config engine))"
  shows "\<exists>r. produce_loop dates engine topic vp records summary c clock (Suc i) run = Some r"
  using assms(1) by (intro produce_loop_leased[OF assms(3,4) _ assms(2)])
    (auto simp: needs_lease_def assms(5) not_le)

lemma produce_loop_short:
  assumes "\<forall>i j. clock j < clock i + wc_lease_duration (engine_config engine)" "n_records records \<noteq> 0"
    "partition_or_default (run_state run) topic vp = p" "\<not> allocation_in_flight p"
    "short_by m (n_records records) (seq_allocator p) (next_seq_mark (run_store run) (partition_lease_key topic vp))"
  shows "\<exists>r. produce_loop dates engine topic vp records summary c clock i run = Some r"
  using assms(3-5)
proof (induction m arbitrary: i run p)
  case (Suc m)
  show ?case
  proof (rule produce_loop_step)
    fix run' assume again: "produce_iteration dates engine topic vp records summary c (clock i) run = Again run'"
    obtain p' where p': "partition_or_default (run_state run') topic vp = p'" "\<not> allocation_in_flight p'"
      "ps_lease_expiration_at p' = Some (clock i + wc_lease_duration (engine_config engine))
       \<or> (\<exists>r. unat (seq_start r) = next_seq_mark (run_store run) (partition_lease_key topic vp)
            \<and> unat (seq_start r) \<le> unat (seq_end r)
            \<and> next_seq_mark (run_store run') (partition_lease_key topic vp) = unat (seq_end r) + 1
            \<and> seq_allocator p' = install_or_extend_reservation (seq_allocator p) r)"
      by (rule produce_iteration_again[OF again Suc.prems(1,2)]) blast
    from p'(3) show "\<exists>r. produce_loop dates engine topic vp records summary c clock (Suc i) run' = Some r"
    proof (elim disjE exE conjE)
      assume "ps_lease_expiration_at p' = Some (clock i + wc_lease_duration (engine_config engine))"
      then show ?thesis by (rule produce_loop_renewed[OF assms(1,2) p'(1,2)])
    next
      fix r
      assume "unat (seq_start r) = next_seq_mark (run_store run) (partition_lease_key topic vp)"
        "unat (seq_start r) \<le> unat (seq_end r)"
        "next_seq_mark (run_store run') (partition_lease_key topic vp) = unat (seq_end r) + 1"
        "seq_allocator p' = install_or_extend_reservation (seq_allocator p) r"
      then have "short_by m (n_records records) (seq_allocator p') (next_seq_mark (run_store run') (partition_lease_key topic vp))"
        using short_by_extend[of "Suc m" _ "seq_allocator p" r] Suc.prems(3) by simp
      then show ?thesis by (rule Suc.IH[OF p'(1,2)])
    qed
  qed
next
  case 0
  show ?case
  proof (rule produce_loop_step)
    fix run' assume again: "produce_iteration dates engine topic vp records summary c (clock i) run = Again run'"
    have "can_allocate (seq_allocator p) (n_records records)" using short_by_zero[OF 0(3) assms(2)] .
    with produce_iteration_again[OF again 0(1,2)] obtain p' where
      "partition_or_default (run_state run') topic vp = p'" "\<not> allocation_in_flight p'"
      "ps_lease_expiration_at p' = Some (clock i + wc_lease_duration (engine_config engine))" by metis
    then show "\<exists>r. produce_loop dates engine topic vp records summary c clock (Suc i) run' = Some r"
      by (rule produce_loop_renewed[OF assms(1,2)])
  qed
qed

lemma produce_loop_ends:
  assumes "\<forall>i j. clock j < clock i + wc_lease_duration (engine_config engine)" "n_records records \<noteq> 0"
    "\<not> allocation_in_flight (partition_or_default (run_state run) topic vp)"
  shows "\<exists>r. produce_loop dates engine topic vp records summary c clock i run = Some r"
proof (rule produce_loop_step)
  fix run' assume again: "produce_iteration dates engine topic vp records summary c (clock i) run = Again run'"
  let ?p = "partition_or_default (run_state run) topic vp"
  obtain p' where p': "partition_or_default (run_state run') topic vp = p'" "\<not> allocation_in_flight p'"
    "ps_lease_expiration_at p' = Some (clock i + wc_lease_duration (engine_config engine))
     \<or> (\<exists>r. next_seq_mark (run_store run') (partition_lease_key topic vp) = unat (seq_end r) + 1
          \<and> seq_allocator p' = install_or_extend_reservation (seq_allocator ?p) r)"
    by (rule produce_iteration_again[OF again refl assms(3)]) blast
  from p'(3) show "\<exists>r. produce_loop dates engine topic vp records summary c clock (Suc i) run' = Some r"
  proof (elim disjE exE conjE)
    assume "ps_lease_expiration_at p' = Some (clock i + wc_lease_duration (engine_config engine))"
    then show ?thesis by (rule produce_loop_renewed[OF assms(1,2) p'(1,2)])
  next
    fix r
    assume "next_seq_mark (run_store run') (partition_lease_key topic vp) = unat (seq_end r) + 1"
      "seq_allocator p' = install_or_extend_reservation (seq_allocator ?p) r"
    then show ?thesis
      using produce_loop_short[OF assms(1,2) p'(1,2)] short_by_install[of "n_records records" "seq_allocator ?p" r] by metis
  qed
qed

text \<open>What a buffered request leaves behind.\<close>

lemma allocate_range:
  assumes "allocate a n = (Some r, a')"
  shows "unat (seq_end r) = unat (seq_start r) + (unat n - 1)"
  using assms by (auto simp: allocate_def Let_def machine_int unat_saturating_sub split: if_splits option.splits)

definition buffered_last ::
    "WriteState \<Rightarrow> string \<Rightarrow> VirtualPartitionId \<Rightarrow> Record list \<Rightarrow> BatchSummary \<Rightarrow> FlushCompletion \<Rightarrow> SeqRange \<Rightarrow> bool" where
  "buffered_last st topic vp records summary c range' \<longleftrightarrow>
     (\<exists>p bs. partition_state st topic vp = Some p
        \<and> batches (buffer p) = bs @ [\<lparr>bb_records = records, bb_summary = summary, bb_seq_range = range',
            bb_acceptance_fence = lease_fence p, bb_completion = Some c\<rparr>])"

lemma buffer_attempt_buffered:
  assumes "buffer_attempt st topic vp records summary flush_config c now = (Buffered range' notify, st')"
  shows "buffered_last st' topic vp records summary c range'
    \<and> unat (seq_end range') = unat (seq_start range') + (unat (n_records records) - 1)"
  using assms
  by (auto elim!: buffer_attempt_cases simp: buffered_last_def buffer_batch_def dest: allocate_range)

lemma produce_iteration_buffered:
  assumes "produce_iteration dates engine topic vp records summary c now run = Returned (Inr (range', notify)) run'"
  shows "buffered_last (run_state run') topic vp records summary c range'
    \<and> unat (seq_end range') = unat (seq_start range') + (unat (n_records records) - 1)"
  using assms buffer_attempt_buffered
  by (auto simp: produce_iteration_def Let_def split: prod.splits BufferAttempt.splits
      AllocationTransitionDecision.splits option.splits)

lemma produce_loop_result:
  assumes "produce_loop dates engine topic vp records summary c clock i run = Some y"
  shows "\<forall>range' notify run'. y = (Inr (range', notify), run') \<longrightarrow>
    buffered_last (run_state run') topic vp records summary c range'
    \<and> unat (seq_end range') = unat (seq_start range') + (unat (n_records records) - 1)"
  using assms
  by (rule produce_loop.raw_induct[rotated])
    (auto split: loop_step.splits dest: produce_iteration_buffered)

lemma validated_length:
  assumes "validate_request infos overloaded request = Inr summary"
  shows "unat (n_records (request_records request)) = length (request_records request)"
    "n_records (request_records request) \<noteq> 0"
proof -
  let ?rs = "request_records request"
  have rs: "?rs \<noteq> []" "summary_from_records ?rs = Some summary"
    using assms by (auto simp: validate_request_def split: option.splits if_splits)
  then have "unat (record_count summary) = length ?rs"
    by (auto simp: summary_from_records_def Let_def machine_int split: list.splits option.splits)
  then have "length ?rs < 2 ^ 32" using unsigned_less[of "record_count summary", where ?'a = nat] by simp
  then show len: "unat (n_records ?rs) = length ?rs" by (simp add: n_records_def unat_of_nat)
  show "n_records ?rs \<noteq> 0" using len rs(1) by auto
qed

section \<open>Properties\<close>


text \<open>A broker with one topic that is assigned its partition and has no lease yet.\<close>

definition sample_request :: WriteRequest where
  "sample_request = \<lparr>request_topic = ''t'', request_virtual_partition_id = 0,
     request_records = [new_record [1] 0, new_record [2] 0]\<rparr>"

definition sample_topics :: "(string, TopicInfo) hmap" where
  "sample_topics = [(''t'', \<lparr>topic_name = ''t'', partition_count = 1, num_writers = 1, retention = 5,
     max_metadata_publication_lag = 6, metadata_window_size = 7\<rparr>)]"

definition sample_engine :: WriteEngineImpl where
  "sample_engine = \<lparr>engine_config = with_defaults\<lparr>wc_reservation_size := 1\<rparr>, engine_topics = sample_topics,
     engine_holder_id = ''b'', engine_lease_session_id = ''s'',
     engine_flush_config = \<lparr>max_bytes = 10, max_delay = 3,
       adaptive_flush_delay = \<lparr>adaptive_enabled = False, adaptive_floor = 1, adaptive_max_delay = 3\<rparr>\<rparr>\<rparr>"

definition sample_run :: engine_run where
  "sample_run = \<lparr>run_state = snd (publish_assignment (with_membership Pending) [(''t'', 0)]),
     run_store = [], run_sent = []\<rparr>"


end
