(* ===== verification/Lease_Assignment.thy ===== *)
theory Lease_Assignment
  imports Write_Engine Discovery
begin

text \<open>
  Lease self-assignment (\<open>write/lease/assignment.rs\<close>): the coordinator that turns membership snapshots
  into the set of admitted partitions, keeps their leases and hands lost partitions over.  The
  coordinator's turn is one function of the event that woke it and of what its channels show; the
  tasks it starts are returned.  The release of a partition is given by the steps that touch the
  write state.
\<close>

section \<open>Retries\<close>

type_synonym PartitionKey = "string \<times> VirtualPartitionId"

definition LEASE_RETRY_INITIAL_DELAY :: duration where
  "LEASE_RETRY_INITIAL_DELAY = milliseconds 250"

definition LEASE_RETRY_MAX_DELAY :: duration where
  "LEASE_RETRY_MAX_DELAY = seconds 2"

datatype LeaseReleaseReason = AssignmentLoss | DefensiveReconciliation | ShutdownRelease

record LeaseRetrySchedule =
  next_retry_at :: instant
  retry_delay :: duration

definition retry_new :: "instant \<Rightarrow> LeaseRetrySchedule" where
  "retry_new at = \<lparr>next_retry_at = at, retry_delay = LEASE_RETRY_INITIAL_DELAY\<rparr>"

text \<open>The delays stay below the maximum, so that \<open>saturating_mul\<close> does not saturate.\<close>

definition schedule_retry :: "LeaseRetrySchedule \<Rightarrow> instant \<Rightarrow> duration \<times> LeaseRetrySchedule" where
  "schedule_retry s now =
     (retry_delay s,
      s\<lparr>next_retry_at := now + retry_delay s, retry_delay := min (retry_delay s * 2) LEASE_RETRY_MAX_DELAY\<rparr>)"

definition retry_reset :: "LeaseRetrySchedule \<Rightarrow> instant \<Rightarrow> LeaseRetrySchedule" where
  "retry_reset s at = s\<lparr>next_retry_at := at, retry_delay := LEASE_RETRY_INITIAL_DELAY\<rparr>"

definition next_acquisition_retry_at ::
    "(PartitionKey, LeaseRetrySchedule) hmap \<Rightarrow> PartitionKey set \<Rightarrow> instant option" where
  "next_acquisition_retry_at pending in_flight =
     (case map (\<lambda>(_, retry). next_retry_at retry) (filter (\<lambda>(key, _). key \<notin> in_flight) pending) of
        [] \<Rightarrow> None | t # ts \<Rightarrow> Some (fold min ts t))"

section \<open>Desired ownership\<close>

definition sorted_partition_delta :: "PartitionKey set \<Rightarrow> PartitionKey set \<Rightarrow> PartitionKey list" where
  "sorted_partition_delta left right = sorted_list_of_set (left - right)"

definition owned_virtual_partitions ::
    "default_hasher \<Rightarrow> (string, TopicInfo) hmap \<Rightarrow> u32 \<Rightarrow> string \<Rightarrow> BrokerMembership \<Rightarrow> PartitionKey list option" where
  "owned_virtual_partitions hasher infos writer_id holder_id' members =
     (let partitions = writer_virtual_partitions
            (map (\<lambda>(_, topic). (topic_name topic, partition_count topic, num_writers topic)) infos) writer_id
      in map_option (\<lambda>assigned.
           sort (map (\<lambda>(p, _). (bp_topic p, bp_virtual_partition_id p))
             (filter (\<lambda>(_, owner). node_id owner = holder_id') assigned)))
           (balanced_assignment hasher partitions members))"

definition self_is_member :: "BrokerMembership \<Rightarrow> string \<Rightarrow> bool" where
  "self_is_member members holder_id' =
     (case membership_nodes members of
        None \<Rightarrow> False | Some nodes \<Rightarrow> (\<exists>node \<in> set nodes. node_id node = holder_id'))"

text \<open>\<open>WriteEngineBuilder::build\<close>: the write state a broker starts with.\<close>

definition initial_write_state ::
    "default_hasher \<Rightarrow> WriteEngineImpl \<Rightarrow> BrokerMembership \<Rightarrow> WriteState option" where
  "initial_write_state hasher engine members =
     (let st = with_membership members
      in if self_is_member members (engine_holder_id engine)
         then map_option (\<lambda>parts. snd (publish_assignment st parts))
                (owned_virtual_partitions hasher (engine_topics engine)
                   (wc_writer_id (engine_config engine)) (engine_holder_id engine) members)
         else Some st)"

section \<open>Maintenance of leases\<close>

text \<open>
  The loop of an acquisition task up to its claim.  \<open>None\<close> in the first component is
  \<open>unreachable!\<close>.
\<close>

datatype MaintenanceDecision = NothingToDo | WaitForTransition | ClaimedMaintenance AllocationTransitionWork

definition begin_maintenance ::
    "WriteState \<Rightarrow> PartitionKey \<Rightarrow> instant \<Rightarrow> u64 \<Rightarrow> MaintenanceDecision option \<times> WriteState" where
  "begin_maintenance st key now base =
     (case begin_allocation_transition st (fst key) (snd key) 1 now True base of
        (NotAssigned, st') \<Rightarrow> (Some NothingToDo, st')
      | (Draining, st') \<Rightarrow> (Some NothingToDo, st')
      | (Ready, st') \<Rightarrow> (None, st')
      | (Waiting, st') \<Rightarrow> (Some WaitForTransition, st')
      | (Claimed work, st') \<Rightarrow> (Some (ClaimedMaintenance work), st'))"

definition maintenance_call ::
    "date_range \<Rightarrow> WriteEngineImpl \<Rightarrow> LeaseStore \<Rightarrow> PartitionKey \<Rightarrow> instant \<Rightarrow> AllocationTransitionWork
     \<Rightarrow> (LeaseStoreError + LeaseAcquireAndReserveOutcome) \<times> LeaseStore" where
  "maintenance_call dates engine store key now work =
     acquire_lease_and_reserve_sequences dates store (partition_lease_key (fst key) (snd key))
       (engine_holder_id engine) (engine_lease_session_id engine) now
       (wc_lease_duration (engine_config engine)) (map_option request_size (work_reservation work))
       (work_sequence_progress work)"

definition update_if_present ::
    "WriteState \<Rightarrow> PartitionKey \<Rightarrow> (PartitionState \<Rightarrow> PartitionState) \<Rightarrow> WriteState" where
  "update_if_present st key f =
     (case partition_state st (fst key) (snd key) of
        None \<Rightarrow> st | Some p \<Rightarrow> put_partition st (fst key) (snd key) (f p))"

text \<open>The end of a maintenance transition, on the write state and on the retry schedules.\<close>

definition complete_maintenance ::
    "WriteState \<Rightarrow> (PartitionKey, LeaseRetrySchedule) hmap \<Rightarrow> PartitionKey \<Rightarrow> instant
     \<Rightarrow> AllocationTransitionWork \<Rightarrow> LeaseStoreError + LeaseAcquireAndReserveOutcome
     \<Rightarrow> (PartitionKey, LeaseRetrySchedule) hmap \<times> sent list \<times> WriteState" where
  "complete_maintenance st pending key now work outcome =
     (case outcome of
        Inr (Acquired lease range') \<Rightarrow>
          (case finish_lease_maintenance st (work_transition work)
                  (SetExpiration (Some (lease_expires_at lease))) (Some lease) range'
                  (case work_records_allocated_since_last_maintenance work of None \<Rightarrow> 0 | Some n \<Rightarrow> n) of
             (result, _, msgs, st') \<Rightarrow>
               if result = Applied
               then (hm_remove key pending, msgs, update_if_present st' key (\<lambda>p. p\<lparr>draining := False\<rparr>))
               else (pending, msgs, st'))
      | Inr (HeldByOther _) \<Rightarrow>
          (case finish st (work_transition work) (SetExpiration None) None None of
             (result, _, msgs, st') \<Rightarrow>
               (if result = Applied
                then hm_insert key
                       (snd (schedule_retry
                          (case hm_get pending key of None \<Rightarrow> retry_new now | Some r \<Rightarrow> r) now)) pending
                else pending, msgs, st'))
      | Inl _ \<Rightarrow>
          (case finish st (work_transition work) PreserveExpiration None None of
             (result, _, msgs, st') \<Rightarrow>
               (if result = Applied then hm_remove key pending else pending, msgs, st')))"

section \<open>The coordinator\<close>

record AssignmentCoordinator =
  co_membership_updates_open :: bool
  co_assignment_refresh_needed :: bool
  co_maintenance_refresh_needed :: bool
  co_assignment_activated :: bool
  co_previously_desired :: "PartitionKey set"
  co_pending_acquisitions :: "(PartitionKey, LeaseRetrySchedule) hmap"
  co_in_flight_acquisitions :: "PartitionKey set"
  co_pending_releases :: "PartitionKey set"
  co_owned :: "PartitionKey list"

definition new_coordinator :: AssignmentCoordinator where
  "new_coordinator =
     \<lparr>co_membership_updates_open = True, co_assignment_refresh_needed = True,
      co_maintenance_refresh_needed = True, co_assignment_activated = False,
      co_previously_desired = {}, co_pending_acquisitions = [], co_in_flight_acquisitions = {},
      co_pending_releases = {}, co_owned = []\<rparr>"

text \<open>What to release: ownership that was lost, and tracked partitions that are not desired.\<close>

definition release_partitions ::
    "PartitionKey list \<Rightarrow> PartitionKey list \<Rightarrow> PartitionKey set \<Rightarrow> (PartitionKey \<times> LeaseReleaseReason) list" where
  "release_partitions lost tracked desired =
     sort_key fst (fold (\<lambda>key m.
         if key \<notin> desired \<and> hm_get m key = None then hm_insert key DefensiveReconciliation m else m)
       tracked (map (\<lambda>key. (key, AssignmentLoss)) lost))"

fun start_releases ::
    "(PartitionKey \<times> LeaseReleaseReason) list \<Rightarrow> PartitionKey set
     \<Rightarrow> (PartitionKey \<times> LeaseReleaseReason) list \<times> PartitionKey set" where
  "start_releases [] pending = ([], pending)"
| "start_releases ((key, reason) # rest) pending =
     (if key \<in> pending then start_releases rest pending
      else case start_releases rest (insert key pending) of
             (started, pending') \<Rightarrow> ((key, reason) # started, pending'))"

definition refresh_assignment ::
    "default_hasher \<Rightarrow> WriteEngineImpl \<Rightarrow> BrokerMembership \<Rightarrow> AssignmentCoordinator \<Rightarrow> WriteState
     \<Rightarrow> ((PartitionKey \<times> LeaseReleaseReason) list \<times> AssignmentCoordinator \<times> WriteState) option" where
  "refresh_assignment hasher engine members co st =
     (let is_member = self_is_member members (engine_holder_id engine);
          activated = (co_assignment_activated co \<or> is_member)
      in case (if activated \<and> is_member
               then owned_virtual_partitions hasher (engine_topics engine)
                      (wc_writer_id (engine_config engine)) (engine_holder_id engine) members
               else Some []) of
           None \<Rightarrow> None
         | Some next_desired_owned \<Rightarrow>
             let currently_desired = set next_desired_owned;
                 tracked = partition_keys st;
                 acquisitions = filter (\<lambda>(key, _). key \<in> currently_desired) (co_pending_acquisitions co);
                 lost = sorted_partition_delta (co_previously_desired co) currently_desired;
                 (started, releases) =
                   start_releases (release_partitions lost tracked currently_desired) (co_pending_releases co);
                 owned = filter (\<lambda>key. key \<notin> releases) next_desired_owned;
                 st' = snd (publish_assignment (st\<lparr>membership := members\<rparr>) owned)
             in Some (started,
                  co\<lparr>co_assignment_activated := activated, co_pending_acquisitions := acquisitions,
                     co_pending_releases := releases, co_owned := owned,
                     co_previously_desired := currently_desired,
                     co_assignment_refresh_needed := False, co_maintenance_refresh_needed := True\<rparr>,
                  st'))"

text \<open>The partitions for which an acquisition task is started.\<close>

fun start_acquisitions ::
    "instant \<Rightarrow> (PartitionKey, LeaseRetrySchedule) hmap \<Rightarrow> PartitionKey list \<Rightarrow> PartitionKey set
     \<Rightarrow> PartitionKey list \<times> PartitionKey set" where
  "start_acquisitions now pending [] in_flight = ([], in_flight)"
| "start_acquisitions now pending (key # keys) in_flight =
     (if key \<in> in_flight
         \<or> (case hm_get pending key of None \<Rightarrow> False | Some retry \<Rightarrow> now < next_retry_at retry)
      then start_acquisitions now pending keys in_flight
      else case start_acquisitions now pending keys (insert key in_flight) of
             (started, in_flight') \<Rightarrow> (key # started, in_flight'))"

datatype MaintenanceCompletion =
    NoTransition
  | Transition AllocationTransitionWork "LeaseStoreError + LeaseAcquireAndReserveOutcome"

text \<open>The source a turn consumes, and what a poll of the membership channel shows.\<close>

datatype coordinator_event =
    HeartbeatTick
  | AcquisitionRetryDue
  | ReleaseCompleted PartitionKey
  | AcquisitionCompleted PartitionKey MaintenanceCompletion
  | MembershipChanged
  | MembershipClosed

datatype watch_poll = WatchChanged | WatchUnchanged | WatchClosed

record coordinator_turn_result =
  turn_releases :: "(PartitionKey \<times> LeaseReleaseReason) list"
  turn_acquisitions :: "PartitionKey list"
  turn_sent :: "sent list"
  turn_coordinator :: AssignmentCoordinator
  turn_state :: WriteState

definition consume_event :: "coordinator_event \<Rightarrow> AssignmentCoordinator \<Rightarrow> bool \<times> AssignmentCoordinator" where
  "consume_event event co =
     (case event of
        HeartbeatTick \<Rightarrow> (False, co\<lparr>co_maintenance_refresh_needed := True\<rparr>)
      | AcquisitionRetryDue \<Rightarrow> (False, co\<lparr>co_maintenance_refresh_needed := True\<rparr>)
      | ReleaseCompleted key \<Rightarrow>
          (False, co\<lparr>co_pending_releases := co_pending_releases co - {key}, co_assignment_refresh_needed := True\<rparr>)
      | AcquisitionCompleted _ _ \<Rightarrow> (False, co)
      | MembershipChanged \<Rightarrow> (True, co)
      | MembershipClosed \<Rightarrow> (True, co\<lparr>co_membership_updates_open := False\<rparr>))"

definition poll_membership :: "watch_poll \<Rightarrow> bool \<times> AssignmentCoordinator \<Rightarrow> bool \<times> AssignmentCoordinator" where
  "poll_membership poll state =
     (case state of (changed, co) \<Rightarrow>
       if \<not> changed \<and> co_membership_updates_open co
       then case poll of
              WatchChanged \<Rightarrow> (True, co)
            | WatchUnchanged \<Rightarrow> (False, co)
            | WatchClosed \<Rightarrow> (False, co\<lparr>co_membership_updates_open := False\<rparr>)
       else (changed, co))"

definition coordinator_turn ::
    "default_hasher \<Rightarrow> WriteEngineImpl \<Rightarrow> instant \<Rightarrow> coordinator_event \<Rightarrow> watch_poll \<Rightarrow> BrokerMembership
     \<Rightarrow> watch_poll \<Rightarrow> AssignmentCoordinator \<Rightarrow> WriteState \<Rightarrow> coordinator_turn_result option" where
  "coordinator_turn hasher engine now event poll members poll' co st =
     (let (changed, co1) = poll_membership poll (consume_event event co)
      in case (if co_assignment_refresh_needed co1 \<or> changed
               then refresh_assignment hasher engine members co1 st
               else Some ([], co1, st)) of
           None \<Rightarrow> None
         | Some (releases, co2, st2) \<Rightarrow>
             let (stopped, msgs, co3, st3) =
                   (case event of
                      AcquisitionCompleted key completion \<Rightarrow>
                        let co' = co2\<lparr>co_in_flight_acquisitions := co_in_flight_acquisitions co2 - {key}\<rparr>
                        in (case completion of
                              NoTransition \<Rightarrow> (True, [], co', st2)
                            | Transition work outcome \<Rightarrow>
                                (case complete_maintenance st2 (co_pending_acquisitions co') key now work outcome of
                                   (pending, msgs, st') \<Rightarrow>
                                     (False, msgs, co'\<lparr>co_pending_acquisitions := pending\<rparr>, st')))
                    | _ \<Rightarrow> (False, [], co2, st2))
             in if stopped \<or> co_membership_updates_open co3 \<and> poll' = WatchChanged
                   \<or> \<not> co_maintenance_refresh_needed co3
                then Some \<lparr>turn_releases = releases, turn_acquisitions = [], turn_sent = msgs,
                           turn_coordinator = co3, turn_state = st3\<rparr>
                else
                  let (started, in_flight) = start_acquisitions now (co_pending_acquisitions co3)
                        (co_owned co3) (co_in_flight_acquisitions co3)
                  in Some \<lparr>turn_releases = releases, turn_acquisitions = started, turn_sent = msgs,
                           turn_coordinator = co3\<lparr>co_maintenance_refresh_needed := False,
                             co_in_flight_acquisitions := in_flight\<rparr>,
                           turn_state = st3\<rparr>)"

text \<open>Shutdown: nothing is admitted any more, and every partition that is tracked or owned is released.\<close>

definition coordinator_shutdown ::
    "default_hasher \<Rightarrow> WriteEngineImpl \<Rightarrow> BrokerMembership \<Rightarrow> AssignmentCoordinator \<Rightarrow> WriteState
     \<Rightarrow> ((PartitionKey \<times> LeaseReleaseReason) list \<times> AssignmentCoordinator \<times> WriteState) option" where
  "coordinator_shutdown hasher engine members co st =
     (let st' = snd (publish_assignment st [])
      in map_option (\<lambda>owned.
           let keys = sorted_list_of_set (set (partition_keys st') \<union> set owned);
               (started, releases) = start_releases (map (\<lambda>key. (key, ShutdownRelease)) keys) (co_pending_releases co)
           in (started, co\<lparr>co_pending_releases := releases\<rparr>, st'))
         (owned_virtual_partitions hasher (engine_topics engine)
            (wc_writer_id (engine_config engine)) (engine_holder_id engine) members))"

section \<open>Releasing a partition\<close>

text \<open>The start of a release: the partition drains; the result is when to send the first heartbeat.\<close>

definition start_drain ::
    "WriteState \<Rightarrow> PartitionKey \<Rightarrow> instant \<Rightarrow> duration \<Rightarrow> instant option \<times> WriteState" where
  "start_drain st key now heartbeat_interval =
     (case partition_state st (fst key) (snd key) of
        None \<Rightarrow> (None, st)
      | Some p \<Rightarrow>
          (Some (case ps_lease_expiration_at p of None \<Rightarrow> now | Some t \<Rightarrow> t - heartbeat_interval),
           put_partition st (fst key) (snd key) (p\<lparr>draining := True\<rparr>)))"

definition drain_progress :: "WriteState \<Rightarrow> PartitionKey \<Rightarrow> ProducerSequenceProgress" where
  "drain_progress st key =
     (case partition_state st (fst key) (snd key) of
        None \<Rightarrow> default_progress | Some p \<Rightarrow> sequence_progress (seq_allocator p))"

text \<open>A heartbeat while the partition drains: whether the lease is still held, and the next retry.\<close>

definition drain_heartbeat ::
    "WriteState \<Rightarrow> PartitionKey \<Rightarrow> instant \<Rightarrow> duration \<Rightarrow> LeaseRetrySchedule
     \<Rightarrow> LeaseStoreError + LeaseHeartbeatOutcome \<Rightarrow> bool \<times> LeaseRetrySchedule \<times> WriteState" where
  "drain_heartbeat st key now heartbeat_interval retry outcome =
     (case outcome of
        Inr (HeartbeatRenewed lease) \<Rightarrow>
          (True, retry_reset retry (now + heartbeat_interval),
           update_if_present st key (\<lambda>p. p\<lparr>ps_lease_expiration_at := Some (lease_expires_at lease)\<rparr>))
      | Inr (HeartbeatHeldByOther _) \<Rightarrow> (False, retry, st)
      | Inr HeartbeatExpired \<Rightarrow> (False, retry, st)
      | Inl _ \<Rightarrow> (True, snd (schedule_retry retry now), st))"

definition drain_finished :: "WriteState \<Rightarrow> PartitionKey \<Rightarrow> bool" where
  "drain_finished st key =
     (case partition_state st (fst key) (snd key) of None \<Rightarrow> True | Some p \<Rightarrow> is_drained p)"

text \<open>The conditional release: every answer of the store is terminal, an error is retried.\<close>

definition release_attempt ::
    "WriteState \<Rightarrow> PartitionKey \<Rightarrow> LeaseRetrySchedule \<Rightarrow> instant \<Rightarrow> LeaseStoreError + LeaseReleaseOutcome
     \<Rightarrow> bool \<times> LeaseRetrySchedule \<times> WriteState" where
  "release_attempt st key retry now outcome =
     (case outcome of
        Inr _ \<Rightarrow> (True, retry, clear_terminally_released_partition st (fst key) (snd key))
      | Inl _ \<Rightarrow> (False, snd (schedule_retry retry now), st))"

section \<open>Lemmas\<close>

subsection \<open>Admission\<close>

definition admitted :: "WriteState \<Rightarrow> PartitionKey \<Rightarrow> bool" where
  "admitted st key \<longleftrightarrow> assignment_generation_for_partition st (fst key) (snd key) \<noteq> None"

definition assigned :: "(string, VirtualPartitionId set) hmap \<Rightarrow> PartitionKey \<Rightarrow> bool" where
  "assigned m key \<longleftrightarrow> (case hm_get m (fst key) of None \<Rightarrow> False | Some vps \<Rightarrow> snd key \<in> vps)"

lemma admitted_iff: "admitted st key \<longleftrightarrow> active (assignment st) \<and> assigned (assigned_partitions (assignment st)) key"
  by (simp add: admitted_def assignment_generation_for_partition_def assigned_def)

lemma admitted_cong: "assignment st' = assignment st \<Longrightarrow> admitted st' = admitted st"
  unfolding admitted_def by (drule assignment_generation_cong) simp

lemma assigned_insert:
  "assigned (hm_insert topic (insert vp (case hm_get m topic of None \<Rightarrow> {} | Some vps \<Rightarrow> vps)) m) key
     \<longleftrightarrow> key = (topic, vp) \<or> assigned m key"
proof (cases "fst key = topic")
  case True
  then show ?thesis by (cases "hm_get m topic") (auto simp: assigned_def hm_get_insert prod_eq_iff)
next
  case False
  then have "key \<noteq> (topic, vp)" by auto
  with False show ?thesis by (simp add: assigned_def hm_get_insert)
qed

lemma group_assignment_fold:
  fixes parts :: "PartitionKey list"
  defines "F \<equiv> \<lambda>(topic, vp) m.
        hm_insert topic (insert vp (case hm_get m topic of None \<Rightarrow> {} | Some vps \<Rightarrow> vps)) m"
  shows "(assigned (fold F parts m) key \<longleftrightarrow> key \<in> set parts \<or> assigned m key)
    \<and> (hm_ok m \<longrightarrow> hm_ok (fold F parts m))"
proof (induction parts arbitrary: m)
  case (Cons part parts)
  obtain t v where part: "part = (t, v)" by force
  have "assigned (F part m) key \<longleftrightarrow> key = part \<or> assigned m key" "hm_ok m \<longrightarrow> hm_ok (F part m)"
    unfolding F_def part prod.case by (simp only: assigned_insert, blast intro: hm_ok_insert)
  with Cons.IH[of "F part m"] show ?case by auto
qed simp

lemma assigned_group [simp]: "assigned (group_assignment parts) key \<longleftrightarrow> key \<in> set parts"
  using group_assignment_fold[of parts "[]" key] by (simp add: group_assignment_def assigned_def)

lemma group_assignment_ok: "hm_ok (group_assignment parts)"
  using group_assignment_fold[of parts "[]"] by (simp add: group_assignment_def)

text \<open>Maps that compare equal have the same entries.\<close>

lemma hm_eq_get:
  assumes "hm_eq m m'" "hm_ok m" "hm_ok m'"
  shows "hm_get m = hm_get m'"
proof -
  have sub: "set m \<subseteq> set m'" using assms(1,3) by (auto simp: hm_eq_def hm_get_mem)
  have "card (set m) = card (set m')"
    using assms by (simp add: hm_eq_def distinct_card distinct_map)
  then have "set m = set m'" using sub by (simp add: card_subset_eq)
  then show ?thesis using assms(2,3) by (simp add: map_of_inject_set)
qed

definition assignment_ok :: "WriteState \<Rightarrow> bool" where
  "assignment_ok st \<longleftrightarrow> hm_ok (assigned_partitions (assignment st))"

lemma publish_assignment_admits:
  assumes "assignment_ok st"
  shows "admitted (snd (publish_assignment st parts)) key \<longleftrightarrow> key \<in> set parts"
    and "assignment_ok (snd (publish_assignment st parts))"
proof -
  have same: "assigned (assigned_partitions (assignment st)) key \<longleftrightarrow> key \<in> set parts"
    if eq: "hm_eq (assigned_partitions (assignment st)) (group_assignment parts)"
  proof -
    have "hm_get (assigned_partitions (assignment st)) = hm_get (group_assignment parts)"
      by (rule hm_eq_get[OF eq]) (use assms group_assignment_ok in \<open>simp_all add: assignment_ok_def\<close>)
    then have "assigned (assigned_partitions (assignment st)) key = assigned (group_assignment parts) key"
      by (simp only: assigned_def)
    then show ?thesis by simp
  qed
  show "admitted (snd (publish_assignment st parts)) key \<longleftrightarrow> key \<in> set parts"
    using same by (simp add: admitted_iff publish_assignment_def Let_def)
  show "assignment_ok (snd (publish_assignment st parts))"
    using assms by (simp add: assignment_ok_def publish_assignment_def Let_def group_assignment_ok)
qed

subsection \<open>Started tasks\<close>

lemma start_releases_spec:
  assumes "start_releases rs pending = (started, pending')"
  shows "pending' = pending \<union> fst ` set rs \<and> fst ` set started = fst ` set rs - pending \<and> distinct (map fst started)"
  using assms
proof (induction rs pending arbitrary: started pending' rule: start_releases.induct)
  case (2 key reason rest pending)
  obtain K where K: "fst ` set rest = K" "fst ` set ((key, reason) # rest) = insert key K" by simp
  show ?case
  proof (cases "key \<in> pending")
    case True
    then have "start_releases rest pending = (started, pending')" using 2(3) by simp
    from 2(1)[OF True this] True show ?thesis unfolding K by blast
  next
    case False
    obtain s p where sp: "start_releases rest (insert key pending) = (s, p)" by force
    then have s: "started = (key, reason) # s" "pending' = p" using 2(3) False by simp_all
    obtain S where S: "fst ` set s = S" "fst ` set started = insert key S"
      "distinct (map fst started) \<longleftrightarrow> key \<notin> S \<and> distinct (map fst s)" by (simp add: s)
    from 2(2)[OF False sp] False show ?thesis unfolding K S s(2) by blast
  qed
qed simp

lemma release_partitions_keys:
  "fst ` set (release_partitions lost tracked desired) = set lost \<union> (set tracked - desired)"
proof -
  let ?F = "\<lambda>key m. if key \<notin> desired \<and> hm_get m key = None then hm_insert key DefensiveReconciliation m else m"
  have "fst ` set (?F key m) = fst ` set m \<union> ({key} - desired)" for key m
    by (simp add: map_of_eq_None_iff dom_update) blast
  then have "fst ` set (fold ?F tracked m) = fst ` set m \<union> (set tracked - desired)" for m
    by (induction tracked arbitrary: m) (simp_all only: fold.simps comp_apply id_apply list.set, blast+)
  from this[of "map (\<lambda>key. (key, AssignmentLoss)) lost"] show ?thesis
    by (simp add: release_partitions_def image_image)
qed

lemma start_acquisitions_spec:
  assumes "start_acquisitions now pending keys in_flight = (started, in_flight')"
  shows "in_flight' = in_flight \<union> set started \<and> set started \<inter> in_flight = {} \<and> distinct started
    \<and> set started \<subseteq> set keys"
  using assms
proof (induction now pending keys in_flight arbitrary: started in_flight' rule: start_acquisitions.induct)
  case (2 now pending key keys in_flight)
  let ?skip = "key \<in> in_flight \<or> (case hm_get pending key of None \<Rightarrow> False | Some retry \<Rightarrow> now < next_retry_at retry)"
  show ?case
  proof (cases ?skip)
    case True
    then have "start_acquisitions now pending keys in_flight = (started, in_flight')" using 2(3) by simp
    from 2(1)[OF True this] show ?thesis by auto
  next
    case False
    obtain s f where sf: "start_acquisitions now pending keys (insert key in_flight) = (s, f)" by force
    then have "started = key # s" "in_flight' = f" using 2(3) False by auto
    with 2(2)[OF False sf] False show ?thesis by auto
  qed
qed simp

subsection \<open>Turns of the coordinator\<close>

text \<open>
  The invariant: partitions with a release in progress are not admitted, and maintenance looks only
  at admitted partitions.
\<close>

definition coordinator_ok :: "AssignmentCoordinator \<Rightarrow> WriteState \<Rightarrow> bool" where
  "coordinator_ok co st \<longleftrightarrow> assignment_ok st
     \<and> (\<forall>key. admitted st key \<longrightarrow> key \<notin> co_pending_releases co)
     \<and> (\<forall>key \<in> set (co_owned co). admitted st key)"

lemma coordinator_ok_cong:
  "assignment st' = assignment st \<Longrightarrow> coordinator_ok co st' = coordinator_ok co st"
  by (simp add: coordinator_ok_def assignment_ok_def admitted_iff)

lemma update_if_present_frame [simp]:
  "assignment (update_if_present st key f) = assignment st"
  by (simp add: update_if_present_def split: option.splits)

lemma complete_maintenance_frame:
  assumes "complete_maintenance st pending key now work outcome = (pending', msgs, st')"
  shows "assignment st' = assignment st"
  using assms
  by (auto simp: complete_maintenance_def finish_def finish_lease_maintenance_def
      split: sum.splits LeaseAcquireAndReserveOutcome.splits prod.splits if_splits dest!: finish_inner_frame(1))

lemma refresh_assignment_spec:
  assumes "refresh_assignment hasher engine members co st = Some (started, co', st')" "assignment_ok st"
  shows "admitted st' key \<longleftrightarrow> key \<in> co_previously_desired co' \<and> key \<notin> co_pending_releases co'"
    and "co_pending_releases co' = co_pending_releases co \<union> fst ` set started"
    and "fst ` set started \<inter> co_pending_releases co = {}" "distinct (map fst started)"
    and "key \<in> set (partition_keys st) \<Longrightarrow> key \<notin> co_previously_desired co' \<Longrightarrow> key \<in> co_pending_releases co'"
    and "assignment_ok st'" "key \<in> set (co_owned co') \<longleftrightarrow> admitted st' key"
    and "co_in_flight_acquisitions co' = co_in_flight_acquisitions co"
    and "co_membership_updates_open co' = co_membership_updates_open co"
    and "topics st' = topics st"
proof -
  obtain desired where d: "co_previously_desired co' = set desired"
    "co_owned co' = filter (\<lambda>key. key \<notin> co_pending_releases co') desired"
    "st' = snd (publish_assignment (st\<lparr>membership := members\<rparr>) (co_owned co'))"
    "start_releases (release_partitions (sorted_partition_delta (co_previously_desired co) (set desired))
       (partition_keys st) (set desired)) (co_pending_releases co) = (started, co_pending_releases co')"
    "co_in_flight_acquisitions co' = co_in_flight_acquisitions co"
    "co_membership_updates_open co' = co_membership_updates_open co"
    using assms(1) by (auto simp: refresh_assignment_def Let_def split: option.splits prod.splits if_splits)
  have ok: "assignment_ok (st\<lparr>membership := members\<rparr>)" using assms(2) by (simp add: assignment_ok_def)
  note pub = publish_assignment_admits[OF ok, of "co_owned co'", folded d(3)]
  note rel = start_releases_spec[OF d(4)]
  show adm: "admitted st' key \<longleftrightarrow> key \<in> co_previously_desired co' \<and> key \<notin> co_pending_releases co'" for key
    by (simp add: pub(1)) (auto simp: d(1,2))
  show "co_pending_releases co' = co_pending_releases co \<union> fst ` set started"
    "fst ` set started \<inter> co_pending_releases co = {}" "distinct (map fst started)"
    using rel by blast+
  show "key \<in> set (partition_keys st) \<Longrightarrow> key \<notin> co_previously_desired co' \<Longrightarrow> key \<in> co_pending_releases co'"
    using rel unfolding release_partitions_keys d(1) by blast
  show "assignment_ok st'" by (rule pub(2))
  show "key \<in> set (co_owned co') \<longleftrightarrow> admitted st' key" by (simp add: pub(1))
  show "topics st' = topics st" by (simp add: d(3) publish_assignment_def Let_def)
  show "co_in_flight_acquisitions co' = co_in_flight_acquisitions co"
    "co_membership_updates_open co' = co_membership_updates_open co" by (rule d)+
qed

lemma consume_and_poll_frame:
  assumes "poll_membership poll (consume_event event co) = (changed, co1)"
  shows "co_pending_releases co1 \<subseteq> co_pending_releases co" "co_owned co1 = co_owned co"
    "co_in_flight_acquisitions co1 = co_in_flight_acquisitions co"
    "co_pending_releases co1 = co_pending_releases co - (case event of ReleaseCompleted key \<Rightarrow> {key} | _ \<Rightarrow> {})"
  using assms
  by (auto simp: poll_membership_def consume_event_def split: coordinator_event.splits watch_poll.splits if_splits)

text \<open>The parts of a turn: the refresh, the completed acquisition, the new acquisitions.\<close>

lemma coordinator_turn_parts:
  assumes "coordinator_turn hasher engine now event poll members poll' co st = Some r"
  obtains changed co1 co2 st2 started co3 pending where
    "poll_membership poll (consume_event event co) = (changed, co1)"
    "refresh_assignment hasher engine members co1 st = Some (turn_releases r, co2, st2)
     \<or> turn_releases r = [] \<and> co2 = co1 \<and> st2 = st"
    "co3 = co2\<lparr>co_in_flight_acquisitions := co_in_flight_acquisitions co2
         - (case event of AcquisitionCompleted key _ \<Rightarrow> {key} | _ \<Rightarrow> {}),
       co_pending_acquisitions := pending\<rparr>"
    "assignment (turn_state r) = assignment st2"
    "turn_acquisitions r = [] \<and> turn_coordinator r = co3
     \<or> (\<exists>in_flight. start_acquisitions now (co_pending_acquisitions co3) (co_owned co3)
          (co_in_flight_acquisitions co3) = (turn_acquisitions r, in_flight)
        \<and> turn_coordinator r = co3\<lparr>co_maintenance_refresh_needed := False, co_in_flight_acquisitions := in_flight\<rparr>)"
proof -
  obtain changed co1 where pc: "poll_membership poll (consume_event event co) = (changed, co1)" by force
  let ?mid = "if co_assignment_refresh_needed co1 \<or> changed
    then refresh_assignment hasher engine members co1 st else Some ([], co1, st)"
  obtain releases co2 st2 where mid: "?mid = Some (releases, co2, st2)"
    using assms pc by (auto simp: coordinator_turn_def Let_def split: option.splits)
  let ?co' = "\<lambda>key. co2\<lparr>co_in_flight_acquisitions := co_in_flight_acquisitions co2 - {key}\<rparr>"
  define fin where "fin = (case event of
      AcquisitionCompleted key completion \<Rightarrow>
        (case completion of
           NoTransition \<Rightarrow> (True, [], ?co' key, st2)
         | Transition work outcome \<Rightarrow>
             (case complete_maintenance st2 (co_pending_acquisitions (?co' key)) key now work outcome of
                (pending, msgs, st') \<Rightarrow> (False, msgs, (?co' key)\<lparr>co_pending_acquisitions := pending\<rparr>, st')))
    | _ \<Rightarrow> (False, [], co2, st2))"
  obtain stopped msgs co3 st3 where dn: "fin = (stopped, msgs, co3, st3)" by (metis prod_cases4)
  note body = assms[unfolded coordinator_turn_def Let_def pc prod.case mid option.case, folded fin_def, unfolded dn prod.case]
  have co3: "\<exists>pending. co3 = co2\<lparr>co_in_flight_acquisitions := co_in_flight_acquisitions co2
         - (case event of AcquisitionCompleted key _ \<Rightarrow> {key} | _ \<Rightarrow> {}),
       co_pending_acquisitions := pending\<rparr>"
    using dn by (auto simp: fin_def split: coordinator_event.splits MaintenanceCompletion.splits prod.splits
        intro: exI[of _ "co_pending_acquisitions co2"])
  have st3: "assignment st3 = assignment st2"
    using dn by (auto simp: fin_def split: coordinator_event.splits MaintenanceCompletion.splits prod.splits
        dest!: complete_maintenance_frame)
  obtain started in_flight where acq: "start_acquisitions now (co_pending_acquisitions co3) (co_owned co3)
      (co_in_flight_acquisitions co3) = (started, in_flight)" by force
  have "refresh_assignment hasher engine members co1 st = Some (releases, co2, st2)
     \<or> releases = [] \<and> co2 = co1 \<and> st2 = st" using mid by (auto split: if_splits)
  moreover have "turn_releases r = releases" "turn_state r = st3"
    "turn_acquisitions r = [] \<and> turn_coordinator r = co3
     \<or> turn_acquisitions r = started
       \<and> turn_coordinator r = co3\<lparr>co_maintenance_refresh_needed := False, co_in_flight_acquisitions := in_flight\<rparr>"
    using body acq by (auto split: if_splits)
  ultimately show thesis using that[OF pc, of co2 st2] co3 st3 acq by auto
qed

subsection \<open>Retries and maintenance\<close>

fun retry_delays :: "nat \<Rightarrow> LeaseRetrySchedule \<Rightarrow> (nat \<Rightarrow> instant) \<Rightarrow> duration list" where
  "retry_delays 0 s clock = []"
| "retry_delays (Suc n) s clock =
     (case schedule_retry s (clock 0) of (d, s') \<Rightarrow> d # retry_delays n s' (\<lambda>i. clock (Suc i)))"

lemma retry_delays_nth:
  assumes "i < n" "0 \<le> retry_delay s" "retry_delay s \<le> LEASE_RETRY_MAX_DELAY"
  shows "retry_delays n s clock ! i = min (retry_delay s * 2 ^ i) LEASE_RETRY_MAX_DELAY"
  using assms
proof (induction n arbitrary: s clock i)
  case (Suc n)
  let ?s = "snd (schedule_retry s (clock 0))"
  have s: "0 \<le> retry_delay ?s" "retry_delay ?s \<le> LEASE_RETRY_MAX_DELAY"
    "retry_delay ?s = min (retry_delay s * 2) LEASE_RETRY_MAX_DELAY"
    using Suc.prems by (auto simp: schedule_retry_def)
  show ?case
  proof (cases i)
    case 0
    then show ?thesis using Suc.prems by (simp add: schedule_retry_def)
  next
    case (Suc j)
    have "retry_delays (Suc n) s clock ! i = min (retry_delay ?s * 2 ^ j) LEASE_RETRY_MAX_DELAY"
      using Suc.IH[of j ?s] Suc.prems(1) s \<open>i = Suc j\<close> by (simp add: split_def)
    moreover have "min (min (d * 2) m * 2 ^ j) m = min (d * 2 ^ Suc j) m" if "0 \<le> m" for d m :: int
    proof (cases "d * 2 \<le> m")
      case True
      then show ?thesis by (simp add: min_def mult.assoc)
    next
      case False
      moreover have "m * 1 \<le> m * 2 ^ j" "(d * 2) * 1 \<le> (d * 2) * 2 ^ j"
        using that False by (intro mult_left_mono; simp)+
      ultimately show ?thesis by (simp add: min_def mult.assoc)
    qed
    ultimately show ?thesis using s(3) Suc.prems(2,3) \<open>i = Suc j\<close> by (metis order_trans)
  qed
qed simp

lemma begin_renewal_not_ready:
  "fst (begin_allocation_transition st topic vp n now True base) \<noteq> Ready"
  by (simp add: begin_allocation_transition_def Let_def split_def split: option.split)

section \<open>Properties\<close>

text \<open>
  Claim C17.  A turn of the coordinator keeps hand-overs apart from admission: a partition whose
  release is in progress is not admitted.  Every release it starts is the only one for its partition,
  a tracked partition that is admitted no longer has a release in progress, and an acquisition task is
  started only for an admitted partition and only when the partition has none.
\<close>

theorem coordinator_turn_hands_over:
  assumes "coordinator_turn hasher engine now event poll members poll' co st = Some r" "coordinator_ok co st"
  shows "coordinator_ok (turn_coordinator r) (turn_state r)
    \<and> distinct (map fst (turn_releases r))
    \<and> (\<forall>key \<in> fst ` set (turn_releases r). key \<in> co_pending_releases co \<longrightarrow> event = ReleaseCompleted key)
    \<and> (\<forall>key \<in> set (partition_keys st). admitted st key \<and> \<not> admitted (turn_state r) key
         \<longrightarrow> key \<in> co_pending_releases (turn_coordinator r))
    \<and> distinct (turn_acquisitions r) \<and> (\<forall>key \<in> set (turn_acquisitions r). admitted (turn_state r) key)
    \<and> (\<forall>key \<in> set (turn_acquisitions r). key \<in> co_in_flight_acquisitions co
         \<longrightarrow> (\<exists>completion. event = AcquisitionCompleted key completion))"
proof (rule coordinator_turn_parts[OF assms(1)])
  fix changed co1 co2 st2 started co3 pending
  assume co1: "poll_membership poll (consume_event event co) = (changed, co1)"
    and mid: "refresh_assignment hasher engine members co1 st = Some (turn_releases r, co2, st2)
      \<or> turn_releases r = [] \<and> co2 = co1 \<and> st2 = st"
    and co3: "co3 = co2\<lparr>co_in_flight_acquisitions := co_in_flight_acquisitions co2
        - (case event of AcquisitionCompleted key _ \<Rightarrow> {key} | _ \<Rightarrow> {}), co_pending_acquisitions := pending\<rparr>"
    and st': "assignment (turn_state r) = assignment st2"
    and acq: "turn_acquisitions r = [] \<and> turn_coordinator r = co3
      \<or> (\<exists>in_flight. start_acquisitions now (co_pending_acquisitions co3) (co_owned co3)
          (co_in_flight_acquisitions co3) = (turn_acquisitions r, in_flight)
        \<and> turn_coordinator r = co3\<lparr>co_maintenance_refresh_needed := False, co_in_flight_acquisitions := in_flight\<rparr>)"
  note f1 = consume_and_poll_frame[OF co1]
  have ok1: "coordinator_ok co1 st" using assms(2) f1 by (auto simp: coordinator_ok_def)
  then have aok: "assignment_ok st" by (simp add: coordinator_ok_def)
  have mid_ok: "coordinator_ok co2 st2 \<and> distinct (map fst (turn_releases r))
      \<and> fst ` set (turn_releases r) \<inter> co_pending_releases co1 = {}
      \<and> co_in_flight_acquisitions co2 = co_in_flight_acquisitions co1
      \<and> (\<forall>key \<in> set (partition_keys st). admitted st key \<and> \<not> admitted st2 key \<longrightarrow> key \<in> co_pending_releases co2)"
    using mid
  proof
    assume ref: "refresh_assignment hasher engine members co1 st = Some (turn_releases r, co2, st2)"
    note spec = refresh_assignment_spec[OF ref aok]
    show ?thesis unfolding coordinator_ok_def using spec by blast
  next
    assume "turn_releases r = [] \<and> co2 = co1 \<and> st2 = st"
    then show ?thesis using ok1 by simp
  qed
  have final: "co_pending_releases (turn_coordinator r) = co_pending_releases co2"
    "co_owned (turn_coordinator r) = co_owned co2" using acq co3 by auto
  have adm: "admitted (turn_state r) = admitted st2" by (rule admitted_cong[OF st'])
  have started: "distinct (turn_acquisitions r) \<and> set (turn_acquisitions r) \<subseteq> set (co_owned co2)
      \<and> set (turn_acquisitions r) \<inter> co_in_flight_acquisitions co3 = {}"
    using acq start_acquisitions_spec co3 by fastforce
  have flight: "key \<in> set (turn_acquisitions r) \<Longrightarrow> key \<in> co_in_flight_acquisitions co
      \<Longrightarrow> \<exists>completion. event = AcquisitionCompleted key completion" for key
    using started mid_ok f1(3) co3 by (auto split: coordinator_event.splits)
  have ok': "coordinator_ok (turn_coordinator r) (turn_state r)"
    using mid_ok st' unfolding coordinator_ok_def final adm by (simp add: assignment_ok_def)
  have "\<forall>key \<in> fst ` set (turn_releases r). key \<in> co_pending_releases co \<longrightarrow> event = ReleaseCompleted key"
    using mid_ok f1(4) by (auto split: coordinator_event.splits)
  then show ?thesis
    using ok' mid_ok started flight final adm unfolding coordinator_ok_def by (auto simp: subset_iff)
qed

text \<open>A broker that holds one partition and disappears from the membership.\<close>

definition sample_holding :: WriteState where
  "sample_holding = (snd (publish_assignment (with_membership Pending) [(''t'', 0)]))
     \<lparr>topics := [(''t'', [(0, default_partition)])]\<rparr>"

definition sample_coordinator :: AssignmentCoordinator where
  "sample_coordinator = new_coordinator\<lparr>co_assignment_refresh_needed := False, co_assignment_activated := True,
     co_previously_desired := {(''t'', 0)}, co_owned := [(''t'', 0)]\<rparr>"

lemmas sample_coordinator_defs = sample_holding_def sample_coordinator_def new_coordinator_def publish_assignment_def
  with_membership_def hm_eq_def group_assignment_def saturating_add_def

lemma sample_coordinator_ok: "coordinator_ok sample_coordinator sample_holding"
  by (simp add: coordinator_ok_def assignment_ok_def admitted_iff assigned_def sample_coordinator_defs Let_def)

lemma sample_turn:
  "\<exists>r. coordinator_turn (\<lambda>_. 0) sample_engine 0 MembershipChanged WatchUnchanged (Initialized []) WatchUnchanged
     sample_coordinator sample_holding = Some r
   \<and> turn_releases r = [((''t'', 0), AssignmentLoss)] \<and> \<not> admitted (turn_state r) (''t'', 0)"
  by (simp add: coordinator_turn_def poll_membership_def consume_event_def refresh_assignment_def self_is_member_def
      membership_nodes_def sorted_partition_delta_def release_partitions_def partition_keys_def admitted_iff assigned_def
      sample_coordinator_defs Let_def)

theorem coordinator_turn_hands_over_witness:
  "\<exists>r. coordinator_turn (\<lambda>_. 0) sample_engine 0 MembershipChanged WatchUnchanged (Initialized []) WatchUnchanged
     sample_coordinator sample_holding = Some r
   \<and> turn_releases r = [((''t'', 0), AssignmentLoss)] \<and> coordinator_ok (turn_coordinator r) (turn_state r)"
  using coordinator_turn_hands_over[OF _ sample_coordinator_ok] sample_turn by fastforce

text \<open>
  Retries back off: the delays of successive retries are 250 ms, 500 ms, 1 s and then 2 s
  each, whatever the clock shows.
\<close>

theorem retry_delays_back_off:
  assumes "i < n"
  shows "retry_delays n (retry_new at) clock ! i = min (milliseconds 250 * 2 ^ i) (seconds 2)"
  using retry_delays_nth[OF assms, of "retry_new at" clock]
  by (simp add: retry_new_def LEASE_RETRY_INITIAL_DELAY_def LEASE_RETRY_MAX_DELAY_def milliseconds_def seconds_def)

theorem retry_delays_back_off_witness:
  "retry_delays 5 (retry_new 0) (\<lambda>_. 0) ! 3 = seconds 2"
  using retry_delays_back_off[of 3 5 0 "\<lambda>_. 0"] by (simp add: milliseconds_def seconds_def)

text \<open>
  Lease maintenance never reaches its \<open>unreachable!\<close>: a renewal always claims a transition,
  waits for one, or finds the partition not assigned.  It never reports a draining partition.
\<close>

theorem begin_maintenance_never_unreachable:
  "\<exists>d. fst (begin_maintenance st key now base) = Some d
     \<and> (d = NothingToDo \<longleftrightarrow> \<not> admitted st key)
     \<and> (d = WaitForTransition \<longleftrightarrow> admitted st key
          \<and> allocation_in_flight (partition_or_default st (fst key) (snd key)))"
proof (cases "assignment_generation_for_partition st (fst key) (snd key)")
  case None
  then show ?thesis by (simp add: begin_maintenance_def begin_allocation_transition_def admitted_def)
next
  case (Some generation)
  then show ?thesis
    by (cases "allocation_in_flight (partition_or_default st (fst key) (snd key))")
      (simp_all add: begin_maintenance_def begin_allocation_transition_def admitted_def partition_state_mut_eq
        Let_def split_def)
qed

end
