(* ===== verification/Write_Path.thy ===== *)
theory Write_Path
  imports Flush_Rounds Lease_Assignment
begin

text \<open>
  The write path of a broker as a state machine.  Its tasks (produce requests, lease maintenance, the
  flush scheduler, running flush plans, releases) share the write state under a lock and the lease
  store; a step is one critical section or one call to the store, and the steps of all tasks
  interleave freely.  A task may be cancelled between its steps.  The history of accepted batches
  and of answered requests is recorded.
\<close>

section \<open>The machine\<close>

datatype claim_phase =
    Asked
  | ForegroundDone claim_result
  | MaintenanceDone "LeaseStoreError + LeaseAcquireAndReserveOutcome"

text \<open>A transition in flight, held by a request or by lease maintenance.\<close>

record claim =
  claim_key :: PartitionKey
  claim_work :: AllocationTransitionWork
  claim_renews :: bool
  claim_phase_of :: claim_phase

record broker =
  br_state :: WriteState
  br_claims :: "claim list"
  br_plans :: "FlushPlan list"
  br_accepted :: "tagged list"
  br_answers :: "sent list"

definition accepted_by ::
    "BufferAttempt \<Rightarrow> WriteState \<Rightarrow> string \<Rightarrow> VirtualPartitionId \<Rightarrow> Record list \<Rightarrow> BatchSummary
     \<Rightarrow> FlushCompletion \<Rightarrow> tagged list" where
  "accepted_by outcome st topic vp records summary c =
     (case outcome of
        Buffered range' _ \<Rightarrow>
          [(topic, vp, \<lparr>bb_records = records, bb_summary = summary, bb_seq_range = range',
             bb_acceptance_fence = lease_fence (partition_or_default st topic vp), bb_completion = Some c\<rparr>)]
      | _ \<Rightarrow> [])"

definition new_claims :: "PartitionKey \<Rightarrow> bool \<Rightarrow> AllocationTransitionDecision \<Rightarrow> claim list" where
  "new_claims key renews d =
     (case d of
        Claimed work \<Rightarrow> [\<lparr>claim_key = key, claim_work = work, claim_renews = renews, claim_phase_of = Asked\<rparr>]
      | _ \<Rightarrow> [])"

inductive broker_step ::
    "date_range \<Rightarrow> WriteEngineImpl \<Rightarrow> LeaseStore \<times> broker \<Rightarrow> LeaseStore \<times> broker \<Rightarrow> bool"
  for dates engine where
  produce:
    "\<lbrakk>validate_request (engine_topics engine) overloaded request = Inr summary;
      buffer_attempt (br_state b) (request_topic request) (request_virtual_partition_id request)
        (request_records request) summary flush_config c now = (outcome, st')\<rbrakk>
     \<Longrightarrow> broker_step dates engine (store, b)
          (store, b\<lparr>br_state := st', br_accepted := br_accepted b
             @ accepted_by outcome (br_state b) (request_topic request) (request_virtual_partition_id request)
                 (request_records request) summary c\<rparr>)"
| claim:
    "\<lbrakk>hm_get (engine_topics engine) (fst key) \<noteq> None;
      begin_allocation_transition (br_state b) (fst key) (snd key) n now renews
        (wc_reservation_size (engine_config engine)) = (d, st')\<rbrakk>
     \<Longrightarrow> broker_step dates engine (store, b)
          (store, b\<lparr>br_state := st', br_claims := br_claims b @ new_claims key renews d\<rparr>)"
| call_foreground:
    "\<lbrakk>br_claims b = cs @ cl # ds; claim_phase_of cl = Asked; \<not> claim_renews cl;
      claim_calls dates engine store (fst (claim_key cl)) (snd (claim_key cl)) now (claim_work cl) = (result, store')\<rbrakk>
     \<Longrightarrow> broker_step dates engine (store, b)
          (store', b\<lparr>br_claims := cs @ cl\<lparr>claim_phase_of := ForegroundDone result\<rparr> # ds\<rparr>)"
| call_maintenance:
    "\<lbrakk>br_claims b = cs @ cl # ds; claim_phase_of cl = Asked; claim_renews cl;
      maintenance_call dates engine store (claim_key cl) now (claim_work cl) = (outcome, store')\<rbrakk>
     \<Longrightarrow> broker_step dates engine (store, b)
          (store', b\<lparr>br_claims := cs @ cl\<lparr>claim_phase_of := MaintenanceDone outcome\<rparr> # ds\<rparr>)"
| finish_foreground:
    "\<lbrakk>br_claims b = cs @ cl # ds; claim_phase_of cl = ForegroundDone result;
      finish_claim (br_state b) (claim_work cl) result = (error, msgs, st')\<rbrakk>
     \<Longrightarrow> broker_step dates engine (store, b)
          (store, b\<lparr>br_state := st', br_claims := cs @ ds, br_answers := br_answers b @ msgs\<rparr>)"
| finish_maintenance:
    "\<lbrakk>br_claims b = cs @ cl # ds; claim_phase_of cl = MaintenanceDone outcome;
      complete_maintenance (br_state b) pending (claim_key cl) now (claim_work cl) outcome = (pending', msgs, st')\<rbrakk>
     \<Longrightarrow> broker_step dates engine (store, b)
          (store, b\<lparr>br_state := st', br_claims := cs @ ds, br_answers := br_answers b @ msgs\<rparr>)"
| cancel:
    "\<lbrakk>br_claims b = cs @ cl # ds;
      drop_transition (br_state b) (work_transition (claim_work cl)) = (finished, tr, msgs, st')\<rbrakk>
     \<Longrightarrow> broker_step dates engine (store, b)
          (store, b\<lparr>br_state := st', br_claims := cs @ ds, br_answers := br_answers b @ msgs\<rparr>)"
| plan:
    "collect_next_flush_plan (br_state b) now (engine_config engine) flush_config feature_flags
        (engine_topics engine) = Some (plan, msgs, st')
     \<Longrightarrow> broker_step dates engine (store, b)
          (store, b\<lparr>br_state := st', br_plans := br_plans b @ (case plan of None \<Rightarrow> [] | Some pl \<Rightarrow> [pl]),
             br_answers := br_answers b @ msgs\<rparr>)"
| complete:
    "\<lbrakk>br_plans b = ps @ pl # qs; flush_plan_and_notify (br_state b) pl result = (feedback, msgs, st')\<rbrakk>
     \<Longrightarrow> broker_step dates engine (store, b)
          (store, b\<lparr>br_state := st', br_plans := ps @ qs, br_answers := br_answers b @ msgs\<rparr>)"
| publish:
    "publish_assignment ((br_state b)\<lparr>membership := members\<rparr>) parts = (generation', st')
     \<Longrightarrow> broker_step dates engine (store, b) (store, b\<lparr>br_state := st'\<rparr>)"
| drain:
    "start_drain (br_state b) key now interval = (first_heartbeat, st')
     \<Longrightarrow> broker_step dates engine (store, b) (store, b\<lparr>br_state := st'\<rparr>)"
| shutdown:
    "broker_step dates engine (store, b) (store, b\<lparr>br_state := begin_shutdown_drain (br_state b)\<rparr>)"
| heartbeat:
    "\<lbrakk>heartbeat_lease dates store (partition_lease_key (fst key) (snd key)) (engine_holder_id engine)
        (engine_lease_session_id engine) now (wc_lease_duration (engine_config engine))
        (drain_progress (br_state b) key) = (outcome, store');
      drain_heartbeat (br_state b) key now interval retry outcome = (held, retry', st')\<rbrakk>
     \<Longrightarrow> broker_step dates engine (store, b) (store', b\<lparr>br_state := st'\<rparr>)"
| release:
    "\<lbrakk>release_lease store (partition_lease_key (fst key) (snd key)) (engine_holder_id engine)
        (engine_lease_session_id engine) now (drain_progress (br_state b) key) = (outcome, store');
      release_attempt (br_state b) key retry now outcome = (released, retry', st')\<rbrakk>
     \<Longrightarrow> broker_step dates engine (store, b) (store', b\<lparr>br_state := st'\<rparr>)"

section \<open>Effects of the operations\<close>

text \<open>
  Every operation changes at most one partition, or all of them in the same harmless way.  The
  facts collected here say what happens to the buffered batches, to the well-formedness of the state
  and to single partitions.
\<close>

subsection \<open>Single partitions\<close>

lemma buffered_put_default:
  "buffered (put_partition st topic vp p') + tag topic vp (batches (buffer (partition_or_default st topic vp)))
     = buffered st + tag topic vp (batches (buffer p'))"
  using partition_total_put[of "\<lambda>topic vp p. tag topic vp (batches (buffer p))" st topic vp p']
  by (simp add: buffered_def partition_or_default_def default_partition_def split: option.splits)

lemma buffered_put_same:
  "batches (buffer p') = batches (buffer (partition_or_default st topic vp)) \<Longrightarrow>
     buffered (put_partition st topic vp p') = buffered st"
  using buffered_put_default[of st topic vp p'] by simp

lemma topics_configured_put:
  assumes "topics_configured infos st" "hm_get infos topic \<noteq> None"
  shows "topics_configured infos (put_partition st topic vp p)"
  using assms by (auto simp: topics_configured_def)

lemma topics_configured_present:
  "topics_configured infos st \<Longrightarrow> partition_state st topic vp = Some p \<Longrightarrow> hm_get infos topic \<noteq> None"
  by (auto simp: topics_configured_def)

lemma topics_configured_cong:
  "partition_state st' = partition_state st \<Longrightarrow> topics_configured infos st' = topics_configured infos st"
  unfolding topics_configured_def by (drule arg_cong[where f = "\<lambda>f. \<forall>t v. f t v \<noteq> None \<longrightarrow> hm_get infos t \<noteq> None"])

subsection \<open>Removing a partition\<close>

lemma write_ok_remove:
  assumes "write_ok st"
  shows "write_ok (remove_partition st topic vp)"
proof (cases "hm_get (topics st) topic")
  case None
  then show ?thesis using assms by (simp add: remove_partition_def)
next
  case (Some parts)
  have parts: "hm_ok parts" using assms map_of_SomeD[OF Some] by (auto simp: write_ok_def)
  have sub: "set (hm_remove topic (topics st)) \<subseteq> set (topics st)" by (auto simp: AList.delete_eq)
  show ?thesis
  proof (cases "hm_remove vp parts = []")
    case True
    then show ?thesis using assms sub Some by (auto simp: remove_partition_def write_ok_def hm_ok_remove)
  next
    case False
    have "set (hm_insert topic (hm_remove vp parts) (topics st)) \<subseteq> insert (topic, hm_remove vp parts) (set (topics st))"
      by (rule hm_insert_subset)
    then show ?thesis using assms Some False hm_ok_remove[OF parts]
      by (auto simp: remove_partition_def write_ok_def hm_ok_insert Let_def)
  qed
qed

lemma topics_configured_remove:
  "topics_configured infos st \<Longrightarrow> topics_configured infos (remove_partition st topic vp)"
  unfolding topics_configured_def partition_state_remove by (simp split: if_splits) blast

lemma buffered_remove_empty:
  assumes "write_ok st" "partition_state st topic vp = Some p" "batches (buffer p) = []"
  shows "buffered (remove_partition st topic vp) = buffered st"
proof -
  let ?f = "\<lambda>topic vp p. tag topic vp (batches (buffer p))"
  obtain parts where parts: "hm_get (topics st) topic = Some parts" "hm_get parts vp = Some p"
    using assms(2) by (auto simp: partition_state_def split: option.splits)
  have ok: "hm_ok (topics st)" "hm_ok parts" using assms(1) map_of_SomeD[OF parts(1)] by (auto simp: write_ok_def)
  have inner: "hm_sum (?f topic) (hm_remove vp parts) = hm_sum (?f topic) parts"
    using hm_sum_remove[OF ok(2), of "?f topic" vp] parts(2) assms(3) by simp
  let ?g = "\<lambda>topic parts. hm_sum (?f topic) parts"
  have outer: "hm_sum ?g (hm_remove topic (topics st)) + hm_sum (?f topic) parts = hm_sum ?g (topics st)"
    using hm_sum_remove[OF ok(1), of ?g topic] parts(1) by simp
  have upd: "hm_sum ?g (hm_insert topic (hm_remove vp parts) (topics st)) + hm_sum (?f topic) parts
      = hm_sum ?g (topics st) + hm_sum (?f topic) (hm_remove vp parts)"
    using hm_sum_insert[of ?g topic "hm_remove vp parts" "topics st"] parts(1) by simp
  show ?thesis
    using inner outer upd parts(1)
    by (auto simp: buffered_def partition_total_def remove_partition_def Let_def)
qed

lemma clear_effect:
  assumes "write_ok st" "topics_configured infos st"
  shows "write_ok (clear_terminally_released_partition st topic vp)"
    "topics_configured infos (clear_terminally_released_partition st topic vp)"
    "buffered (clear_terminally_released_partition st topic vp) = buffered st"
proof -
  define st' where "st' = clear_terminally_released_partition st topic vp"
  have "write_ok st' \<and> topics_configured infos st' \<and> buffered st' = buffered st"
  proof (cases "partition_state st topic vp")
    case None
    then show ?thesis using assms by (simp add: st'_def clear_terminally_released_partition_def)
  next
    case (Some p)
    let ?p = "reset_sequence_allocation (p\<lparr>ps_lease_expiration_at := None, lease_fence := None\<rparr>)"
    let ?st = "put_partition st topic vp ?p"
    have ok: "write_ok ?st" "topics_configured infos ?st" "buffered ?st = buffered st"
      using assms Some topics_configured_present[OF assms(2) Some]
      by (auto intro!: write_ok_put topics_configured_put buffered_put_same simp: partition_or_default_def)
    have "st' = ?st \<or> st' = remove_partition ?st topic vp \<and> is_drained ?p"
      using Some by (simp add: st'_def clear_terminally_released_partition_def Let_def)
    then show ?thesis
    proof
      assume 2: "st' = remove_partition ?st topic vp \<and> is_drained ?p"
      then have "buffered st' = buffered ?st"
        by (auto intro!: buffered_remove_empty[OF ok(1)] simp: is_drained_def)
      with 2 ok show ?thesis by (simp add: write_ok_remove topics_configured_remove)
    qed (use ok in simp)
  qed
  then show "write_ok (clear_terminally_released_partition st topic vp)"
    "topics_configured infos (clear_terminally_released_partition st topic vp)"
    "buffered (clear_terminally_released_partition st topic vp) = buffered st"
    by (simp_all add: st'_def)
qed

subsection \<open>Requests and transitions\<close>

text \<open>The well-formed write states of a broker.\<close>

definition state_ok :: "(string, TopicInfo) hmap \<Rightarrow> WriteState \<Rightarrow> bool" where
  "state_ok infos st \<longleftrightarrow> write_ok st \<and> topics_configured infos st"

lemma state_ok_put:
  "state_ok infos st \<Longrightarrow> hm_get infos topic \<noteq> None \<Longrightarrow> state_ok infos (put_partition st topic vp p)"
  by (simp add: state_ok_def write_ok_put topics_configured_put)

lemma state_ok_present:
  "state_ok infos st \<Longrightarrow> partition_state st topic vp = Some p \<Longrightarrow> hm_get infos topic \<noteq> None"
  unfolding state_ok_def using topics_configured_present by blast

lemma attempt_effect:
  assumes "buffer_attempt st topic vp records summary flush_config c now = (outcome, st')"
    "state_ok infos st" "hm_get infos topic \<noteq> None"
  shows "state_ok infos st'"
    and "buffered st' = buffered st + mset (accepted_by outcome st topic vp records summary c)"
proof -
  let ?p = "partition_or_default st topic vp"
  have put: "state_ok infos (put_partition st topic vp p)" for p by (rule state_ok_put[OF assms(2,3)])
  have same: "buffered (put_partition st topic vp ?p) = buffered st" by (rule buffered_put_same) simp
  have "state_ok infos st' \<and> buffered st' = buffered st + mset (accepted_by outcome st topic vp records summary c)"
  proof (rule buffer_attempt_cases[OF assms(1)], goal_cases)
    case (4 range' a notify)
    let ?q = "buffer_batch (?p\<lparr>seq_allocator := a\<rparr>) records summary range' c now"
    have "tag topic vp (batches (buffer ?q)) = tag topic vp (batches (buffer ?p))
        + mset (accepted_by outcome st topic vp records summary c)"
      by (simp add: 4(1) buffer_batch_def accepted_by_def tag_def)
    then have "buffered st' = buffered st + mset (accepted_by outcome st topic vp records summary c)"
      using buffered_put_default[of st topic vp ?q] by (simp add: 4(5) ac_simps)
    with put 4(5) show ?case by simp
  qed (use assms(2) put same in \<open>simp_all add: accepted_by_def\<close>)
  then show "state_ok infos st'"
    "buffered st' = buffered st + mset (accepted_by outcome st topic vp records summary c)" by simp_all
qed

lemma begin_effect:
  assumes "begin_allocation_transition st topic vp n now renews base = (d, st')"
    "state_ok infos st" "hm_get infos topic \<noteq> None"
  shows "state_ok infos st'" and "buffered st' = buffered st"
proof -
  have "state_ok infos st' \<and> buffered st' = buffered st"
  proof (rule begin_cases[OF assms(1)], goal_cases)
    case (2 generation p')
    have "st' = put_partition st topic vp p'" using 2(2) by auto
    moreover have "batches (buffer p') = batches (buffer (partition_or_default st topic vp))"
      using 2(3) by (simp add: same_data_def)
    ultimately show ?case using state_ok_put[OF assms(2,3)] buffered_put_same by simp
  qed (use assms in simp)
  then show "state_ok infos st'" "buffered st' = buffered st" by simp_all
qed

text \<open>Finishing a transition may discard a buffer; the discarded requests are told.\<close>

lemma lost_answers_tag: "lost_answers (tag topic vp bs) = mset (map (\<lambda>c. (c, Some LeaseFenceLost)) (batch_completions bs))"
  by (simp add: fence_lost_def)

lemma finish_effect:
  assumes "finish_inner st tr update lease r n = (result, tr', msgs, st')" "state_ok infos st"
  shows "state_ok infos st'"
    and "\<exists>dropped. buffered st = buffered st' + dropped \<and> mset msgs = lost_answers dropped"
proof -
  let ?t = "at_topic tr" and ?v = "at_virtual_partition_id tr"
  have "state_ok infos st' \<and> (\<exists>dropped. buffered st = buffered st' + dropped \<and> mset msgs = lost_answers dropped)"
  proof (rule finish_inner_cases[OF assms(1)], goal_cases)
    case (3 p)
    then have "buffered st' = buffered st"
      by (auto intro!: buffered_put_same simp: partition_or_default_def)
    with 3 assms(2) state_ok_present[OF assms(2) 3(2)] show ?case
      by (auto intro!: state_ok_put exI[of _ "{#}"])
  next
    case (4 p p' stale)
    obtain p1 where p1: "finish_lease p update lease = (stale, p1)" "buffer p' = buffer p1"
      by (rule finish_current_effect[OF 4(4)])
    let ?q = "p'\<lparr>allocation_in_flight := False, allocation_started_at := None\<rparr>"
    have put: "buffered st' + tag ?t ?v (batches (buffer p)) = buffered st + tag ?t ?v (batches (buffer p'))"
      using buffered_put[OF 4(2), of ?q] by (simp add: 4(8))
    have "stale = [] \<and> buffer p' = buffer p \<or> stale = batch_completions (batches (buffer p)) \<and> batches (buffer p') = []"
      using finish_lease_cases[OF p1(1)] p1(2) by auto
    then have "\<exists>dropped. buffered st = buffered st' + dropped \<and> mset msgs = lost_answers dropped"
    proof
      assume "stale = [] \<and> buffer p' = buffer p"
      then show ?thesis using put 4(7) by (intro exI[of _ "{#}"]) simp
    next
      assume "stale = batch_completions (batches (buffer p)) \<and> batches (buffer p') = []"
      then show ?thesis using put 4(7)
        by (intro exI[of _ "tag ?t ?v (batches (buffer p))"]) (simp add: fence_lost_def)
    qed
    with 4 assms(2) state_ok_present[OF assms(2) 4(2)] show ?case by (auto intro!: state_ok_put)
  qed (use assms(2) in \<open>auto intro: exI[of _ "{#}"]\<close>)
  then show "state_ok infos st'"
    "\<exists>dropped. buffered st = buffered st' + dropped \<and> mset msgs = lost_answers dropped" by blast+
qed

lemma update_if_present_effect:
  assumes "state_ok infos st" "\<And>p. batches (buffer (f p)) = batches (buffer p)"
  shows "state_ok infos (update_if_present st key f)" "buffered (update_if_present st key f) = buffered st"
proof -
  have "state_ok infos (update_if_present st key f) \<and> buffered (update_if_present st key f) = buffered st"
  proof (cases "partition_state st (fst key) (snd key)")
    case (Some p)
    then show ?thesis
      using assms state_ok_present[OF assms(1) Some]
      by (auto simp: update_if_present_def partition_or_default_def intro!: state_ok_put buffered_put_same)
  qed (use assms in \<open>simp add: update_if_present_def\<close>)
  then show "state_ok infos (update_if_present st key f)" "buffered (update_if_present st key f) = buffered st"
    by simp_all
qed

text \<open>The callers of \<open>finish_inner\<close>, each with what it does besides.\<close>

lemma finish_claim_cases:
  assumes "finish_claim st work result = (error, msgs, st')"
  obtains update lease r res tr' where
    "finish_inner st (work_transition work) update lease r None = (res, tr', msgs, st')"
    "result = Inr (lease, r) \<and> update = (case lease of None \<Rightarrow> PreserveExpiration
        | Some l \<Rightarrow> SetExpiration (Some (lease_expires_at l)))
     \<or> (\<exists>e. result = Inl e) \<and> update = PreserveExpiration \<and> lease = None \<and> r = None"
proof (cases result)
  case (Inl e)
  obtain res tr' ms st'' where "finish_inner st (work_transition work) PreserveExpiration None None None = (res, tr', ms, st'')"
    by (metis prod_cases4)
  with assms Inl show thesis by (intro that[of PreserveExpiration None None res tr']) (auto simp: finish_claim_def finish_def)
next
  case (Inr lr)
  obtain lease r where lr: "lr = (lease, r)" by force
  let ?update = "case lease of None \<Rightarrow> PreserveExpiration | Some l \<Rightarrow> SetExpiration (Some (lease_expires_at l))"
  obtain res tr' ms st'' where "finish_inner st (work_transition work) ?update lease r None = (res, tr', ms, st'')"
    by (metis prod_cases4)
  with assms Inr lr show thesis by (intro that[of ?update lease r res tr']) (auto simp: finish_claim_def finish_def)
qed

lemma complete_maintenance_cases:
  assumes "complete_maintenance st pending key now work outcome = (pending', msgs, st')"
  obtains update lease r n res tr' st1 where
    "finish_inner st (work_transition work) update lease r n = (res, tr', msgs, st1)"
    "st' = st1 \<or> st' = update_if_present st1 key (\<lambda>p. p\<lparr>draining := False\<rparr>) \<and> lease \<noteq> None \<and> res = Applied"
    "(\<exists>l. outcome = Inr (Acquired l r) \<and> lease = Some l \<and> update = SetExpiration (Some (lease_expires_at l)))
     \<or> (\<nexists>l r. outcome = Inr (Acquired l r)) \<and> lease = None \<and> r = None
       \<and> (update = SetExpiration None \<or> update = PreserveExpiration)"
proof -
  have "\<exists>update lease r n res tr' st1.
    finish_inner st (work_transition work) update lease r n = (res, tr', msgs, st1)
    \<and> (st' = st1 \<or> st' = update_if_present st1 key (\<lambda>p. p\<lparr>draining := False\<rparr>) \<and> lease \<noteq> None \<and> res = Applied)
    \<and> ((\<exists>l. outcome = Inr (Acquired l r) \<and> lease = Some l \<and> update = SetExpiration (Some (lease_expires_at l)))
       \<or> (\<nexists>l r. outcome = Inr (Acquired l r)) \<and> lease = None \<and> r = None
         \<and> (update = SetExpiration None \<or> update = PreserveExpiration))"
  proof (cases outcome)
    case (Inl e)
    with assms show ?thesis
      by (intro exI[of _ PreserveExpiration] exI[of _ None]) (auto simp: complete_maintenance_def finish_def split: prod.splits)
  next
    case (Inr out)
    show ?thesis
    proof (cases out)
      case (Acquired l r)
      with assms Inr show ?thesis
        by (intro exI[of _ "SetExpiration (Some (lease_expires_at l))"] exI[of _ "Some l"] exI[of _ r])
          (auto simp: complete_maintenance_def finish_lease_maintenance_def split: prod.splits if_splits)
    next
      case (HeldByOther l)
      with assms Inr show ?thesis
        by (intro exI[of _ "SetExpiration None"] exI[of _ None])
          (auto simp: complete_maintenance_def finish_def split: prod.splits)
    qed
  qed
  then show thesis using that by blast
qed

lemma finish_claim_effect:
  assumes "finish_claim st work result = (error, msgs, st')" "state_ok infos st"
  shows "state_ok infos st'"
    and "\<exists>dropped. buffered st = buffered st' + dropped \<and> mset msgs = lost_answers dropped"
proof -
  obtain update lease r res tr' where f: "finish_inner st (work_transition work) update lease r None = (res, tr', msgs, st')"
    by (rule finish_claim_cases[OF assms(1)])
  show "state_ok infos st'" by (rule finish_effect(1)[OF f assms(2)])
  show "\<exists>dropped. buffered st = buffered st' + dropped \<and> mset msgs = lost_answers dropped"
    by (rule finish_effect(2)[OF f assms(2)])
qed

lemma complete_maintenance_effect:
  assumes "complete_maintenance st pending key now work outcome = (pending', msgs, st')" "state_ok infos st"
  shows "state_ok infos st'"
    and "\<exists>dropped. buffered st = buffered st' + dropped \<and> mset msgs = lost_answers dropped"
proof -
  have "state_ok infos st' \<and> (\<exists>dropped. buffered st = buffered st' + dropped \<and> mset msgs = lost_answers dropped)"
  proof (rule complete_maintenance_cases[OF assms(1)])
    fix update lease r n res tr' st1
    assume f: "finish_inner st (work_transition work) update lease r n = (res, tr', msgs, st1)"
      and "st' = st1 \<or> st' = update_if_present st1 key (\<lambda>p. p\<lparr>draining := False\<rparr>) \<and> lease \<noteq> None \<and> res = Applied"
    moreover note finish_effect[OF f assms(2)]
    moreover from this(1) have "state_ok infos (update_if_present st1 key (\<lambda>p. p\<lparr>draining := False\<rparr>))"
      "buffered (update_if_present st1 key (\<lambda>p. p\<lparr>draining := False\<rparr>)) = buffered st1"
      by (simp_all add: update_if_present_effect)
    ultimately show ?thesis by auto
  qed
  then show "state_ok infos st'"
    "\<exists>dropped. buffered st = buffered st' + dropped \<and> mset msgs = lost_answers dropped" by blast+
qed

subsection \<open>Flush plans\<close>

lemma drains_configured:
  assumes "drains st st'" "topics_configured infos st"
  shows "topics_configured infos st'"
  unfolding topics_configured_def
proof (intro allI impI)
  fix topic vp
  assume "partition_state st' topic vp \<noteq> None"
  then obtain p where "partition_state st topic vp = Some p" using drains_partition[OF assms(1)] by blast
  then show "hm_get infos topic \<noteq> None" by (rule topics_configured_present[OF assms(2)])
qed

lemma collect_effect:
  assumes "collect_next_flush_plan st now config flush_config feature_flags infos = Some (plan, msgs, st')"
    "state_ok infos st"
  shows "state_ok infos st'"
    and "\<exists>dropped. buffered st = buffered st' + planned_batches plan + dropped \<and> mset msgs = lost_answers dropped"
proof -
  have ok: "write_ok st" "topics_configured infos st" using assms(2) by (simp_all add: state_ok_def)
  note spec = collect_result[OF ok assms(1)]
  show "state_ok infos st'"
    using drains_configured[OF spec(2) ok(2)] spec(2) ok(1) unfolding state_ok_def drains_def by blast
  show "\<exists>dropped. buffered st = buffered st' + planned_batches plan + dropped \<and> mset msgs = lost_answers dropped"
    using spec(1) by blast
qed

lemma mark_one_effect:
  assumes "state_ok infos st"
  shows "state_ok infos (mark_one_complete results fallback c st)
    \<and> buffered (mark_one_complete results fallback c st) = buffered st"
proof -
  let ?st1 = "st\<lparr>channels := (channels st)[fpc_state_tx c := completion_state
      (partition_result_error results (fpc_topic c) (fpc_virtual_partition_id c) fallback)]\<rparr>"
  have ok: "state_ok infos ?st1" using assms by (simp add: state_ok_def topics_configured_def)
  show ?thesis
  proof (cases "partition_state st (fpc_topic c) (fpc_virtual_partition_id c)")
    case None
    then show ?thesis using ok by (simp add: mark_one_complete_def Let_def)
  next
    case (Some p)
    obtain q where q: "mark_one_complete results fallback c st
        = put_partition ?st1 (fpc_topic c) (fpc_virtual_partition_id c) q" "buffer q = buffer p"
      using Some by (auto simp: mark_one_complete_def Let_def)
    have "partition_or_default ?st1 (fpc_topic c) (fpc_virtual_partition_id c) = p"
      using Some by (simp add: partition_or_default_def)
    then have "buffered (mark_one_complete results fallback c st) = buffered ?st1"
      unfolding q(1) by (intro buffered_put_same) (simp add: q(2))
    then show ?thesis using q(1) ok state_ok_put state_ok_present[OF assms Some] by simp
  qed
qed

lemma notify_effect:
  assumes "flush_plan_and_notify st plan result = (feedback, msgs, st')" "state_ok infos st"
  shows "state_ok infos st'" "buffered st' = buffered st"
    "mset (map fst msgs) = tagged_completions (planned (plan_topics plan))"
proof -
  have fold: "state_ok infos (fold (mark_one_complete results fallback) cs st)
      \<and> buffered (fold (mark_one_complete results fallback) cs st) = buffered st" for results fallback cs
    using assms(2) by (induction cs arbitrary: st) (simp_all add: mark_one_effect)
  then show "state_ok infos st'" "buffered st' = buffered st"
    using assms(1) by (auto simp: flush_plan_and_notify_def mark_flush_complete_def Let_def)
  have "map fst msgs = map (\<lambda>(_, _, c). c) (waiting_requests plan)"
    using assms(1) by (auto simp: flush_plan_and_notify_def Let_def)
  then show "mset (map fst msgs) = tagged_completions (planned (plan_topics plan))"
    by (simp only: waiting_requests_completions)
qed

subsection \<open>Assignment, drain and release\<close>

lemma state_ok_frame:
  "topics st' = topics st \<Longrightarrow> state_ok infos st \<Longrightarrow> state_ok infos st' \<and> buffered st' = buffered st"
  by (simp add: state_ok_def write_ok_def topics_configured_def partition_state_def buffered_def partition_total_def)

lemma publish_effect:
  assumes "publish_assignment (st\<lparr>membership := members\<rparr>) parts = (g, st')" "state_ok infos st"
  shows "state_ok infos st'" "buffered st' = buffered st"
proof -
  have "topics st' = topics st" using assms(1) by (auto simp: publish_assignment_def Let_def)
  from state_ok_frame[OF this assms(2)] show "state_ok infos st'" "buffered st' = buffered st" by simp_all
qed

lemma start_drain_eq:
  "snd (start_drain st key now interval) = update_if_present st key (\<lambda>p. p\<lparr>draining := True\<rparr>)"
  by (simp add: start_drain_def update_if_present_def split: option.splits)

lemma shutdown_partition [simp]:
  "partition_state (begin_shutdown_drain st) topic vp
     = map_option (\<lambda>p. p\<lparr>draining := True\<rparr>) (partition_state st topic vp)"
proof -
  have inner: "hm_get (map (\<lambda>(k, v). (k, f v)) m) k = map_option f (hm_get m k)" for f :: "'x \<Rightarrow> 'y" and m :: "('k, 'x) hmap" and k
    by (induction m) auto
  show ?thesis
    by (simp add: begin_shutdown_drain_def partition_state_def inner split: option.splits)
qed

lemma shutdown_effect:
  assumes "state_ok infos st"
  shows "state_ok infos (begin_shutdown_drain st)" "buffered (begin_shutdown_drain st) = buffered st"
proof -
  have "write_ok (begin_shutdown_drain st)"
    using assms by (auto simp: state_ok_def write_ok_def begin_shutdown_drain_def split_def comp_def)
  moreover have "topics_configured infos (begin_shutdown_drain st)"
    using assms by (simp add: state_ok_def topics_configured_def)
  ultimately show "state_ok infos (begin_shutdown_drain st)" by (simp add: state_ok_def)
  have sum: "hm_sum g (map (\<lambda>(k, v). (k, f v)) m) = hm_sum (\<lambda>k v. g k (f v)) m"
    for f :: "'x \<Rightarrow> 'y" and g :: "'k \<Rightarrow> 'y \<Rightarrow> tagged multiset" and m :: "('k, 'x) hmap"
    by (induction m) auto
  show "buffered (begin_shutdown_drain st) = buffered st"
    by (simp add: buffered_def partition_total_def begin_shutdown_drain_def sum)
qed

lemma heartbeat_effect:
  assumes "drain_heartbeat st key now interval retry outcome = (held, retry', st')" "state_ok infos st"
  shows "state_ok infos st'" "buffered st' = buffered st"
proof -
  have "st' = st \<or> (\<exists>t. st' = update_if_present st key (\<lambda>p. p\<lparr>ps_lease_expiration_at := t\<rparr>))"
    using assms(1) by (auto simp: drain_heartbeat_def split: sum.splits LeaseHeartbeatOutcome.splits)
  moreover have "state_ok infos (update_if_present st key (\<lambda>p. p\<lparr>ps_lease_expiration_at := t\<rparr>))"
    "buffered (update_if_present st key (\<lambda>p. p\<lparr>ps_lease_expiration_at := t\<rparr>)) = buffered st" for t
    by (rule update_if_present_effect[OF assms(2)]; simp)+
  ultimately show "state_ok infos st'" "buffered st' = buffered st" using assms(2) by auto
qed

lemma release_effect:
  assumes "release_attempt st key retry now outcome = (released, retry', st')" "state_ok infos st"
  shows "state_ok infos st'" "buffered st' = buffered st"
proof -
  have "write_ok st" "topics_configured infos st" using assms(2) by (simp_all add: state_ok_def)
  note clear = clear_effect[OF this, of "fst key" "snd key"]
  show "state_ok infos st'" "buffered st' = buffered st"
    using assms clear by (auto simp: release_attempt_def state_ok_def split: sum.splits)
qed

section \<open>Invariants of a broker\<close>

inductive_cases broker_stepE: "broker_step dates engine (store, b) (store', b')"

lemmas broker_step_cases = broker_stepE[consumes 1, case_names produce claim call_foreground call_maintenance
  finish_foreground finish_maintenance cancel plan complete publish drain shutdown heartbeat release]

text \<open>A request is in one place: in a buffer, in a running plan, or answered.\<close>

definition in_plans :: "FlushPlan list \<Rightarrow> FlushCompletion multiset" where
  "in_plans plans = (\<Sum>pl\<leftarrow>plans. tagged_completions (planned (plan_topics pl)))"

definition requests_accounted :: "broker \<Rightarrow> bool" where
  "requests_accounted b \<longleftrightarrow>
     tagged_completions (mset (br_accepted b))
       = tagged_completions (buffered (br_state b)) + in_plans (br_plans b) + mset (map fst (br_answers b))"

lemma in_plans_simps [simp]:
  "in_plans [] = {#}" "in_plans (pl # ps) = tagged_completions (planned (plan_topics pl)) + in_plans ps"
  "in_plans (ps @ qs) = in_plans ps + in_plans qs"
  by (simp_all add: in_plans_def)

lemma in_plans_option: "in_plans (case plan of None \<Rightarrow> [] | Some pl \<Rightarrow> [pl]) = tagged_completions (planned_batches plan)"
  by (cases plan) (simp_all add: planned_batches_def)

definition broker_ok :: "WriteEngineImpl \<Rightarrow> broker \<Rightarrow> bool" where
  "broker_ok engine b \<longleftrightarrow> state_ok (engine_topics engine) (br_state b) \<and> requests_accounted b"

lemma validated_topic:
  "validate_request infos overloaded request = Inr summary \<Longrightarrow> hm_get infos (request_topic request) \<noteq> None"
  by (auto simp: validate_request_def split: option.splits)

text \<open>What a step has to show: the requests it moves are the requests it answers.\<close>

lemma broker_ok_step:
  assumes "broker_ok engine b" "state_ok (engine_topics engine) (br_state b')"
    "br_accepted b' = br_accepted b @ added" "br_answers b' = br_answers b @ msgs"
    "tagged_completions (buffered (br_state b)) + in_plans (br_plans b) + tagged_completions (mset added)
     = tagged_completions (buffered (br_state b')) + in_plans (br_plans b') + mset (map fst msgs)"
  shows "broker_ok engine b'"
proof -
  have acc: "tagged_completions (mset (br_accepted b))
      = tagged_completions (buffered (br_state b)) + in_plans (br_plans b) + mset (map fst (br_answers b))"
    using assms(1) by (simp add: broker_ok_def requests_accounted_def)
  have "tagged_completions (mset (br_accepted b'))
      = (tagged_completions (buffered (br_state b)) + in_plans (br_plans b) + tagged_completions (mset added))
        + mset (map fst (br_answers b))"
    by (simp add: assms(3) acc ac_simps)
  also have "\<dots> = tagged_completions (buffered (br_state b')) + in_plans (br_plans b') + mset (map fst (br_answers b'))"
    unfolding assms(5) by (simp add: assms(4) ac_simps)
  finally show ?thesis using assms(2) by (simp add: broker_ok_def requests_accounted_def)
qed

lemma broker_ok_same:
  assumes "broker_ok engine b" "state_ok (engine_topics engine) (br_state b')" "buffered (br_state b') = buffered (br_state b)"
    "br_accepted b' = br_accepted b" "br_answers b' = br_answers b" "br_plans b' = br_plans b"
  shows "broker_ok engine b'"
  using assms by (intro broker_ok_step[of engine b b' "[]" "[]"]) simp_all

lemma broker_ok_dropped:
  assumes "broker_ok engine b" "state_ok (engine_topics engine) st'"
    "\<exists>dropped. buffered (br_state b) = buffered st' + dropped \<and> mset msgs = lost_answers dropped"
  shows "broker_ok engine (b\<lparr>br_state := st', br_claims := cs, br_answers := br_answers b @ msgs\<rparr>)"
proof -
  obtain dropped where dropped: "buffered (br_state b) = buffered st' + dropped" "mset msgs = lost_answers dropped"
    using assms(3) by blast
  have "mset (map fst msgs) = tagged_completions dropped"
    using lost_answers_completions[of dropped] dropped(2) by simp
  then show ?thesis
    by (intro broker_ok_step[OF assms(1), where added = "[]" and msgs = msgs]) (simp_all add: assms(2) dropped(1))
qed

lemma broker_step_ok:
  assumes "broker_step dates engine (store, b) (store', b')" "broker_ok engine b"
  shows "broker_ok engine b'"
proof -
  have ok: "state_ok (engine_topics engine) (br_state b)" using assms(2) by (simp add: broker_ok_def)
  from assms(1) show ?thesis
  proof (cases rule: broker_step_cases)
    case (produce ov request summary flush_config c now outcome st')
    note eff = attempt_effect[OF produce(2) ok validated_topic[OF produce(1)]]
    show ?thesis unfolding produce(4) by (rule broker_ok_step[OF assms(2), where msgs = "[]"]) (simp_all add: eff)
  next
    case (claim key n now renews d st' info)
    have "hm_get (engine_topics engine) (fst key) \<noteq> None" using claim(4) by simp
    note eff = begin_effect[OF claim(1) ok this]
    show ?thesis unfolding claim(3) by (rule broker_ok_same[OF assms(2)]) (simp_all add: eff)
  next
    case (finish_foreground cs cl ds result error msgs st')
    show ?thesis unfolding finish_foreground(5)
      by (rule broker_ok_dropped[OF assms(2) finish_claim_effect[OF finish_foreground(3) ok]])
  next
    case (finish_maintenance cs cl ds outcome pending now pending' msgs st')
    show ?thesis unfolding finish_maintenance(5)
      by (rule broker_ok_dropped[OF assms(2) complete_maintenance_effect[OF finish_maintenance(3) ok]])
  next
    case (cancel cs cl ds finished tr msgs st')
    show ?thesis unfolding cancel(4)
      by (rule broker_ok_dropped[OF assms(2) finish_effect[OF cancel(2)[unfolded drop_transition_def] ok]])
  next
    case (plan now flush_config feature_flags plan msgs st')
    note eff = collect_effect[OF plan(1) ok]
    show ?thesis unfolding plan(3) using eff by (intro broker_ok_step[OF assms(2), where added = "[]" and msgs = msgs])
      (auto simp: in_plans_option lost_answers_completions[symmetric] ac_simps)
  next
    case (complete ps pl qs result feedback msgs st')
    note eff = notify_effect[OF complete(2) ok]
    show ?thesis unfolding complete(4) using eff
      by (intro broker_ok_step[OF assms(2), where added = "[]" and msgs = msgs]) (simp_all add: complete(1) ac_simps)
  next
    case (publish members parts generation' st')
    show ?thesis unfolding publish(3)
      by (rule broker_ok_same[OF assms(2)]) (simp_all add: publish_effect[OF publish(1) ok])
  next
    case (drain key now interval first_heartbeat st')
    have st': "st' = update_if_present (br_state b) key (\<lambda>p. p\<lparr>draining := True\<rparr>)"
      using drain(1) start_drain_eq[of "br_state b" key now interval] by simp
    note eff = update_if_present_effect[OF ok, of "\<lambda>p. p\<lparr>draining := True\<rparr>" key]
    show ?thesis unfolding drain(3) st' by (rule broker_ok_same[OF assms(2)]) (simp_all add: eff)
  next
    case shutdown
    show ?thesis unfolding shutdown(2) by (rule broker_ok_same[OF assms(2)]) (simp_all add: shutdown_effect[OF ok])
  next
    case (heartbeat key now outcome interval retry held retry' st')
    show ?thesis unfolding heartbeat(1)
      by (rule broker_ok_same[OF assms(2)]) (simp_all add: heartbeat_effect[OF heartbeat(3) ok])
  next
    case (release key now outcome retry released retry' st')
    show ?thesis unfolding release(1)
      by (rule broker_ok_same[OF assms(2)]) (simp_all add: release_effect[OF release(3) ok])
  next
    case (call_foreground cs cl ds now result)
    show ?thesis unfolding call_foreground(1) by (rule broker_ok_same[OF assms(2)]) (simp_all add: ok)
  next
    case (call_maintenance cs cl ds now outcome)
    show ?thesis unfolding call_maintenance(1) by (rule broker_ok_same[OF assms(2)]) (simp_all add: ok)
  qed
qed

end
