(* ===== verification/Number_Spec.thy ===== *)
theory Number_Spec
  imports Prelude
begin

text \<open>
  The specification of sequence numbering, independent of leases, buffers and tasks.  A mark per
  partition counts the numbers ever given out.  A broker has numbers in hand, claims that may carry
  newly reserved numbers, and the batches it accepted, each with its numbers.  The brokers of a
  cluster share the marks.  The write path refines this specification.
\<close>

section \<open>The machine\<close>

record 'k numbers =
  nb_hand :: "'k \<Rightarrow> nat set"
  nb_busy :: "'k \<Rightarrow> bool"
  nb_claims :: "('k \<times> nat set) list"
  nb_accepted :: "('k \<times> nat set) list"

definition no_numbers :: "'k numbers" where
  "no_numbers = \<lparr>nb_hand = \<lambda>_. {}, nb_busy = \<lambda>_. False, nb_claims = [], nb_accepted = []\<rparr>"

inductive number_step :: "('k \<Rightarrow> nat) \<times> 'k numbers \<Rightarrow> ('k \<Rightarrow> nat) \<times> 'k numbers \<Rightarrow> bool" where
  forget:
    "\<lbrakk>\<forall>k. hand' k \<subseteq> nb_hand v k; mark \<le> mark'\<rbrakk>
     \<Longrightarrow> number_step (mark, v) (mark', v\<lparr>nb_hand := hand'\<rparr>)"
| accept:
    "\<lbrakk>\<not> nb_busy v k; R \<subseteq> nb_hand v k; R \<noteq> {}; \<forall>x \<in> R. \<forall>y \<in> nb_hand v k - R. x < y\<rbrakk>
     \<Longrightarrow> number_step (mark, v)
          (mark, v\<lparr>nb_hand := (nb_hand v)(k := nb_hand v k - R), nb_accepted := nb_accepted v @ [(k, R)]\<rparr>)"
| claim:
    "\<not> nb_busy v k
     \<Longrightarrow> number_step (mark, v) (mark, v\<lparr>nb_busy := (nb_busy v)(k := True), nb_claims := nb_claims v @ [(k, {})]\<rparr>)"
| reserve:
    "\<lbrakk>nb_claims v = cs @ (k, {}) # ds; N \<subseteq> {mark k ..< mark' k}; mark \<le> mark'\<rbrakk>
     \<Longrightarrow> number_step (mark, v) (mark', v\<lparr>nb_claims := cs @ (k, N) # ds\<rparr>)"
| finish:
    "\<lbrakk>nb_claims v = cs @ (k, N) # ds; H \<subseteq> nb_hand v k \<union> N\<rbrakk>
     \<Longrightarrow> number_step (mark, v)
          (mark, v\<lparr>nb_hand := (nb_hand v)(k := H), nb_busy := (nb_busy v)(k := False), nb_claims := cs @ ds\<rparr>)"

text \<open>A cluster: a broker takes a step, a broker starts, or another client of the store advances marks.\<close>

inductive number_cluster_step ::
    "('k \<Rightarrow> nat) \<times> 'k numbers list \<Rightarrow> ('k \<Rightarrow> nat) \<times> 'k numbers list \<Rightarrow> bool" where
  local_step:
    "\<lbrakk>i < length vs; number_step (mark, vs ! i) (mark', v')\<rbrakk> \<Longrightarrow> number_cluster_step (mark, vs) (mark', vs[i := v'])"
| join: "number_cluster_step (mark, vs) (mark, vs @ [no_numbers])"
| advance: "mark \<le> mark' \<Longrightarrow> number_cluster_step (mark, vs) (mark', vs)"

section \<open>Numbers are used once\<close>

text \<open>How often a broker has a number: in hand, in a claim, or in an accepted batch.\<close>

definition uses :: "'k numbers \<Rightarrow> 'k \<Rightarrow> nat \<Rightarrow> nat" where
  "uses v k x = of_bool (x \<in> nb_hand v k)
     + length (filter (\<lambda>(k', N). k' = k \<and> x \<in> N) (nb_claims v))
     + length (filter (\<lambda>(k', N). k' = k \<and> x \<in> N) (nb_accepted v))"

definition used_once :: "('k \<Rightarrow> nat) \<times> 'k numbers list \<Rightarrow> bool" where
  "used_once s \<longleftrightarrow> (\<forall>k x. (\<Sum>v\<leftarrow>snd s. uses v k x) \<le> 1 \<and> ((\<Sum>v\<leftarrow>snd s. uses v k x) > 0 \<longrightarrow> x < fst s k))"

lemma uses_step:
  assumes "number_step (mark, v) (mark', v')"
  shows "uses v' k x \<le> uses v k x + of_bool (mark k \<le> x \<and> x < mark' k) \<and> mark k \<le> mark' k"
  using assms
proof (cases rule: number_step.cases)
  case (forget hand')
  then have "x \<in> hand' k \<Longrightarrow> x \<in> nb_hand v k" by blast
  with forget show ?thesis by (auto simp: uses_def le_fun_def)
next
  case (reserve cs key ds N)
  then have "key = k \<and> x \<in> N \<Longrightarrow> mark k \<le> x \<and> x < mark' k" by auto
  with reserve show ?thesis by (auto simp: uses_def le_fun_def)
next
  case (finish cs key N ds H)
  then have "key = k \<and> x \<in> H \<Longrightarrow> x \<in> nb_hand v k \<or> x \<in> N" by blast
  with finish show ?thesis by (auto simp: uses_def)
qed (auto simp: uses_def)

lemma sum_list_update_add:
  fixes f :: "'a \<Rightarrow> nat"
  shows "i < length xs \<Longrightarrow> (\<Sum>x\<leftarrow>xs[i := y]. f x) + f (xs ! i) = (\<Sum>x\<leftarrow>xs. f x) + f y"
proof (induction xs arbitrary: i)
  case (Cons a xs)
  then show ?case by (cases i) (auto simp: algebra_simps)
qed simp

lemma used_once_step:
  assumes "number_cluster_step s s'" "used_once s"
  shows "used_once s'"
  using assms(1)
proof cases
  case (local_step i vs mark mark' v')
  show ?thesis unfolding used_once_def
  proof (intro allI)
    fix k x
    let ?n = "\<Sum>v\<leftarrow>vs. uses v k x" and ?n' = "\<Sum>v\<leftarrow>vs[i := v']. uses v k x"
    have old: "?n \<le> 1" "?n > 0 \<longrightarrow> x < mark k" using assms(2) local_step(1) by (simp_all add: used_once_def)
    have sum: "?n' + uses (vs ! i) k x = ?n + uses v' k x" by (rule sum_list_update_add[OF local_step(3)])
    have arith: "n' \<le> 1 \<and> (n' > 0 \<longrightarrow> x < m')"
      if "n' + u = n + u'" "u' \<le> u + of_bool (m \<le> x \<and> x < m') \<and> m \<le> m'" "n \<le> 1" "n > 0 \<longrightarrow> x < m"
      for n n' u u' m m' :: nat
      using that by (cases "m \<le> x \<and> x < m'"; cases "x < m") auto
    have "?n' \<le> 1 \<and> (?n' > 0 \<longrightarrow> x < mark' k)"
      by (rule arith[OF sum uses_step[OF local_step(4), of k x] old])
    then show "(\<Sum>v\<leftarrow>snd s'. uses v k x) \<le> 1 \<and> ((\<Sum>v\<leftarrow>snd s'. uses v k x) > 0 \<longrightarrow> x < fst s' k)"
      using local_step(2) by simp
  qed
next
  case (join mark vs)
  then show ?thesis using assms(2) by (simp add: used_once_def uses_def no_numbers_def)
next
  case (advance mark mark' vs)
  then show ?thesis using assms(2) by (auto simp: used_once_def le_fun_def intro: less_le_trans)
qed

section \<open>Numbers are accepted in order\<close>

definition one_claim :: "'k numbers \<Rightarrow> bool" where
  "one_claim v \<longleftrightarrow> (\<forall>k. count_list (map fst (nb_claims v)) k = of_bool (nb_busy v k))"

definition before :: "'k \<times> nat set \<Rightarrow> 'k \<times> nat set \<Rightarrow> bool" where
  "before p q \<longleftrightarrow> fst p = fst q \<longrightarrow> (\<forall>x \<in> snd p. \<forall>y \<in> snd q. x < y)"

definition in_order :: "('k \<Rightarrow> nat) \<Rightarrow> 'k numbers \<Rightarrow> bool" where
  "in_order mark v \<longleftrightarrow> one_claim v \<and> sorted_wrt before (nb_accepted v)
     \<and> (\<forall>p \<in> set (nb_accepted v). snd p \<noteq> {} \<and> (\<forall>k. before p (k, nb_hand v k))
          \<and> (\<forall>c \<in> set (nb_claims v). before p c) \<and> (\<forall>x \<in> snd p. x < mark (fst p)))"

lemma in_order_later: "in_order mark v \<Longrightarrow> mark \<le> mark' \<Longrightarrow> in_order mark' v"
  unfolding in_order_def le_fun_def by (meson less_le_trans)

lemma in_order_step:
  assumes "number_step (mark, v) (mark', v')" "in_order mark v" "\<forall>k. \<forall>x \<in> nb_hand v k. x < mark k"
  shows "in_order mark' v'"
  using assms(1)
proof (cases rule: number_step.cases)
  case (forget hand')
  have "in_order mark' v" using in_order_later[OF assms(2)] forget by simp
  with forget show ?thesis by (auto simp: in_order_def one_claim_def before_def subset_iff)
next
  case (accept k R)
  have "count_list (map fst (nb_claims v)) k = 0" using assms(2) accept by (simp add: in_order_def one_claim_def)
  then have idle: "\<forall>c \<in> set (nb_claims v). fst c \<noteq> k" by (auto simp: count_list_0_iff)
  have "sorted_wrt before (nb_accepted v @ [(k, R)])"
    using assms(2) accept by (auto simp: in_order_def sorted_wrt_append before_def subset_iff)
  moreover have "\<forall>p \<in> set (nb_accepted v). \<forall>k'. before p (k', ((nb_hand v)(k := nb_hand v k - R)) k')"
    using assms(2) by (auto simp: in_order_def before_def)
  moreover have "before (k, R) (k', ((nb_hand v)(k := nb_hand v k - R)) k')" for k'
    using accept by (auto simp: before_def)
  moreover have "\<forall>c \<in> set (nb_claims v). before (k, R) c" using idle by (auto simp: before_def)
  moreover have "\<forall>x \<in> R. x < mark k" using assms(3) accept by blast
  ultimately show ?thesis using assms(2) accept by (auto simp: in_order_def one_claim_def)
next
  case (claim k)
  with assms(2) show ?thesis by (auto simp: in_order_def one_claim_def before_def)
next
  case (reserve cs k ds N)
  have later: "in_order mark' v" using in_order_later[OF assms(2)] reserve by simp
  have "before p (k, N)" if "p \<in> set (nb_accepted v)" for p
    using that assms(2) reserve(3) by (fastforce simp: in_order_def before_def)
  then show ?thesis using later reserve by (auto simp: in_order_def one_claim_def)
next
  case (finish cs k N ds H)
  have "before p (k', ((nb_hand v)(k := H)) k')" if "p \<in> set (nb_accepted v)" for p k'
    using that assms(2) finish by (fastforce simp: in_order_def before_def)
  moreover have "count_list (map fst (cs @ ds)) k'' = of_bool (((nb_busy v)(k := False)) k'')" for k''
    using assms(2) finish by (auto simp: in_order_def one_claim_def dest!: spec[of _ k''] split: if_splits)
  ultimately show ?thesis using assms(2) finish by (auto simp: in_order_def one_claim_def)
qed

text \<open>Both invariants together, for a cluster that starts with no brokers.\<close>

definition cluster_numbers_ok :: "('k \<Rightarrow> nat) \<times> 'k numbers list \<Rightarrow> bool" where
  "cluster_numbers_ok s \<longleftrightarrow> used_once s \<and> (\<forall>v \<in> set (snd s). in_order (fst s) v)"

lemma used_twice:
  assumes "used_once (mark, vs)" "i < j" "j < length (concat (map nb_accepted vs))"
    "concat (map nb_accepted vs) ! i = (k, R)" "concat (map nb_accepted vs) ! j = (k, S)"
  shows "R \<inter> S = {}"
proof (rule ccontr)
  assume "R \<inter> S \<noteq> {}"
  then obtain x where x: "x \<in> R" "x \<in> S" by blast
  let ?P = "\<lambda>(k', N). k' = k \<and> x \<in> N" and ?xs = "concat (map nb_accepted vs)"
  have "length (filter ?P ?xs) \<le> (\<Sum>v\<leftarrow>vs. uses v k x)" by (induction vs) (auto simp: uses_def)
  then have "length (filter ?P ?xs) \<le> 1" using assms(1) by (auto simp: used_once_def intro: order_trans)
  moreover have "card {n. n < length ?xs \<and> ?P (?xs ! n)} \<ge> card {i, j}"
    using assms x by (intro card_mono) auto
  ultimately show False using assms(2) by (simp add: length_filter_conv_card)
qed

lemma hand_below:
  assumes "used_once (mark, vs)" "v \<in> set vs" "x \<in> nb_hand v k"
  shows "x < mark k"
proof -
  have "uses v k x > 0" using assms(3) by (simp add: uses_def)
  then have "(\<Sum>v\<leftarrow>vs. uses v k x) > 0" using member_le_sum_list[of "uses v k x" "map (\<lambda>v. uses v k x) vs"] assms(2)
    by auto
  then show ?thesis using assms(1) by (simp add: used_once_def)
qed

lemma cluster_numbers_step:
  assumes "number_cluster_step s s'" "cluster_numbers_ok s"
  shows "cluster_numbers_ok s'"
proof -
  have once: "used_once s" and ord: "\<forall>v \<in> set (snd s). in_order (fst s) v"
    using assms(2) by (simp_all add: cluster_numbers_ok_def)
  from assms(1) have "\<forall>v \<in> set (snd s'). in_order (fst s') v"
  proof cases
    case (local_step i vs mark mark' v')
    have i: "vs ! i \<in> set vs" using local_step(3) by simp
    have "in_order mark' v'"
      using in_order_step[OF local_step(4)] ord hand_below[of mark vs "vs ! i"] once local_step(1) i by simp
    moreover have "mark \<le> mark'" using uses_step[OF local_step(4)] by (simp add: le_fun_def)
    ultimately show ?thesis
      using ord local_step(1,2) set_update_subset_insert[of vs i v'] by (auto intro: in_order_later)
  next
    case (join mark vs)
    then show ?thesis using ord by (auto simp: in_order_def one_claim_def no_numbers_def)
  next
    case (advance mark mark' vs)
    then show ?thesis using ord by (auto intro: in_order_later)
  qed
  with used_once_step[OF assms(1) once] show ?thesis by (simp add: cluster_numbers_ok_def)
qed

end
