(* ===== verification/Cluster.thy ===== *)
theory Cluster
  imports Write_Path Number_Spec
begin

text \<open>
  Brokers that share a lease store.  The write path of one broker refines the specification of
  sequence numbering (\<open>Number_Spec\<close>); a cluster of brokers therefore never gives the sequence
  number of a partition to two batches, and every broker accepts batches in the order of their
  numbers.  Brokers may start at any time; a broker that takes no more steps has failed.  Calls of
  other clients of the store, such as a call whose caller was cancelled, may take effect at any time.
\<close>

section \<open>The machine\<close>

definition new_broker :: "BrokerMembership \<Rightarrow> broker" where
  "new_broker members =
     \<lparr>br_state = with_membership members, br_claims = [], br_plans = [], br_accepted = [], br_answers = []\<rparr>"

type_synonym cluster = "LeaseStore \<times> (WriteEngineImpl \<times> broker) list"

inductive cluster_step :: "date_range \<Rightarrow> cluster \<Rightarrow> cluster \<Rightarrow> bool" for dates where
  local_step:
    "\<lbrakk>i < length bs; bs ! i = (engine, b); broker_step dates engine (store, b) (store', b')\<rbrakk>
     \<Longrightarrow> cluster_step dates (store, bs) (store', bs[i := (engine, b')])"
| join: "cluster_step dates (store, bs) (store, bs @ [(engine, new_broker members)])"
| foreign: "cluster_step dates (store, bs) (lease_step dates op store, bs)"

definition cluster_reachable :: "date_range \<Rightarrow> cluster \<Rightarrow> bool" where
  "cluster_reachable dates = (cluster_step dates)\<^sup>*\<^sup>* ([], [])"

definition cluster_accepted :: "cluster \<Rightarrow> tagged list" where
  "cluster_accepted s = concat (map (br_accepted \<circ> snd) (snd s))"

section \<open>Partitions\<close>

definition part :: "WriteState \<Rightarrow> PartitionKey \<Rightarrow> PartitionState" where
  "part st k = partition_or_default st (fst k) (snd k)"

lemma part_put [simp]: "part (put_partition st topic vp p) k = (if k = (topic, vp) then p else part st k)"
  by (cases k) (auto simp: part_def partition_or_default_def)

lemma part_or_default: "partition_or_default st topic vp = part st (topic, vp)"
  by (simp add: part_def)

lemma part_present: "partition_state st (fst k) (snd k) = Some p \<Longrightarrow> part st k = p"
  by (simp add: part_def partition_or_default_def)

lemma part_missing: "partition_state st (fst k) (snd k) = None \<Longrightarrow> part st k = default_partition"
  by (simp add: part_def partition_or_default_def)

text \<open>What most operations do to the allocators: nothing.\<close>

definition same_alloc :: "WriteState \<Rightarrow> WriteState \<Rightarrow> bool" where
  "same_alloc st st' \<longleftrightarrow> (\<forall>k. seq_allocator (part st' k) = seq_allocator (part st k)
     \<and> allocation_in_flight (part st' k) = allocation_in_flight (part st k))"

lemma same_alloc_refl [simp]: "same_alloc st st"
  by (simp add: same_alloc_def)

lemma same_alloc_trans: "same_alloc st st' \<Longrightarrow> same_alloc st' st'' \<Longrightarrow> same_alloc st st''"
  by (simp add: same_alloc_def)

lemma same_alloc_topics: "topics st' = topics st \<Longrightarrow> same_alloc st st'"
  by (simp add: same_alloc_def part_def partition_or_default_def partition_state_def)

lemma same_alloc_drains:
  assumes "drains st st'"
  shows "same_alloc st st'"
  unfolding same_alloc_def
proof
  fix k
  have "rel_option drained_to (partition_state st (fst k) (snd k)) (partition_state st' (fst k) (snd k))"
    using assms by (simp add: drains_def)
  then show "seq_allocator (part st' k) = seq_allocator (part st k)
     \<and> allocation_in_flight (part st' k) = allocation_in_flight (part st k)"
    by (cases rule: option.rel_cases) (auto simp: part_present part_missing drained_to_def)
qed

lemma same_alloc_update:
  assumes "\<And>p. seq_allocator (f p) = seq_allocator p \<and> allocation_in_flight (f p) = allocation_in_flight p"
  shows "same_alloc st (update_if_present st key f)"
proof (cases "partition_state st (fst key) (snd key)")
  case (Some p)
  then have "part st key = p" by (rule part_present)
  with Some assms show ?thesis by (simp add: update_if_present_def same_alloc_def)
qed (simp add: update_if_present_def)

lemma same_alloc_collect:
  assumes "collect_next_flush_plan st now config flush_config feature_flags infos = Some (plan, msgs, st')"
    "state_ok infos st"
  shows "same_alloc st st'"
  using assms(2) by (intro same_alloc_drains collect_result(2)[OF _ _ assms(1)]) (simp_all add: state_ok_def)

lemma same_alloc_mark: "same_alloc st (mark_one_complete results fallback c st)"
proof (cases "partition_state st (fpc_topic c) (fpc_virtual_partition_id c)")
  case None
  then show ?thesis by (auto simp: mark_one_complete_def Let_def intro: same_alloc_topics)
next
  case (Some p)
  let ?st1 = "st\<lparr>channels := (channels st)[fpc_state_tx c := completion_state
      (partition_result_error results (fpc_topic c) (fpc_virtual_partition_id c) fallback)]\<rparr>"
  have "same_alloc st ?st1" by (rule same_alloc_topics) simp
  moreover have "part ?st1 (fpc_topic c, fpc_virtual_partition_id c) = p" using Some by (intro part_present) simp
  ultimately show ?thesis using Some by (auto simp: mark_one_complete_def Let_def same_alloc_def)
qed

lemma same_alloc_notify:
  assumes "flush_plan_and_notify st plan result = (feedback, msgs, st')"
  shows "same_alloc st st'"
proof -
  have "same_alloc st (fold (mark_one_complete results fallback) cs st)" for results fallback cs
  proof (induction cs arbitrary: st)
    case (Cons c cs)
    then show ?case using same_alloc_trans[OF same_alloc_mark Cons.IH] by simp
  qed simp
  then show ?thesis using assms by (auto simp: flush_plan_and_notify_def mark_flush_complete_def Let_def)
qed

lemma same_alloc_shutdown: "same_alloc st (begin_shutdown_drain st)"
  by (simp add: same_alloc_def part_def partition_or_default_def split: option.splits)

lemma same_alloc_heartbeat:
  assumes "drain_heartbeat st key now interval retry outcome = (held, retry', st')"
  shows "same_alloc st st'"
  using assms by (auto simp: drain_heartbeat_def intro!: same_alloc_update split: sum.splits LeaseHeartbeatOutcome.splits)

text \<open>A release forgets numbers, and never with a transition in flight on a partition it removes.\<close>

lemma clear_part:
  "seq_allocator (part (clear_terminally_released_partition st topic vp) k) \<in> {seq_allocator (part st k), default_allocator}
   \<and> allocation_in_flight (part (clear_terminally_released_partition st topic vp) k) = allocation_in_flight (part st k)"
proof (cases "partition_state st topic vp")
  case None
  then show ?thesis by (simp add: clear_terminally_released_partition_def)
next
  case (Some p)
  then have p: "part st (topic, vp) = p" by (simp add: part_present)
  have removed: "part (remove_partition st' topic vp) k = (if k = (topic, vp) then default_partition else part st' k)" for st'
    by (cases k) (auto simp: part_def partition_or_default_def)
  show ?thesis
    using Some p
    by (auto simp: clear_terminally_released_partition_def Let_def removed is_drained_def default_partition_def)
qed

section \<open>Numbers in hand\<close>

definition range_numbers :: "SeqRange \<Rightarrow> nat set" where
  "range_numbers r = {unat (seq_start r) .. unat (seq_end r)}"

definition numbers_left :: "SeqAllocator \<Rightarrow> nat set" where
  "numbers_left a = (case reservation a of None \<Rightarrow> {} | Some r \<Rightarrow> {unat (next_seq a) .. unat (seq_end r)})"

lemma left_default [simp]: "numbers_left default_allocator = {}"
  by (simp add: numbers_left_def default_allocator_def)

lemma left_install: "numbers_left (install_or_extend_reservation a r) \<subseteq> numbers_left a \<union> range_numbers r"
  by (auto simp: numbers_left_def install_or_extend_reservation_def range_numbers_def machine_int
      split: option.splits if_splits)

text \<open>The numbers of a batch come from the front of the numbers in hand, unless the last \<open>u64\<close> is used.\<close>

lemma allocate_left:
  assumes "allocate a n = (Some r, a')" "numbers_left a \<subseteq> {..< 2 ^ 64 - 1}"
  shows "range_numbers r \<subseteq> numbers_left a" "range_numbers r \<noteq> {}"
    "numbers_left a' = numbers_left a - range_numbers r"
    "\<forall>x \<in> range_numbers r. \<forall>y \<in> numbers_left a - range_numbers r. x < y"
proof -
  obtain r0 where r0: "reservation a = Some r0"
    using assms(1) by (auto simp: allocate_def can_allocate_def split: option.splits if_splits)
  have out: "seq_start r = next_seq a" "unat (seq_end r) \<le> unat (seq_end r0)"
    "next_seq a' = saturating_add (seq_end r) 1" "reservation a' = Some r0" "unat (seq_start r) \<le> unat (seq_end r)"
    using assms(1) r0 unsigned_less[of "seq_end r0", where ?'a = nat] unsigned_less[of "seq_end r", where ?'a = nat]
    by (auto simp: allocate_def can_allocate_def Let_def machine_int word_le_nat_alt split: if_splits option.splits)
  have "unat (seq_end r0) \<in> numbers_left a" using out r0 by (simp add: numbers_left_def)
  then have "unat (seq_end r0) < 2 ^ 64 - 1" using assms(2) by blast
  then have next': "unat (next_seq a') = unat (seq_end r) + 1" using out by (simp add: unat_saturating_add)
  show "range_numbers r \<subseteq> numbers_left a" "range_numbers r \<noteq> {}" "numbers_left a' = numbers_left a - range_numbers r"
    "\<forall>x \<in> range_numbers r. \<forall>y \<in> numbers_left a - range_numbers r. x < y"
    using out r0 next' by (auto simp: range_numbers_def numbers_left_def)
qed

text \<open>Batches in order have ranges in order.\<close>

lemma range_numbers_before:
  assumes "\<forall>x \<in> range_numbers r. \<forall>y \<in> range_numbers r'. x < y" "range_numbers r \<noteq> {}" "range_numbers r' \<noteq> {}"
  shows "seq_end r < seq_start r'"
proof -
  have "unat (seq_end r) \<in> range_numbers r" "unat (seq_start r') \<in> range_numbers r'"
    using assms(2,3) by (simp_all add: range_numbers_def)
  with assms(1) have "unat (seq_end r) < unat (seq_start r')" by blast
  then show ?thesis by (simp add: word_less_nat_alt)
qed

lemma same_alloc_funs:
  assumes "same_alloc st st'"
  shows "(\<lambda>k. numbers_left (seq_allocator (part st' k))) = (\<lambda>k. numbers_left (seq_allocator (part st k)))"
    "(\<lambda>k. allocation_in_flight (part st' k)) = (\<lambda>k. allocation_in_flight (part st k))"
proof -
  have "seq_allocator (part st' k) = seq_allocator (part st k)"
    "allocation_in_flight (part st' k) = allocation_in_flight (part st k)" for k
    using assms unfolding same_alloc_def by blast+
  then show "(\<lambda>k. numbers_left (seq_allocator (part st' k))) = (\<lambda>k. numbers_left (seq_allocator (part st k)))"
    "(\<lambda>k. allocation_in_flight (part st' k)) = (\<lambda>k. allocation_in_flight (part st k))" by simp_all
qed

section \<open>The view of a broker\<close>

definition claim_range :: "claim \<Rightarrow> SeqRange option" where
  "claim_range cl =
     (case claim_phase_of cl of
        ForegroundDone (Inr (_, r)) \<Rightarrow> r
      | MaintenanceDone (Inr (Acquired _ r)) \<Rightarrow> r
      | _ \<Rightarrow> None)"

definition claim_numbers :: "claim \<Rightarrow> nat set" where
  "claim_numbers cl = (case claim_range cl of None \<Rightarrow> {} | Some r \<Rightarrow> range_numbers r)"

definition batch_numbers :: "tagged \<Rightarrow> PartitionKey \<times> nat set" where
  "batch_numbers t = ((fst t, fst (snd t)), range_numbers (bb_seq_range (snd (snd t))))"

definition broker_view :: "broker \<Rightarrow> PartitionKey numbers" where
  "broker_view b =
     \<lparr>nb_hand = \<lambda>k. numbers_left (seq_allocator (part (br_state b) k)),
      nb_busy = \<lambda>k. allocation_in_flight (part (br_state b) k),
      nb_claims = map (\<lambda>cl. (claim_key cl, claim_numbers cl)) (br_claims b),
      nb_accepted = map batch_numbers (br_accepted b)\<rparr>"

definition marks :: "LeaseStore \<Rightarrow> PartitionKey \<Rightarrow> nat" where
  "marks store k = next_seq_mark store (partition_lease_key (fst k) (snd k))"

text \<open>Claims hold an open transition of their partition.\<close>

definition claim_ok :: "claim \<Rightarrow> bool" where
  "claim_ok cl \<longleftrightarrow> (at_topic (work_transition (claim_work cl)), at_virtual_partition_id (work_transition (claim_work cl)))
     = claim_key cl \<and> \<not> at_finished (work_transition (claim_work cl))"

text \<open>Steps that leave the numbers alone are \<open>forget\<close> steps.\<close>

lemma forget_same:
  assumes "same_alloc (br_state b) (br_state b')" "br_claims b' = br_claims b" "br_accepted b' = br_accepted b"
    "mark \<le> mark'"
  shows "number_step (mark, broker_view b) (mark', broker_view b')"
proof -
  have "broker_view b' = (broker_view b)\<lparr>nb_hand := nb_hand (broker_view b)\<rparr>"
    using assms(1-3) by (simp add: broker_view_def same_alloc_funs)
  then show ?thesis using number_step.forget[of "nb_hand (broker_view b)" "broker_view b" mark mark'] assms(4) by simp
qed

lemma marks_lease_step: "marks store \<le> marks (lease_step dates op store)"
  unfolding le_fun_def marks_def by (intro allI producer_reservation.mark_mono)

lemma marks_heartbeat:
  "heartbeat_lease dates store key h s now d p = (outcome, store') \<Longrightarrow> marks store \<le> marks store'"
  using marks_lease_step[of store dates "\<lparr>op_key = key, op_holder = h, op_session = s, op_now = now,
      op_call = HeartbeatCall d p\<rparr>"] by (simp add: lease_step_def)

lemma marks_release:
  "release_lease store key h s now p = (outcome, store') \<Longrightarrow> marks store \<le> marks store'"
  using marks_lease_step[of store _ "\<lparr>op_key = key, op_holder = h, op_session = s, op_now = now,
      op_call = ReleaseCall p\<rparr>"] by (simp add: lease_step_def)

section \<open>The write path refines the specification\<close>

lemma attempt_numbers:
  assumes "buffer_attempt (br_state b) topic vp records summary flush_config c now = (outcome, st')"
    "\<forall>k. nb_hand (broker_view b) k \<subseteq> {..< 2 ^ 64 - 1}"
  shows "number_step (mark, broker_view b) (mark, broker_view (b\<lparr>br_state := st',
     br_accepted := br_accepted b @ accepted_by outcome (br_state b) topic vp records summary c\<rparr>))"
  using assms(1)
proof (cases rule: buffer_attempt_cases)
  case (buffered range' a notify)
  let ?k = "(topic, vp)" and ?b' = "b\<lparr>br_state := st',
     br_accepted := br_accepted b @ accepted_by outcome (br_state b) topic vp records summary c\<rparr>"
  let ?v = "broker_view b"
  have hand: "nb_hand ?v ?k = numbers_left (seq_allocator (part (br_state b) ?k))" by (simp add: broker_view_def)
  note left = allocate_left[OF buffered(4)[unfolded part_or_default]
      assms(2)[rule_format, of ?k, unfolded hand], folded hand]
  have "\<not> nb_busy ?v ?k" using buffered(3) by (simp add: broker_view_def buffer_ready_def part_or_default)
  from number_step.accept[OF this left(1,2,4)]
  have step: "number_step (mark, ?v) (mark, ?v\<lparr>nb_hand := (nb_hand ?v)(?k := nb_hand ?v ?k - range_numbers range'),
      nb_accepted := nb_accepted ?v @ [(?k, range_numbers range')]\<rparr>)" .
  have "broker_view ?b' = ?v\<lparr>nb_hand := (nb_hand ?v)(?k := nb_hand ?v ?k - range_numbers range'),
      nb_accepted := nb_accepted ?v @ [(?k, range_numbers range')]\<rparr>"
    using left(3) buffered(1,5)
    by (auto simp: broker_view_def buffer_batch_def accepted_by_def batch_numbers_def part_or_default fun_eq_iff)
  with step show ?thesis by simp
qed (auto simp: accepted_by_def part_or_default same_alloc_def intro!: forget_same)

lemma begin_numbers:
  assumes "begin_allocation_transition (br_state b) (fst key) (snd key) n now renews base = (d, st')"
    "b' = b\<lparr>br_state := st', br_claims := br_claims b @ new_claims key renews d\<rparr>"
  shows "number_step (mark, broker_view b) (mark, broker_view b') \<and> (\<forall>cl \<in> set (new_claims key renews d). claim_ok cl)"
proof (cases "\<exists>w. d = Claimed w")
  case False
  have "same_alloc (br_state b) st'"
    using assms(1)
  proof (cases rule: begin_cases)
    case (assigned generation p')
    have "part st' k = (if k = key then p' else part (br_state b) k)" for k using assigned(2) by auto
    moreover have "allocation_in_flight p' = allocation_in_flight (part (br_state b) key)"
      using assigned(6) False by (simp add: part_or_default)
    ultimately show ?thesis using assigned(3) by (simp add: same_alloc_def same_data_def part_or_default)
  qed simp
  moreover have "new_claims key renews d = []" using False by (cases d) (auto simp: new_claims_def)
  ultimately show ?thesis using assms(2) by (auto intro!: forget_same)
next
  case True
  then obtain w where w: "d = Claimed w" by blast
  from assms(1) show ?thesis
  proof (cases rule: begin_cases)
    case not_assigned
    with w show ?thesis by simp
  next
    case (assigned generation p')
    have idle: "\<not> allocation_in_flight (part (br_state b) key)" using assigned(5) w by (simp add: part_or_default)
    have st': "part st' k = (if k = key then p' else part (br_state b) k)" for k using assigned(2) by auto
    have p': "allocation_in_flight p'" "seq_allocator p' = seq_allocator (part (br_state b) key)"
      "claim_ok \<lparr>claim_key = key, claim_work = w, claim_renews = renews, claim_phase_of = Asked\<rparr>"
      using assigned(3,4) w by (auto simp: same_data_def part_or_default claim_ok_def)
    let ?v = "broker_view b"
    have "broker_view b' = ?v\<lparr>nb_busy := (nb_busy ?v)(key := True), nb_claims := nb_claims ?v @ [(key, {})]\<rparr>"
      using w p' assms(2)
      by (auto simp: broker_view_def st' new_claims_def claim_numbers_def claim_range_def fun_eq_iff)
    then show ?thesis using number_step.claim[of ?v key mark] idle w p'(3) by (simp add: broker_view_def new_claims_def)
  qed
qed

lemma finish_numbers:
  assumes "finish_inner st tr update lease r n = (res, tr', msgs, st')" "\<not> at_finished tr"
    "k = (at_topic tr, at_virtual_partition_id tr)"
  shows "numbers_left (seq_allocator (part st' k))
      \<subseteq> numbers_left (seq_allocator (part st k)) \<union> (case r of None \<Rightarrow> {} | Some r \<Rightarrow> range_numbers r)"
    "\<not> allocation_in_flight (part st' k)" "k' \<noteq> k \<Longrightarrow> part st' k' = part st k'"
proof -
  have "numbers_left (seq_allocator (part st' k))
      \<subseteq> numbers_left (seq_allocator (part st k)) \<union> (case r of None \<Rightarrow> {} | Some r \<Rightarrow> range_numbers r)
    \<and> \<not> allocation_in_flight (part st' k) \<and> (k' \<noteq> k \<longrightarrow> part st' k' = part st k')"
    using assms(1)
  proof (cases rule: finish_inner_cases)
    case missing
    then show ?thesis using assms(3) by (auto simp: part_missing default_partition_def)
  next
    case (stale p)
    then show ?thesis using assms(3) part_present[of st k p] by auto
  next
    case (applied p p' lost)
    have p: "part st k = p" using applied(2) assms(3) part_present[of st k p] by simp
    obtain p1 where p1: "finish_lease p update lease = (lost, p1)"
      "seq_allocator p' = (let a = (if update = SetExpiration None \<or> at_reset_sequence_allocation_on_finish tr \<and> sets_some update
                 then default_allocator else seq_allocator p1)
        in case r of None \<Rightarrow> a | Some new \<Rightarrow> install_or_extend_reservation a new)"
      by (rule finish_current_effect[OF applied(4)])
    have "seq_allocator p1 = seq_allocator p" using finish_lease_cases[OF p1(1)] by simp
    then have "numbers_left (seq_allocator p') \<subseteq> numbers_left (seq_allocator p)
        \<union> (case r of None \<Rightarrow> {} | Some r \<Rightarrow> range_numbers r)"
      using p1(2) left_install[of default_allocator] left_install[of "seq_allocator p"]
      by (auto simp: Let_def split: option.splits if_splits)
    then show ?thesis using applied(8) p assms(3) by auto
  qed (use assms(2) in simp)
  then show "numbers_left (seq_allocator (part st' k))
      \<subseteq> numbers_left (seq_allocator (part st k)) \<union> (case r of None \<Rightarrow> {} | Some r \<Rightarrow> range_numbers r)"
    "\<not> allocation_in_flight (part st' k)" "k' \<noteq> k \<Longrightarrow> part st' k' = part st k'" by blast+
qed

text \<open>A finished claim hands over its numbers.\<close>

lemma finish_view:
  assumes "br_claims b = cs @ cl # ds" "claim_ok cl"
    "finish_inner (br_state b) (work_transition (claim_work cl)) update lease r n = (res, tr', msgs, st1)"
    "same_alloc st1 st'" "r = None \<or> r = claim_range cl"
  shows "number_step (mark, broker_view b)
     (mark, broker_view (b\<lparr>br_state := st', br_claims := cs @ ds, br_answers := answers\<rparr>))"
proof -
  let ?k = "claim_key cl" and ?v = "broker_view b"
  let ?b' = "b\<lparr>br_state := st', br_claims := cs @ ds, br_answers := answers\<rparr>"
  have tr: "\<not> at_finished (work_transition (claim_work cl))"
    "?k = (at_topic (work_transition (claim_work cl)), at_virtual_partition_id (work_transition (claim_work cl)))"
    using assms(2) by (simp_all add: claim_ok_def)
  note f = finish_numbers[OF assms(3) tr]
  note same = same_alloc_funs[OF assms(4), THEN fun_cong]
  have "(case r of None \<Rightarrow> {} | Some r \<Rightarrow> range_numbers r) \<subseteq> claim_numbers cl"
    using assms(5) by (auto simp: claim_numbers_def)
  then have hand: "nb_hand (broker_view ?b') ?k \<subseteq> nb_hand ?v ?k \<union> claim_numbers cl"
    using f(1) same by (auto simp: broker_view_def)
  have claims: "nb_claims ?v = map (\<lambda>cl. (claim_key cl, claim_numbers cl)) cs @ (?k, claim_numbers cl)
      # map (\<lambda>cl. (claim_key cl, claim_numbers cl)) ds" using assms(1) by (simp add: broker_view_def)
  have "broker_view ?b' = ?v\<lparr>nb_hand := (nb_hand ?v)(?k := nb_hand (broker_view ?b') ?k),
      nb_busy := (nb_busy ?v)(?k := False),
      nb_claims := map (\<lambda>cl. (claim_key cl, claim_numbers cl)) cs @ map (\<lambda>cl. (claim_key cl, claim_numbers cl)) ds\<rparr>"
    using f(2,3) same by (simp add: broker_view_def fun_eq_iff)
  with number_step.finish[OF claims hand, of mark] show ?thesis by simp
qed

text \<open>A call to the store gives a claim numbers above the mark.\<close>

lemma call_view:
  assumes "br_claims b = cs @ cl # ds" "claim_phase_of cl = Asked" "claim_key cl' = claim_key cl"
    "\<forall>r. claim_range cl' = Some r \<longrightarrow> lease_reserved dates op store
       = Some (partition_lease_key (fst (claim_key cl)) (snd (claim_key cl)), unat (seq_start r), unat (seq_end r))"
  shows "number_step (marks store, broker_view b) (marks (lease_step dates op store), broker_view (b\<lparr>br_claims := cs @ cl' # ds\<rparr>))"
proof -
  let ?k = "claim_key cl" and ?v = "broker_view b"
  have claims: "nb_claims ?v = map (\<lambda>cl. (claim_key cl, claim_numbers cl)) cs @ (?k, {})
      # map (\<lambda>cl. (claim_key cl, claim_numbers cl)) ds"
    using assms(1,2) by (simp add: broker_view_def claim_numbers_def claim_range_def)
  have fresh: "claim_numbers cl' \<subseteq> {marks store ?k ..< marks (lease_step dates op store) ?k}"
  proof (cases "claim_range cl'")
    case (Some r)
    then show ?thesis using lease_reserved_fresh[OF assms(4)[rule_format, OF Some]]
      by (auto simp: claim_numbers_def range_numbers_def marks_def)
  qed (simp add: claim_numbers_def)
  have "broker_view (b\<lparr>br_claims := cs @ cl' # ds\<rparr>)
      = ?v\<lparr>nb_claims := map (\<lambda>cl. (claim_key cl, claim_numbers cl)) cs @ (?k, claim_numbers cl')
          # map (\<lambda>cl. (claim_key cl, claim_numbers cl)) ds\<rparr>"
    using assms(3) by (simp add: broker_view_def)
  with number_step.reserve[OF claims fresh marks_lease_step] show ?thesis by simp
qed

definition claims_ok :: "broker \<Rightarrow> bool" where
  "claims_ok b \<longleftrightarrow> (\<forall>cl \<in> set (br_claims b). claim_ok cl)"

lemma claim_ok_phase [simp]: "claim_ok (cl\<lparr>claim_phase_of := phase\<rparr>) = claim_ok cl"
  by (simp add: claim_ok_def)

lemma broker_step_claims_ok:
  assumes "broker_step dates engine (store, b) (store', b')" "claims_ok b"
  shows "claims_ok b'"
  using assms(1)
proof (cases rule: broker_step_cases)
  case (claim key n now renews d st' info)
  then show ?thesis using begin_numbers[OF claim(1,3), of undefined] assms(2) by (auto simp: claims_ok_def)
qed (use assms(2) in \<open>auto simp: claims_ok_def\<close>)

lemma release_view:
  assumes "release_attempt (br_state b) key retry now outcome = (released, retry', st')" "mark \<le> mark'"
  shows "number_step (mark, broker_view b) (mark', broker_view (b\<lparr>br_state := st'\<rparr>))"
proof -
  let ?v = "broker_view b" and ?v' = "broker_view (b\<lparr>br_state := st'\<rparr>)"
  have "seq_allocator (part st' k) \<in> {seq_allocator (part (br_state b) k), default_allocator}
      \<and> allocation_in_flight (part st' k) = allocation_in_flight (part (br_state b) k)" for k
    using assms(1) clear_part[of "br_state b" "fst key" "snd key" k] by (auto simp: release_attempt_def split: sum.splits)
  then have part: "numbers_left (seq_allocator (part st' k)) \<subseteq> numbers_left (seq_allocator (part (br_state b) k))"
    "allocation_in_flight (part st' k) = allocation_in_flight (part (br_state b) k)" for k
    by (metis empty_iff empty_subsetI insert_iff left_default order_refl, blast)
  have "?v' = ?v\<lparr>nb_hand := nb_hand ?v'\<rparr>" using part(2) by (simp add: broker_view_def)
  with number_step.forget[of "nb_hand ?v'" ?v mark mark'] part(1) assms(2) show ?thesis by (simp add: broker_view_def)
qed

text \<open>The steps of a claim: the two calls and the two ways to finish.\<close>

lemma foreground_call_view:
  assumes "br_claims b = cs @ cl # ds" "claim_phase_of cl = Asked"
    "claim_calls dates engine store (fst (claim_key cl)) (snd (claim_key cl)) now (claim_work cl) = (result, store')"
  shows "number_step (marks store, broker_view b)
     (marks store', broker_view (b\<lparr>br_claims := cs @ cl\<lparr>claim_phase_of := ForegroundDone result\<rparr> # ds\<rparr>))"
proof -
  let ?op = "claim_op engine (fst (claim_key cl)) (snd (claim_key cl)) now (claim_work cl)"
  have store': "store' = lease_step dates ?op store"
    using claim_calls_store[of dates engine store] assms(3) by (metis snd_conv)
  show ?thesis unfolding store'
    by (rule call_view[OF assms(1,2)])
      (auto simp: claim_range_def assms(3) split: sum.splits intro!: claim_calls_reserved)
qed

lemma maintenance_call_view:
  assumes "br_claims b = cs @ cl # ds" "claim_phase_of cl = Asked"
    "maintenance_call dates engine store (claim_key cl) now (claim_work cl) = (outcome, store')"
  shows "number_step (marks store, broker_view b)
     (marks store', broker_view (b\<lparr>br_claims := cs @ cl\<lparr>claim_phase_of := MaintenanceDone outcome\<rparr> # ds\<rparr>))"
proof -
  let ?op = "\<lparr>op_key = partition_lease_key (fst (claim_key cl)) (snd (claim_key cl)),
    op_holder = engine_holder_id engine, op_session = engine_lease_session_id engine, op_now = now,
    op_call = AcquireAndReserveCall (wc_lease_duration (engine_config engine))
      (map_option request_size (work_reservation (claim_work cl))) (work_sequence_progress (claim_work cl))\<rparr>"
  have store': "store' = lease_step dates ?op store"
    using assms(3) by (simp add: maintenance_call_def lease_step_def)
  show ?thesis unfolding store'
    using assms(3) by (intro call_view[OF assms(1,2)])
      (auto simp: claim_range_def maintenance_call_def lease_reserved_def split: sum.splits LeaseAcquireAndReserveOutcome.splits)
qed

lemma finish_claim_view:
  assumes "br_claims b = cs @ cl # ds" "claim_ok cl" "claim_phase_of cl = ForegroundDone result"
    "finish_claim (br_state b) (claim_work cl) result = (error, msgs, st')"
  shows "number_step (mark, broker_view b)
     (mark, broker_view (b\<lparr>br_state := st', br_claims := cs @ ds, br_answers := answers\<rparr>))"
proof -
  obtain update lease r res tr' where
    f: "finish_inner (br_state b) (work_transition (claim_work cl)) update lease r None = (res, tr', msgs, st')"
    "result = Inr (lease, r) \<and> update = (case lease of None \<Rightarrow> PreserveExpiration
        | Some l \<Rightarrow> SetExpiration (Some (lease_expires_at l)))
     \<or> (\<exists>e. result = Inl e) \<and> update = PreserveExpiration \<and> lease = None \<and> r = None"
    by (rule finish_claim_cases[OF assms(4)])
  show ?thesis using f(2) assms(3) by (intro finish_view[OF assms(1,2) f(1)]) (auto simp: claim_range_def)
qed

lemma complete_maintenance_view:
  assumes "br_claims b = cs @ cl # ds" "claim_ok cl" "claim_phase_of cl = MaintenanceDone outcome"
    "complete_maintenance (br_state b) pending (claim_key cl) now (claim_work cl) outcome = (pending', msgs, st')"
  shows "number_step (mark, broker_view b)
     (mark, broker_view (b\<lparr>br_state := st', br_claims := cs @ ds, br_answers := answers\<rparr>))"
proof -
  obtain update lease r n res tr' st1 where
    f: "finish_inner (br_state b) (work_transition (claim_work cl)) update lease r n = (res, tr', msgs, st1)"
    "st' = st1 \<or> st' = update_if_present st1 (claim_key cl) (\<lambda>p. p\<lparr>draining := False\<rparr>) \<and> lease \<noteq> None \<and> res = Applied"
    "(\<exists>l. outcome = Inr (Acquired l r) \<and> lease = Some l \<and> update = SetExpiration (Some (lease_expires_at l)))
     \<or> (\<nexists>l r. outcome = Inr (Acquired l r)) \<and> lease = None \<and> r = None
       \<and> (update = SetExpiration None \<or> update = PreserveExpiration)"
    by (rule complete_maintenance_cases[OF assms(4)])
  have "same_alloc st1 st'" using f(2) by (auto intro: same_alloc_update)
  then show ?thesis using f(3) assms(3) by (intro finish_view[OF assms(1,2) f(1)]) (auto simp: claim_range_def)
qed

lemma broker_step_refines:
  assumes "broker_step dates engine (store, b) (store', b')" "broker_ok engine b" "claims_ok b"
    "\<forall>k. nb_hand (broker_view b) k \<subseteq> {..< 2 ^ 64 - 1}"
  shows "number_step (marks store, broker_view b) (marks store', broker_view b')"
proof -
  have ok: "state_ok (engine_topics engine) (br_state b)" using assms(2) by (simp add: broker_ok_def)
  have cl_ok: "claim_ok cl" if "br_claims b = cs @ cl # ds" for cs cl ds using that assms(3) by (simp add: claims_ok_def)
  from assms(1) show ?thesis
  proof (cases rule: broker_step_cases)
    case (produce ov request summary flush_config c now outcome st')
    show ?thesis unfolding produce(3,4) by (rule attempt_numbers[OF produce(2) assms(4)])
  next
    case (claim key n now renews d st' info)
    show ?thesis unfolding claim(2) using begin_numbers[OF claim(1,3)] by blast
  next
    case call_foreground
    show ?thesis unfolding call_foreground(1) by (rule foreground_call_view[OF call_foreground(2,3,5)])
  next
    case call_maintenance
    show ?thesis unfolding call_maintenance(1) by (rule maintenance_call_view[OF call_maintenance(2,3,5)])
  next
    case finish_foreground
    show ?thesis unfolding finish_foreground(4,5)
      by (rule finish_claim_view[OF finish_foreground(1) cl_ok[OF finish_foreground(1)] finish_foreground(2,3)])
  next
    case finish_maintenance
    show ?thesis unfolding finish_maintenance(4,5)
      by (rule complete_maintenance_view[OF finish_maintenance(1) cl_ok[OF finish_maintenance(1)] finish_maintenance(2,3)])
  next
    case cancel
    show ?thesis unfolding cancel(3,4)
      by (rule finish_view[OF cancel(1) cl_ok[OF cancel(1)] cancel(2)[unfolded drop_transition_def]]) simp_all
  next
    case plan
    show ?thesis unfolding plan(2,3) by (rule forget_same) (simp_all add: same_alloc_collect[OF plan(1) ok])
  next
    case complete
    show ?thesis unfolding complete(3,4) by (rule forget_same) (simp_all add: same_alloc_notify[OF complete(2)])
  next
    case (publish members parts generation' st')
    have "topics st' = topics (br_state b)" using publish(1) by (auto simp: publish_assignment_def Let_def)
    then show ?thesis unfolding publish(2,3) by (intro forget_same) (simp_all add: same_alloc_topics)
  next
    case (drain key now interval first_heartbeat st')
    have "st' = update_if_present (br_state b) key (\<lambda>p. p\<lparr>draining := True\<rparr>)"
      using drain(1) start_drain_eq[of "br_state b" key now interval] by simp
    then show ?thesis unfolding drain(2,3) by (intro forget_same) (simp_all add: same_alloc_update)
  next
    case shutdown
    show ?thesis unfolding shutdown by (rule forget_same) (simp_all add: same_alloc_shutdown)
  next
    case heartbeat
    show ?thesis unfolding heartbeat(1)
      by (rule forget_same) (simp_all add: same_alloc_heartbeat[OF heartbeat(3)] marks_heartbeat[OF heartbeat(2)])
  next
    case release
    show ?thesis unfolding release(1) by (rule release_view[OF release(3) marks_release[OF release(2)]])
  qed
qed

section \<open>Reachable clusters\<close>

definition cluster_view :: "cluster \<Rightarrow> (PartitionKey \<Rightarrow> nat) \<times> PartitionKey numbers list" where
  "cluster_view s = (marks (fst s), map (broker_view \<circ> snd) (snd s))"

definition brokers_ok :: "cluster \<Rightarrow> bool" where
  "brokers_ok s \<longleftrightarrow> (\<forall>(engine, b) \<in> set (snd s). broker_ok engine b \<and> claims_ok b)"

lemma new_broker_ok: "broker_ok engine (new_broker members)" "claims_ok (new_broker members)"
  by (simp_all add: new_broker_def broker_ok_def state_ok_def write_ok_def topics_configured_def with_membership_def
      partition_state_def requests_accounted_def buffered_def partition_total_def claims_ok_def)

lemma new_broker_view: "broker_view (new_broker members) = no_numbers"
  by (simp add: broker_view_def new_broker_def no_numbers_def part_def partition_or_default_def with_membership_def
      partition_state_def default_partition_def)

lemma brokers_ok_step:
  assumes "cluster_step dates s s'" "brokers_ok s"
  shows "brokers_ok s'"
  using assms(1)
proof cases
  case (local_step i bs engine b store store' b')
  have mem: "(engine, b) \<in> set bs" using local_step(3,4) by (metis nth_mem)
  have "broker_ok engine b'" "claims_ok b'"
    using broker_step_ok[OF local_step(5)] broker_step_claims_ok[OF local_step(5)] assms(2) mem local_step(1)
    by (auto simp: brokers_ok_def)
  then show ?thesis
    using assms(2) local_step(1,2) set_update_subset_insert[of bs i "(engine, b')"] by (auto simp: brokers_ok_def)
qed (use assms(2) in \<open>auto simp: brokers_ok_def new_broker_ok\<close>)

lemma reachable_brokers_ok: "cluster_reachable dates s \<Longrightarrow> brokers_ok s"
  unfolding cluster_reachable_def
proof (induction rule: rtranclp_induct)
  case base
  show ?case by (simp add: brokers_ok_def)
next
  case (step s s')
  show ?case by (rule brokers_ok_step[OF step(2,3)])
qed

lemma broker_step_marks:
  assumes "broker_step dates engine (store, b) (store', b')"
  shows "marks store \<le> marks store'"
  using assms
proof (cases rule: broker_step_cases)
  case (call_foreground cs cl ds now result)
  then show ?thesis using claim_calls_store[of dates engine store] marks_lease_step by (metis snd_conv)
next
  case (call_maintenance cs cl ds now outcome)
  then show ?thesis
    using marks_lease_step[of store dates "\<lparr>op_key = partition_lease_key (fst (claim_key cl)) (snd (claim_key cl)),
      op_holder = engine_holder_id engine, op_session = engine_lease_session_id engine, op_now = now,
      op_call = AcquireAndReserveCall (wc_lease_duration (engine_config engine))
        (map_option request_size (work_reservation (claim_work cl))) (work_sequence_progress (claim_work cl))\<rparr>"]
    by (simp add: maintenance_call_def lease_step_def)
qed (simp_all add: marks_heartbeat marks_release)

lemma cluster_marks_step:
  assumes "cluster_step dates s s'"
  shows "marks (fst s) k \<le> marks (fst s') k"
  using assms
proof cases
  case (local_step i bs engine b store store' b')
  then show ?thesis using le_funD[OF broker_step_marks[OF local_step(5)], of k] by simp
next
  case (foreign store bs op)
  then show ?thesis using le_funD[OF marks_lease_step[of store dates op], of k] by simp
qed simp

lemma cluster_step_refines:
  assumes "cluster_step dates s s'" "brokers_ok s" "cluster_numbers_ok (cluster_view s)"
    "\<forall>k. marks (fst s) k < 2 ^ 64"
  shows "number_cluster_step (cluster_view s) (cluster_view s')"
  using assms(1)
proof cases
  case (local_step i bs engine b store store' b')
  have mem: "(engine, b) \<in> set bs" using local_step(3,4) by (metis nth_mem)
  have "nb_hand (broker_view b) k \<subseteq> {..< 2 ^ 64 - 1}" for k
  proof
    fix x
    assume "x \<in> nb_hand (broker_view b) k"
    then have "x < marks store k"
      using hand_below[of "marks store" "snd (cluster_view s)" "broker_view b" x k] assms(3) mem local_step(1)
      by (force simp: cluster_numbers_ok_def cluster_view_def)
    moreover have "marks store k < 2 ^ 64" using spec[OF assms(4), of k] local_step(1) by simp
    ultimately show "x \<in> {..< 2 ^ 64 - 1}" by simp
  qed
  then have "number_step (marks store, broker_view b) (marks store', broker_view b')"
    using broker_step_refines[OF local_step(5)] assms(2) mem local_step(1) by (auto simp: brokers_ok_def)
  then show ?thesis
    using number_cluster_step.local_step[of i "snd (cluster_view s)" "marks store" "marks store'" "broker_view b'"]
      local_step(1-4) by (simp add: cluster_view_def map_update)
next
  case (join store bs engine members)
  then show ?thesis by (simp add: cluster_view_def new_broker_view number_cluster_step.join)
next
  case (foreign store bs op)
  then show ?thesis using marks_lease_step by (simp add: cluster_view_def number_cluster_step.advance)
qed

lemma reachable_numbers_ok:
  assumes "cluster_reachable dates s" "\<forall>k. marks (fst s) k < 2 ^ 64"
  shows "cluster_numbers_ok (cluster_view s)"
  using assms unfolding cluster_reachable_def
proof (induction rule: rtranclp_induct)
  case base
  show ?case by (simp add: cluster_numbers_ok_def cluster_view_def used_once_def)
next
  case (step s s')
  have small: "\<forall>k. marks (fst s) k < 2 ^ 64"
    using cluster_marks_step[OF step(2)] step.prems by (meson le_less_trans)
  have "brokers_ok s" using step(1) reachable_brokers_ok by (simp add: cluster_reachable_def)
  from cluster_step_refines[OF step(2) this step.IH[OF small] small] step.IH[OF small] show ?case
    by (rule cluster_numbers_step)
qed

text \<open>
  Claim C4.  A cluster of brokers on one lease store refines the specification of sequence
  numbering: seen as numbers in hand, numbers in claims and numbers of accepted batches, every step
  of the cluster is a step of the specification, as long as no partition has used the last
  sequence number of a \<open>u64\<close>.
\<close>

theorem cluster_refines_numbering:
  assumes "cluster_reachable dates s" "\<forall>k. next_seq_mark (fst s) k < 2 ^ 64" "cluster_step dates s s'"
  shows "number_cluster_step (cluster_view s) (cluster_view s')"
proof -
  have small: "\<forall>k. marks (fst s) k < 2 ^ 64" using assms(2) by (simp add: marks_def)
  show ?thesis
    by (rule cluster_step_refines[OF assms(3) reachable_brokers_ok[OF assms(1)] reachable_numbers_ok[OF assms(1) small] small])
qed

text \<open>
  Claim C1.  Whatever the brokers of a cluster and the other clients of the lease store do, in any
  interleaving, two batches that brokers accepted for the same partition never share a sequence
  number: one range ends before the other starts.
\<close>

theorem accepted_ranges_disjoint:
  assumes "cluster_reachable dates (store, bs)" "\<forall>key. next_seq_mark store key < 2 ^ 64"
    "i < j" "j < length (cluster_accepted (store, bs))"
    "cluster_accepted (store, bs) ! i = (topic, vp, batch)" "cluster_accepted (store, bs) ! j = (topic, vp, batch')"
  shows "seq_end (bb_seq_range batch) < seq_start (bb_seq_range batch')
    \<or> seq_end (bb_seq_range batch') < seq_start (bb_seq_range batch)"
proof -
  have ok: "cluster_numbers_ok (cluster_view (store, bs))"
    using assms(2) by (intro reachable_numbers_ok[OF assms(1)]) (simp add: marks_def)
  let ?vs = "map (broker_view \<circ> snd) bs"
  have acc: "concat (map nb_accepted ?vs) = map batch_numbers (cluster_accepted (store, bs))"
    by (simp add: cluster_accepted_def map_concat comp_def broker_view_def)
  have entries: "concat (map nb_accepted ?vs) ! i = ((topic, vp), range_numbers (bb_seq_range batch))"
    "concat (map nb_accepted ?vs) ! j = ((topic, vp), range_numbers (bb_seq_range batch'))"
    unfolding acc using assms(3-6) by (simp_all add: batch_numbers_def)
  have once: "used_once (marks store, ?vs)" and ord: "\<forall>v \<in> set ?vs. in_order (marks store) v"
    using ok by (simp_all add: cluster_numbers_ok_def cluster_view_def)
  have len: "j < length (concat (map nb_accepted ?vs))" "i < length (concat (map nb_accepted ?vs))"
    unfolding acc using assms(3,4) by simp_all
  have "range_numbers (bb_seq_range batch) \<inter> range_numbers (bb_seq_range batch') = {}"
    by (rule used_twice[OF once assms(3) len(1) entries])
  moreover have "snd p \<noteq> {}" if "p \<in> set (concat (map nb_accepted ?vs))" for p
    using that ord by (auto simp: in_order_def)
  from this[OF nth_mem[OF len(1)]] this[OF nth_mem[OF len(2)]]
  have "range_numbers (bb_seq_range batch) \<noteq> {}" "range_numbers (bb_seq_range batch') \<noteq> {}"
    unfolding entries by simp_all
  ultimately show ?thesis by (auto simp: range_numbers_def word_less_nat_alt)
qed

text \<open>
  Claim C2.  A broker accepts the batches of a partition in the order of their sequence numbers,
  across renewals, lost and regained leases, cancelled requests and failed calls.
\<close>

theorem broker_accepts_in_order:
  assumes "cluster_reachable dates (store, bs)" "\<forall>key. next_seq_mark store key < 2 ^ 64"
    "(engine, b) \<in> set bs" "i < j" "j < length (br_accepted b)"
    "br_accepted b ! i = (topic, vp, batch)" "br_accepted b ! j = (topic, vp, batch')"
  shows "seq_end (bb_seq_range batch) < seq_start (bb_seq_range batch')"
proof -
  have "cluster_numbers_ok (cluster_view (store, bs))"
    using assms(2) by (intro reachable_numbers_ok[OF assms(1)]) (simp add: marks_def)
  then have "\<forall>x \<in> set bs. in_order (marks store) (broker_view (snd x))"
    by (simp add: cluster_numbers_ok_def cluster_view_def)
  from bspec[OF this assms(3)] have ord: "in_order (marks store) (broker_view b)" by simp
  have acc: "nb_accepted (broker_view b) = map batch_numbers (br_accepted b)" by (simp add: broker_view_def)
  have sorted: "sorted_wrt before (map batch_numbers (br_accepted b))"
    and ne: "\<forall>p \<in> set (map batch_numbers (br_accepted b)). snd p \<noteq> {}"
    using ord[unfolded in_order_def acc ball_conj_distrib, THEN conjunct2, THEN conjunct1]
      ord[unfolded in_order_def acc ball_conj_distrib, THEN conjunct2, THEN conjunct2, THEN conjunct1] .
  have len: "i < length (br_accepted b)" using assms(4,5) by simp
  have "before (batch_numbers (br_accepted b ! i)) (batch_numbers (br_accepted b ! j))"
    using sorted_wrt_nth_less[OF sorted assms(4)] len assms(5) by simp
  moreover have "batch_numbers (br_accepted b ! i) \<in> set (map batch_numbers (br_accepted b))"
    "batch_numbers (br_accepted b ! j) \<in> set (map batch_numbers (br_accepted b))"
    using len assms(5) by simp_all
  from bspec[OF ne this(1)] bspec[OF ne this(2)]
  have "snd (batch_numbers (br_accepted b ! i)) \<noteq> {}" "snd (batch_numbers (br_accepted b ! j)) \<noteq> {}" .
  ultimately show ?thesis
    unfolding assms(6,7) batch_numbers_def before_def fst_conv snd_conv by (intro range_numbers_before) simp_all
qed

text \<open>
  Claim C3.  No accepted request is lost or answered twice: at every moment the requests a broker
  accepted are, each exactly once, in a buffer, in a running flush plan, or answered.
\<close>

theorem accepted_requests_accounted:
  assumes "cluster_reachable dates (store, bs)" "(engine, b) \<in> set bs"
  shows "tagged_completions (mset (br_accepted b))
    = tagged_completions (buffered (br_state b))
      + (\<Sum>pl\<leftarrow>br_plans b. tagged_completions (planned (plan_topics pl))) + mset (map fst (br_answers b))"
proof -
  have "requests_accounted b"
    using bspec[OF reachable_brokers_ok[OF assms(1), unfolded brokers_ok_def snd_conv] assms(2)] by (simp add: broker_ok_def)
  then show ?thesis by (simp only: requests_accounted_def in_plans_def)
qed

section \<open>A concrete cluster\<close>

text \<open>
  Two brokers that serve the same partition, the second after the lease of the first has expired;
  the first accepts two requests, the second one.
\<close>

definition sample_publish :: "LeaseStore \<times> broker \<Rightarrow> LeaseStore \<times> broker" where
  "sample_publish s = (fst s, (snd s)\<lparr>br_state :=
     snd (publish_assignment ((br_state (snd s))\<lparr>membership := Pending\<rparr>) [(''t'', 0)])\<rparr>)"

definition sample_claim :: "WriteEngineImpl \<Rightarrow> instant \<Rightarrow> LeaseStore \<times> broker \<Rightarrow> LeaseStore \<times> broker" where
  "sample_claim engine now s =
     (case begin_allocation_transition (br_state (snd s)) ''t'' 0 2 now False (wc_reservation_size (engine_config engine)) of
        (Claimed w, st1) \<Rightarrow>
          (case claim_calls (0, 10 ^ 15) engine (fst s) ''t'' 0 now w of
             (result, store') \<Rightarrow>
               (case finish_claim st1 w result of
                  (error, msgs, st2) \<Rightarrow> (store', (snd s)\<lparr>br_state := st2, br_answers := br_answers (snd s) @ msgs\<rparr>)))
      | (_, st1) \<Rightarrow> (fst s, (snd s)\<lparr>br_state := st1\<rparr>))"

definition sample_produce :: "WriteEngineImpl \<Rightarrow> instant \<Rightarrow> FlushCompletion \<Rightarrow> LeaseStore \<times> broker \<Rightarrow> LeaseStore \<times> broker" where
  "sample_produce engine now c s =
     (case buffer_attempt (br_state (snd s)) ''t'' 0 (request_records sample_request)
             \<lparr>record_count = 2, summary_payload_bytes = 2\<rparr> (engine_flush_config engine) c now of
        (outcome, st') \<Rightarrow>
          (fst s, (snd s)\<lparr>br_state := st', br_accepted := br_accepted (snd s)
             @ accepted_by outcome (br_state (snd s)) ''t'' 0 (request_records sample_request)
                 \<lparr>record_count = 2, summary_payload_bytes = 2\<rparr> c\<rparr>))"

definition sample_engine_of :: "string \<Rightarrow> WriteEngineImpl" where
  "sample_engine_of h = sample_engine\<lparr>engine_holder_id := h, engine_config := with_defaults\<lparr>wc_reservation_size := 10\<rparr>\<rparr>"

definition sample_first :: "LeaseStore \<times> broker" where
  "sample_first = sample_produce (sample_engine_of ''a'') 0 8 (sample_produce (sample_engine_of ''a'') 0 7
     (sample_claim (sample_engine_of ''a'') 0 (sample_publish ([], new_broker Pending))))"

definition sample_second :: "LeaseStore \<times> broker" where
  "sample_second = sample_produce (sample_engine_of ''b'') (10 ^ 14) 9
     (sample_claim (sample_engine_of ''b'') (10 ^ 14) (sample_publish (fst sample_first, new_broker Pending)))"

definition sample_cluster :: cluster where
  "sample_cluster = (fst sample_second,
     [(sample_engine_of ''a'', snd sample_first), (sample_engine_of ''b'', snd sample_second)])"

lemma sample_publish_step: "broker_step dates engine s (sample_publish s)"
proof -
  obtain g st' where p: "publish_assignment ((br_state (snd s))\<lparr>membership := Pending\<rparr>) [(''t'', 0)] = (g, st')" by force
  from broker_step.publish[OF p, of dates engine "fst s"] show ?thesis using p by (simp add: sample_publish_def)
qed

lemma sample_produce_step:
  assumes "engine_topics engine = sample_topics"
  shows "broker_step dates engine s (sample_produce engine now c s)"
proof -
  obtain store b where s: "s = (store, b)" by force
  have v: "validate_request (engine_topics engine) False sample_request = Inr \<lparr>record_count = 2, summary_payload_bytes = 2\<rparr>"
    by (simp add: assms validate_request_def sample_request_def sample_topics_def is_valid_partition_def
        summary_from_records_def new_record_def try_from_nat_def saturating_mul_def)
  obtain outcome st' where at: "buffer_attempt (br_state b) (request_topic sample_request)
      (request_virtual_partition_id sample_request) (request_records sample_request)
      \<lparr>record_count = 2, summary_payload_bytes = 2\<rparr> (engine_flush_config engine) c now = (outcome, st')" by force
  have "sample_produce engine now c s = (store, b\<lparr>br_state := st', br_accepted := br_accepted b
      @ accepted_by outcome (br_state b) (request_topic sample_request) (request_virtual_partition_id sample_request)
          (request_records sample_request) \<lparr>record_count = 2, summary_payload_bytes = 2\<rparr> c\<rparr>)"
    using at by (simp add: sample_produce_def s sample_request_def)
  then show ?thesis unfolding s by (simp add: broker_step.produce[OF v at])
qed

lemma sample_claim_steps:
  assumes "engine_topics engine = sample_topics" "br_claims (snd s) = []"
  shows "(broker_step (0, 10 ^ 15) engine)\<^sup>*\<^sup>* s (sample_claim engine now s)"
proof -
  obtain store b where s: "s = (store, b)" by force
  have topic: "hm_get (engine_topics engine) (fst (''t'', 0 :: VirtualPartitionId)) \<noteq> None"
    by (simp add: assms(1) sample_topics_def)
  obtain d st1 where d: "begin_allocation_transition (br_state b) (fst (''t'', 0 :: VirtualPartitionId)) (snd (''t'', 0 :: VirtualPartitionId)) 2 now False
      (wc_reservation_size (engine_config engine)) = (d, st1)" by force
  note first = broker_step.claim[OF topic d, of "(0, 10 ^ 15)" store]
  show ?thesis
  proof (cases "\<exists>w. d = Claimed w")
    case True
    then obtain w where w: "d = Claimed w" by blast
    let ?cl = "\<lparr>claim_key = (''t'', 0), claim_work = w, claim_renews = False, claim_phase_of = Asked\<rparr>"
    let ?b1 = "b\<lparr>br_state := st1, br_claims := [?cl]\<rparr>"
    obtain result store' where call: "claim_calls (0, 10 ^ 15) engine store ''t'' 0 now w = (result, store')" by force
    let ?b2 = "b\<lparr>br_state := st1, br_claims := [?cl\<lparr>claim_phase_of := ForegroundDone result\<rparr>]\<rparr>"
    obtain error msgs st2 where fin: "finish_claim st1 w result = (error, msgs, st2)" by (metis prod_cases3)
    let ?b3 = "b\<lparr>br_state := st2, br_claims := [], br_answers := br_answers b @ msgs\<rparr>"
    have "broker_step (0, 10 ^ 15) engine (store, b) (store, ?b1)"
      using first assms(2) by (simp add: s w new_claims_def)
    moreover have "broker_step (0, 10 ^ 15) engine (store, ?b1) (store', ?b2)"
      using broker_step.call_foreground[of ?b1 "[]" ?cl "[]" "(0, 10 ^ 15)" engine store now result store'] call by simp
    moreover have "broker_step (0, 10 ^ 15) engine (store', ?b2) (store', ?b3)"
      using broker_step.finish_foreground[of ?b2 "[]" "?cl\<lparr>claim_phase_of := ForegroundDone result\<rparr>" "[]" result error msgs st2
          "(0, 10 ^ 15)" engine store'] fin by simp
    ultimately have run: "(broker_step (0, 10 ^ 15) engine)\<^sup>*\<^sup>* (store, b) (store', ?b3)"
      by (meson r_into_rtranclp rtranclp_trans)
    have "?b3 = b\<lparr>br_state := st2, br_answers := br_answers b @ msgs\<rparr>"
      using assms(2) by (simp add: s)
    then have "sample_claim engine now s = (store', ?b3)"
      using d w call fin by (simp add: sample_claim_def s)
    with run show ?thesis by (simp add: s)
  next
    case False
    then have "sample_claim engine now s = (store, b\<lparr>br_state := st1\<rparr>)" "new_claims (''t'', 0) False d = []"
      using d by (auto simp: sample_claim_def s new_claims_def split: AllocationTransitionDecision.splits)
    then show ?thesis using first by (simp add: s r_into_rtranclp)
  qed
qed

text \<open>A run of one broker is a run of the cluster.\<close>

lemma cluster_run_local:
  assumes "(broker_step dates engine)\<^sup>*\<^sup>* s s'" "i < length bs" "bs ! i = (engine, snd s)"
  shows "(cluster_step dates)\<^sup>*\<^sup>* (fst s, bs) (fst s', bs[i := (engine, snd s')])"
  using assms(1)
proof (induction rule: rtranclp_induct)
  case base
  have "bs[i := (engine, snd s)] = bs" using assms(3) by (metis list_update_id)
  then show ?case by simp
next
  case (step s1 s2)
  have "cluster_step dates (fst s1, bs[i := (engine, snd s1)]) (fst s2, (bs[i := (engine, snd s1)])[i := (engine, snd s2)])"
    using step(2) assms(2) by (intro cluster_step.local_step) auto
  with step.IH show ?case by simp
qed

lemma sample_run_steps:
  assumes "engine_topics engine = sample_topics" "br_claims b = []"
  shows "(broker_step (0, 10 ^ 15) engine)\<^sup>*\<^sup>* (store, b) (sample_produce engine now c (sample_claim engine now (sample_publish (store, b))))"
proof -
  have "(broker_step (0, 10 ^ 15) engine)\<^sup>*\<^sup>* (store, b) (sample_publish (store, b))" by (rule r_into_rtranclp) (rule sample_publish_step)
  also have "(broker_step (0, 10 ^ 15) engine)\<^sup>*\<^sup>* (sample_publish (store, b)) (sample_claim engine now (sample_publish (store, b)))"
    by (rule sample_claim_steps[OF assms(1)]) (simp add: sample_publish_def assms(2))
  also have "(broker_step (0, 10 ^ 15) engine)\<^sup>*\<^sup>* (sample_claim engine now (sample_publish (store, b)))
      (sample_produce engine now c (sample_claim engine now (sample_publish (store, b))))"
    by (rule r_into_rtranclp) (rule sample_produce_step[OF assms(1)])
  finally show ?thesis .
qed

lemma sample_cluster_reachable: "cluster_reachable (0, 10 ^ 15) sample_cluster"
proof -
  let ?a = "sample_engine_of ''a''" and ?b = "sample_engine_of ''b''" and ?new = "new_broker Pending"
  let ?run = "(cluster_step (0, 10 ^ 15))\<^sup>*\<^sup>*"
  have topics: "engine_topics (sample_engine_of h) = sample_topics" for h by (simp add: sample_engine_of_def sample_engine_def)
  have new: "br_claims ?new = []" by (simp add: new_broker_def)
  have "(broker_step (0, 10 ^ 15) ?a)\<^sup>*\<^sup>* ([], ?new) sample_first"
    unfolding sample_first_def
    by (rule rtranclp.rtrancl_into_rtrancl[OF sample_run_steps[OF topics new] sample_produce_step[OF topics]])
  then have first: "?run ([], [(?a, ?new)]) (fst sample_first, [(?a, snd sample_first)])"
    using cluster_run_local[of _ ?a "([], ?new)" sample_first 0 "[(?a, ?new)]"] by simp
  have "(broker_step (0, 10 ^ 15) ?b)\<^sup>*\<^sup>* (fst sample_first, ?new) sample_second"
    unfolding sample_second_def by (rule sample_run_steps[OF topics new])
  then have second: "?run (fst sample_first, [(?a, snd sample_first), (?b, ?new)]) sample_cluster"
    using cluster_run_local[of _ ?b "(fst sample_first, ?new)" sample_second 1 "[(?a, snd sample_first), (?b, ?new)]"]
    by (simp add: sample_cluster_def)
  have "cluster_step (0, 10 ^ 15) ([], []) ([], [(?a, ?new)])"
    by (rule cluster_step.join[of _ _ "[]", unfolded append_Nil])
  moreover have "cluster_step (0, 10 ^ 15) (fst sample_first, [(?a, snd sample_first)])
      (fst sample_first, [(?a, snd sample_first), (?b, ?new)])"
    by (rule cluster_step.join[of _ _ "[_]", unfolded append_Cons append_Nil])
  ultimately show ?thesis unfolding cluster_reachable_def
    by (intro converse_rtranclp_into_rtranclp[OF _ rtranclp_trans[OF first converse_rtranclp_into_rtranclp[OF _ second]]])
qed

lemma marks_below_max:
  assumes "list_all (\<lambda>(_, row). max_allocated_seq row \<noteq> Some (- 1)) store"
  shows "\<forall>key. next_seq_mark store key < 2 ^ 64"
proof
  fix key
  show "next_seq_mark store key < 2 ^ 64"
  proof (cases "hm_get store key")
    case (Some row)
    then have "max_allocated_seq row \<noteq> Some (- 1)" using assms map_of_SomeD[OF Some] by (auto simp: list_all_iff)
    moreover have "unat m + 1 < 2 ^ 64" if "m \<noteq> - 1" for m :: u64
      using that unsigned_less[of m, where ?'a = nat] unat_max_word[where ?'a = 64] word_unat_eq_iff[of m "- 1"] by simp
    ultimately show ?thesis using Some by (auto simp: next_seq_mark_def split: option.splits)
  qed (simp add: next_seq_mark_def)
qed

lemma sample_cluster_marks: "\<forall>key. next_seq_mark (fst sample_cluster) key < 2 ^ 64"
  by (rule marks_below_max) code_simp

lemma sample_cluster_ranges:
  "map (\<lambda>(t, v, b). (t, v, bb_seq_range b)) (cluster_accepted sample_cluster)
     = [(''t'', 0, \<lparr>seq_start = 0, seq_end = 1\<rparr>), (''t'', 0, \<lparr>seq_start = 2, seq_end = 3\<rparr>),
        (''t'', 0, \<lparr>seq_start = 10, seq_end = 11\<rparr>)]"
  by code_simp

lemma sample_cluster_batches:
  obtains b0 b1 b2 where "cluster_accepted sample_cluster = [(''t'', 0, b0), (''t'', 0, b1), (''t'', 0, b2)]"
  using sample_cluster_ranges that by (auto simp: map_eq_Cons_conv split_def prod_eq_iff)

lemma sample_cluster_parts:
  "snd sample_cluster = [(sample_engine_of ''a'', snd sample_first), (sample_engine_of ''b'', snd sample_second)]"
  by (simp add: sample_cluster_def)

lemma sample_first_batches:
  obtains b0 b1 where "br_accepted (snd sample_first) = [(''t'', 0, b0), (''t'', 0, b1)]"
proof -
  have "map (\<lambda>(t, v, b). (t, v, bb_seq_range b)) (br_accepted (snd sample_first))
     = [(''t'', 0, \<lparr>seq_start = 0, seq_end = 1\<rparr>), (''t'', 0, \<lparr>seq_start = 2, seq_end = 3\<rparr>)]" by code_simp
  then show thesis using that by (auto simp: map_eq_Cons_conv split_def prod_eq_iff)
qed

theorem cluster_refines_numbering_witness:
  "cluster_reachable (0, 10 ^ 15) sample_cluster
   \<and> number_cluster_step (cluster_view sample_cluster)
       (cluster_view (fst sample_cluster, snd sample_cluster @ [(sample_engine, new_broker Pending)]))"
proof
  have "cluster_step (0, 10 ^ 15) sample_cluster (fst sample_cluster, snd sample_cluster @ [(sample_engine, new_broker Pending)])"
    using cluster_step.join[of "(0, 10 ^ 15)" "fst sample_cluster" "snd sample_cluster" sample_engine Pending] by (simp only: prod.collapse)
  from cluster_refines_numbering[OF sample_cluster_reachable sample_cluster_marks this]
  show "number_cluster_step (cluster_view sample_cluster)
       (cluster_view (fst sample_cluster, snd sample_cluster @ [(sample_engine, new_broker Pending)]))" .
qed (rule sample_cluster_reachable)

theorem accepted_ranges_disjoint_witness:
  "\<exists>batch batch'. cluster_accepted sample_cluster ! 0 = (''t'', 0, batch)
     \<and> cluster_accepted sample_cluster ! 2 = (''t'', 0, batch')
     \<and> (seq_end (bb_seq_range batch) < seq_start (bb_seq_range batch')
        \<or> seq_end (bb_seq_range batch') < seq_start (bb_seq_range batch))"
proof -
  obtain b0 b1 b2 where acc: "cluster_accepted sample_cluster = [(''t'', 0, b0), (''t'', 0, b1), (''t'', 0, b2)]"
    by (rule sample_cluster_batches)
  have "seq_end (bb_seq_range b0) < seq_start (bb_seq_range b2) \<or> seq_end (bb_seq_range b2) < seq_start (bb_seq_range b0)"
    by (rule accepted_ranges_disjoint[of "(0, 10 ^ 15)" "fst sample_cluster" "snd sample_cluster" 0 2 "''t''" 0])
      (simp_all only: prod.collapse sample_cluster_reachable sample_cluster_marks acc, simp_all)
  then show ?thesis using acc by simp
qed

theorem broker_accepts_in_order_witness:
  "\<exists>batch batch'. br_accepted (snd sample_first) = [(''t'', 0, batch), (''t'', 0, batch')]
     \<and> seq_end (bb_seq_range batch) < seq_start (bb_seq_range batch')"
proof -
  obtain b0 b1 where acc: "br_accepted (snd sample_first) = [(''t'', 0, b0), (''t'', 0, b1)]"
    by (rule sample_first_batches)
  have mem: "(sample_engine_of ''a'', snd sample_first) \<in> set (snd sample_cluster)" by (simp add: sample_cluster_parts)
  have "seq_end (bb_seq_range b0) < seq_start (bb_seq_range b1)"
    by (rule broker_accepts_in_order[OF _ sample_cluster_marks mem, of "(0, 10 ^ 15)" 0 1 "''t''" 0])
      (simp_all only: prod.collapse sample_cluster_reachable acc, simp_all)
  with acc show ?thesis by blast
qed

theorem accepted_requests_accounted_witness:
  "tagged_completions (mset (br_accepted (snd sample_first)))
    = tagged_completions (buffered (br_state (snd sample_first)))
      + (\<Sum>pl\<leftarrow>br_plans (snd sample_first). tagged_completions (planned (plan_topics pl)))
      + mset (map fst (br_answers (snd sample_first)))"
proof -
  have mem: "(sample_engine_of ''a'', snd sample_first) \<in> set (snd sample_cluster)" by (simp add: sample_cluster_parts)
  show ?thesis
    by (rule accepted_requests_accounted[OF _ mem, of "(0, 10 ^ 15)" "fst sample_cluster"])
      (simp only: prod.collapse sample_cluster_reachable)
qed

end
