(* ===== verification/Flush_Packing.thy ===== *)
theory Flush_Packing
  imports Prelude
begin

text \<open>
  The packing of encoded partitions into blob objects (\<open>write/flush.rs\<close>): the sliding window that
  computes the least number of objects for every suffix, and the target-filled groups.  The
  specification is a packing of consecutive partitions into objects within the cap, where a single
  item may exceed it.
\<close>

section \<open>Least object counts\<close>

text \<open>The inner loop: extend the window while the next partition fits.\<close>

function grow_object :: "u64 list \<Rightarrow> u64 \<Rightarrow> nat \<Rightarrow> u64 \<Rightarrow> nat \<times> u64" where
  "grow_object partition_bytes cap object_end object_bytes =
     (if object_end < length partition_bytes \<and> partition_bytes ! object_end \<le> cap
         \<and> saturating_add object_bytes (partition_bytes ! object_end) \<le> cap
      then grow_object partition_bytes cap (object_end + 1)
             (saturating_add object_bytes (partition_bytes ! object_end))
      else (object_end, object_bytes))"
  by pat_completeness auto
termination
  by (relation "measure (\<lambda>(bs, _, e, _). length bs - e)") auto

declare grow_object.simps [simp del]

text \<open>One turn of the outer loop, for the object that starts at the index.\<close>

definition object_start_step ::
    "u64 list \<Rightarrow> u64 \<Rightarrow> nat \<Rightarrow> nat \<times> u64 \<times> nat list \<Rightarrow> nat \<times> u64 \<times> nat list" where
  "object_start_step partition_bytes cap object_start s =
     (case s of (object_end, object_bytes, next_object_start) \<Rightarrow>
        if object_end = object_start \<and> cap < partition_bytes ! object_start
        then (object_end + 1, object_bytes, next_object_start[object_start := object_start + 1])
        else
          let (object_end, object_bytes) =
                (if object_end = object_start then (object_end + 1, partition_bytes ! object_start)
                 else (object_end, object_bytes));
              (object_end, object_bytes) = grow_object partition_bytes cap object_end object_bytes
          in (object_end, saturating_sub object_bytes (partition_bytes ! object_start),
              next_object_start[object_start := object_end]))"

definition next_object_starts :: "u64 list \<Rightarrow> u64 \<Rightarrow> nat list" where
  "next_object_starts partition_bytes cap =
     snd (snd (fold (object_start_step partition_bytes cap) [0 ..< length partition_bytes]
       (0, 0, replicate (length partition_bytes) (length partition_bytes))))"

definition minimum_suffix_object_counts :: "u64 list \<Rightarrow> u64 \<Rightarrow> u64 list" where
  "minimum_suffix_object_counts partition_bytes max_segment_bytes =
     fold (\<lambda>object_start counts.
         counts[object_start := saturating_add (counts ! (next_object_starts partition_bytes max_segment_bytes ! object_start)) 1])
       (rev [0 ..< length partition_bytes]) (replicate (length partition_bytes + 1) 0)"

section \<open>Target-filled groups\<close>

record 'a TargetFillGroup =
  group_first :: 'a
  group_remaining :: "'a list"

definition abs_diff :: "u64 \<Rightarrow> u64 \<Rightarrow> u64" where
  "abs_diff a b = (if a \<le> b then b - a else a - b)"

text \<open>\<open>div_ceil\<close> panics on a zero divisor.\<close>

definition div_ceil :: "u64 \<Rightarrow> u64 \<Rightarrow> u64 option" where
  "div_ceil a b = (if b = 0 then None else Some (if a mod b = 0 then a div b else a div b + 1))"

record 'a fill_state =
  fill_groups :: "'a TargetFillGroup list"
  fill_remaining_object_count :: u64
  fill_current_bytes :: u64
  fill_current_group :: "'a TargetFillGroup"
  fill_remaining_bytes :: u64

definition close_group :: "'a fill_state \<Rightarrow> u64 \<Rightarrow> 'a \<Rightarrow> 'a fill_state" where
  "close_group s partition_bytes item =
     s\<lparr>fill_groups := fill_groups s @ [fill_current_group s],
       fill_remaining_object_count := saturating_sub (fill_remaining_object_count s) 1,
       fill_current_bytes := partition_bytes,
       fill_current_group := \<lparr>group_first = item, group_remaining = []\<rparr>\<rparr>"

definition fill_partition :: "u64 list \<Rightarrow> u64 \<Rightarrow> nat \<Rightarrow> u64 \<times> 'a \<Rightarrow> 'a fill_state \<Rightarrow> 'a fill_state option" where
  "fill_partition counts cap index part s =
     (case part of (partition_bytes, item) \<Rightarrow>
        map_option (\<lambda>s'. s'\<lparr>fill_remaining_bytes := saturating_sub (fill_remaining_bytes s') partition_bytes\<rparr>)
          (if cap < saturating_add (fill_current_bytes s) partition_bytes
           then Some (close_group s partition_bytes item)
           else
             let candidate_bytes = saturating_add (fill_current_bytes s) partition_bytes
             in case div_ceil (saturating_add (fill_current_bytes s) (fill_remaining_bytes s))
                       (fill_remaining_object_count s) of
                  None \<Rightarrow> None
                | Some target_bytes \<Rightarrow>
                    if counts ! index \<le> saturating_sub (fill_remaining_object_count s) 1
                       \<and> abs_diff (fill_current_bytes s) target_bytes < abs_diff candidate_bytes target_bytes
                    then Some (close_group s partition_bytes item)
                    else Some (s\<lparr>fill_current_bytes := candidate_bytes,
                      fill_current_group := (fill_current_group s)\<lparr>group_remaining :=
                        group_remaining (fill_current_group s) @ [item]\<rparr>\<rparr>)))"

fun fill_partitions :: "u64 list \<Rightarrow> u64 \<Rightarrow> nat \<Rightarrow> (u64 \<times> 'a) list \<Rightarrow> 'a fill_state \<Rightarrow> 'a fill_state option" where
  "fill_partitions counts cap index [] s = Some s"
| "fill_partitions counts cap index (p # ps) s =
     (case fill_partition counts cap index p s of
        None \<Rightarrow> None
      | Some s' \<Rightarrow> fill_partitions counts cap (index + 1) ps s')"

definition target_fill_object_groups :: "(u64 \<times> 'a) list \<Rightarrow> u64 \<Rightarrow> 'a TargetFillGroup list option" where
  "target_fill_object_groups partitions max_segment_bytes =
     (case partitions of
        [] \<Rightarrow> Some []
      | (first_bytes, first_partition) # rest \<Rightarrow>
          let counts = minimum_suffix_object_counts (map fst partitions) max_segment_bytes
          in map_option (\<lambda>s. fill_groups s @ [fill_current_group s])
               (fill_partitions counts max_segment_bytes 1 rest
                  \<lparr>fill_groups = [], fill_remaining_object_count = counts ! 0, fill_current_bytes = first_bytes,
                   fill_current_group = \<lparr>group_first = first_partition, group_remaining = []\<rparr>,
                   fill_remaining_bytes =
                     saturating_sub (fold (\<lambda>b acc. saturating_add acc b) (map fst partitions) 0) first_bytes\<rparr>))"

section \<open>The specification of a packing\<close>

definition object_fits :: "nat \<Rightarrow> nat list \<Rightarrow> bool" where
  "object_fits cap xs \<longleftrightarrow> xs \<noteq> [] \<and> (length xs = 1 \<or> sum_list xs \<le> cap)"

definition is_packing :: "nat \<Rightarrow> nat list \<Rightarrow> nat list list \<Rightarrow> bool" where
  "is_packing cap xs gs \<longleftrightarrow> concat gs = xs \<and> (\<forall>g \<in> set gs. object_fits cap g)"

definition least_objects :: "nat \<Rightarrow> nat list \<Rightarrow> nat" where
  "least_objects cap xs = (LEAST n. \<exists>gs. is_packing cap xs gs \<and> length gs = n)"

lemma trivial_packing: "is_packing cap xs (map (\<lambda>x. [x]) xs)"
  by (induction xs) (auto simp: is_packing_def object_fits_def)

lemma least_objects_packing:
  obtains gs where "is_packing cap xs gs" "length gs = least_objects cap xs"
  using LeastI[of "\<lambda>n. \<exists>gs. is_packing cap xs gs \<and> length gs = n"] trivial_packing[of cap xs]
  unfolding least_objects_def by blast

lemma least_objects_le: "is_packing cap xs gs \<Longrightarrow> least_objects cap xs \<le> length gs"
  unfolding least_objects_def by (rule Least_le) blast

lemma least_objects_Nil [simp]: "least_objects cap [] = 0"
  using least_objects_le[of cap "[]" "[]"] by (simp add: is_packing_def)

lemma object_fits_tl: "object_fits cap g \<Longrightarrow> tl g \<noteq> [] \<Longrightarrow> object_fits cap (tl g)"
  by (cases g) (auto simp: object_fits_def)

text \<open>Fewer partitions never need more objects.\<close>

lemma least_objects_tl: "least_objects cap (tl xs) \<le> least_objects cap xs"
proof -
  obtain gs where gs: "is_packing cap xs gs" "length gs = least_objects cap xs" by (rule least_objects_packing)
  show ?thesis
  proof (cases gs)
    case Nil
    then show ?thesis using gs by (auto simp: is_packing_def)
  next
    case (Cons g rest)
    have g: "g \<noteq> []" "object_fits cap g" using gs(1) Cons by (auto simp: is_packing_def object_fits_def)
    show ?thesis
    proof (cases "tl g = []")
      case True
      then have "is_packing cap (tl xs) rest" using gs(1) Cons g by (cases g) (auto simp: is_packing_def)
      then show ?thesis using least_objects_le gs(2) Cons by fastforce
    next
      case False
      then have "is_packing cap (tl xs) (tl g # rest)"
        using gs(1) Cons g object_fits_tl[OF g(2)] by (cases g) (auto simp: is_packing_def)
      then show ?thesis using least_objects_le gs(2) Cons by fastforce
    qed
  qed
qed

lemma least_objects_drop: "i \<le> j \<Longrightarrow> least_objects cap (drop j xs) \<le> least_objects cap (drop i xs)"
proof (induction j)
  case (Suc j)
  then show ?case
    using least_objects_tl[of cap "drop j xs"] by (cases "i = Suc j") (auto simp: drop_Suc tl_drop)
qed simp

text \<open>The greedy object from the front: as many partitions as fit, at least one.\<close>

definition greedy_object :: "nat \<Rightarrow> nat list \<Rightarrow> nat \<Rightarrow> bool" where
  "greedy_object cap xs k \<longleftrightarrow> 0 < k \<and> k \<le> length xs \<and> object_fits cap (take k xs)
     \<and> (k < length xs \<longrightarrow> \<not> object_fits cap (take (k + 1) xs))"

lemma object_fits_take:
  assumes "object_fits cap (take m xs)" "0 < k" "k \<le> m"
  shows "object_fits cap (take k xs)"
proof -
  have "take m xs = take k xs @ take (m - k) (drop k xs)"
    using assms(3) by (metis le_add_diff_inverse take_add)
  with assms show ?thesis by (auto simp: object_fits_def)
qed

lemma least_objects_greedy:
  assumes "greedy_object cap xs k"
  shows "least_objects cap xs = least_objects cap (drop k xs) + 1"
proof (rule antisym)
  obtain gs where gs: "is_packing cap (drop k xs) gs" "length gs = least_objects cap (drop k xs)"
    by (rule least_objects_packing)
  have "is_packing cap xs (take k xs # gs)" using gs(1) assms by (auto simp: is_packing_def greedy_object_def)
  from least_objects_le[OF this] gs(2) show "least_objects cap xs \<le> least_objects cap (drop k xs) + 1" by simp
next
  obtain gs where gs: "is_packing cap xs gs" "length gs = least_objects cap xs" by (rule least_objects_packing)
  have "xs \<noteq> []" using assms by (auto simp: greedy_object_def)
  then obtain g rest where split: "gs = g # rest" using gs(1) by (cases gs) (auto simp: is_packing_def)
  have g: "object_fits cap g" "xs = g @ concat rest" using gs(1) split by (auto simp: is_packing_def)
  have "length g \<le> k"
  proof (rule ccontr)
    assume "\<not> length g \<le> k"
    then have "object_fits cap (take (k + 1) xs)" "k < length xs"
      using g object_fits_take[of cap "length g" xs "k + 1"] by auto
    then show False using assms by (simp add: greedy_object_def)
  qed
  then have "least_objects cap (drop k xs) \<le> least_objects cap (drop (length g) xs)" by (rule least_objects_drop)
  also have "\<dots> \<le> length rest" using gs(1) split g(2) by (intro least_objects_le) (auto simp: is_packing_def)
  finally show "least_objects cap (drop k xs) + 1 \<le> least_objects cap xs" using gs(2) split by simp
qed

section \<open>The window computes greedy objects\<close>

definition window_sum :: "nat list \<Rightarrow> nat \<Rightarrow> nat \<Rightarrow> nat" where
  "window_sum xs i e = sum_list (take (e - i) (drop i xs))"

lemma window_sum_step: "i \<le> e \<Longrightarrow> e < length xs \<Longrightarrow> window_sum xs i (e + 1) = window_sum xs i e + xs ! e"
  by (simp add: window_sum_def Suc_diff_le take_Suc_conv_app_nth)

lemma window_sum_first: "i < e \<Longrightarrow> e \<le> length xs \<Longrightarrow> window_sum xs i e = xs ! i + window_sum xs (i + 1) e"
proof -
  assume "i < e" "e \<le> length xs"
  then have "drop i xs = xs ! i # drop (i + 1) xs" "e - i = Suc (e - (i + 1))" by (simp_all add: Cons_nth_drop_Suc)
  then show ?thesis by (simp add: window_sum_def)
qed

lemma window_sum_self [simp]: "window_sum xs i i = 0"
  by (simp add: window_sum_def)

lemma saturating_add_le_cap:
  assumes "unat (cap :: u64) < 2 ^ 64 - 1"
  shows "saturating_add a b \<le> cap \<longleftrightarrow> unat a + unat b \<le> unat cap"
    and "unat a + unat b \<le> unat cap \<Longrightarrow> unat (saturating_add a b) = unat a + unat b"
  using assms by (auto simp: word_le_nat_alt unat_saturating_add)

lemma grow_object_spec:
  assumes "grow_object bs cap e ob = (e', ob')" "unat cap < 2 ^ 64 - 1" "i \<le> e" "e \<le> length bs"
    "unat ob = window_sum (map unat bs) i e" "unat ob \<le> unat cap"
  shows "e \<le> e' \<and> e' \<le> length bs \<and> unat ob' = window_sum (map unat bs) i e' \<and> unat ob' \<le> unat cap
    \<and> (e' < length bs \<longrightarrow> unat cap < window_sum (map unat bs) i (e' + 1))"
  using assms
proof (induction bs cap e ob arbitrary: e' ob' rule: grow_object.induct)
  case (1 bs cap e ob)
  note sat = saturating_add_le_cap[OF 1(3)]
  show ?case
  proof (cases "e < length bs \<and> bs ! e \<le> cap \<and> saturating_add ob (bs ! e) \<le> cap")
    case True
    then have sum: "unat ob + unat (bs ! e) \<le> unat cap" using sat(1) by simp
    have step: "window_sum (map unat bs) i (e + 1) = window_sum (map unat bs) i e + unat (bs ! e)"
      using window_sum_step[of i e "map unat bs"] 1(4) True by simp
    have "grow_object bs cap (e + 1) (saturating_add ob (bs ! e)) = (e', ob')"
      using 1(2) True by (simp add: grow_object.simps[of bs cap e])
    from 1(1)[OF True this 1(3)] show ?thesis
      using 1(4-7) True sum sat(2)[OF sum] step by simp
  next
    case False
    then have out: "e' = e" "ob' = ob" using 1(2) by (auto simp: grow_object.simps[of bs cap e] split: if_splits)
    have "unat cap < unat ob + unat (bs ! e)" if "e < length bs"
      using False that sat(1)[of ob "bs ! e"] by (auto simp: word_le_nat_alt)
    then show ?thesis using 1 out window_sum_step[of i e "map unat bs"] by auto
  qed
qed

definition window_ok :: "u64 list \<Rightarrow> u64 \<Rightarrow> nat \<Rightarrow> nat \<times> u64 \<times> nat list \<Rightarrow> bool" where
  "window_ok bs cap i s \<longleftrightarrow> (case s of (e, ob, nexts) \<Rightarrow>
     length nexts = length bs
     \<and> (e = i \<or> i < e \<and> e \<le> length bs \<and> unat ob = window_sum (map unat bs) i e \<and> unat ob \<le> unat cap)
     \<and> (\<forall>j < i. j < nexts ! j \<and> nexts ! j \<le> length bs
          \<and> greedy_object (unat cap) (drop j (map unat bs)) (nexts ! j - j)))"

lemma greedy_window:
  assumes "i < e" "e \<le> length xs" "window_sum xs i e \<le> cap \<or> e = i + 1"
    "e < length xs \<longrightarrow> cap < window_sum xs i (e + 1)"
  shows "greedy_object cap (drop i xs) (e - i)"
  using assms by (auto simp: greedy_object_def object_fits_def window_sum_def Suc_diff_le)

lemma object_start_step_ok:
  assumes "window_ok bs cap i s" "i < length bs" "unat cap < 2 ^ 64 - 1"
  shows "window_ok bs cap (i + 1) (object_start_step bs cap i s)"
proof -
  obtain e ob nexts where s: "s = (e, ob, nexts)" by (cases s)
  have len: "length nexts = length bs"
    and win: "e = i \<or> i < e \<and> e \<le> length bs \<and> unat ob = window_sum (map unat bs) i e \<and> unat ob \<le> unat cap"
    and old: "\<forall>j < i. j < nexts ! j \<and> nexts ! j \<le> length bs
          \<and> greedy_object (unat cap) (drop j (map unat bs)) (nexts ! j - j)"
    using assms(1) by (simp_all add: window_ok_def s)
  have one: "window_sum (map unat bs) i (i + 1) = unat (bs ! i)"
    using window_sum_step[of i i "map unat bs"] assms(2) by simp
  show ?thesis
  proof (cases "e = i \<and> cap < bs ! i")
    case True
    have "unat cap < window_sum (map unat bs) i (i + 2)" if "i + 1 < length bs"
      using window_sum_step[of i "i + 1" "map unat bs"] that one True by (simp add: word_less_nat_alt)
    then have "greedy_object (unat cap) (drop i (map unat bs)) (i + 1 - i)"
      using assms(2) by (intro greedy_window) auto
    then show ?thesis
      using True old assms(2) len
      by (auto simp: object_start_step_def s window_ok_def nth_list_update less_Suc_eq)
  next
    case False
    define e1 ob1 where "e1 = (if e = i then e + 1 else e)" and "ob1 = (if e = i then bs ! i else ob)"
    obtain e' ob' where grow: "grow_object bs cap e1 ob1 = (e', ob')" by force
    have start: "i < e1" "e1 \<le> length bs" "unat ob1 = window_sum (map unat bs) i e1" "unat ob1 \<le> unat cap"
      using win False one assms(2) by (auto simp: e1_def ob1_def word_le_nat_alt not_less)
    note spec = grow_object_spec[OF grow assms(3) less_imp_le[OF start(1)] start(2,3,4)]
    have greedy: "greedy_object (unat cap) (drop i (map unat bs)) (e' - i)"
      using spec start(1) by (intro greedy_window) auto
    have step: "object_start_step bs cap i s = (e', saturating_sub ob' (bs ! i), nexts[i := e'])"
      using False grow by (auto simp: object_start_step_def s e1_def ob1_def Let_def)
    have "unat (saturating_sub ob' (bs ! i)) = window_sum (map unat bs) (i + 1) e'"
      using window_sum_first[of i e' "map unat bs"] spec start(1) assms(2) by (simp add: unat_saturating_sub)
    then show ?thesis
      using spec greedy start(1) old assms(2) len
      by (auto simp: step window_ok_def nth_list_update less_Suc_eq unat_saturating_sub)
  qed
qed

lemma next_object_starts_greedy:
  assumes "unat cap < 2 ^ 64 - 1" "j < length bs"
  shows "j < next_object_starts bs cap ! j" "next_object_starts bs cap ! j \<le> length bs"
    "greedy_object (unat cap) (drop j (map unat bs)) (next_object_starts bs cap ! j - j)"
proof -
  have "window_ok bs cap n (fold (object_start_step bs cap) [0 ..< n] (0, 0, replicate (length bs) (length bs)))"
    if "n \<le> length bs" for n
    using that
  proof (induction n)
    case 0
    then show ?case by (simp add: window_ok_def)
  next
    case (Suc n)
    then show ?case using object_start_step_ok[OF _ _ assms(1), of bs n] by simp
  qed
  from this[of "length bs"] assms(2) show "j < next_object_starts bs cap ! j" "next_object_starts bs cap ! j \<le> length bs"
    "greedy_object (unat cap) (drop j (map unat bs)) (next_object_starts bs cap ! j - j)"
    by (auto simp: window_ok_def next_object_starts_def split: prod.splits)
qed

lemma least_objects_length: "least_objects cap xs \<le> length xs"
  using least_objects_le[OF trivial_packing] by simp

lemma minimum_suffix_object_counts_least:
  assumes "unat cap < 2 ^ 64 - 1" "length bs < 2 ^ 64"
  shows "length (minimum_suffix_object_counts bs cap) = length bs + 1"
    and "i \<le> length bs \<Longrightarrow>
      unat (minimum_suffix_object_counts bs cap ! i) = least_objects (unat cap) (drop i (map unat bs))"
proof -
  let ?F = "\<lambda>i (counts :: u64 list). counts[i := saturating_add (counts ! (next_object_starts bs cap ! i)) 1]"
  let ?ok = "\<lambda>j (counts :: u64 list). length counts = length bs + 1
      \<and> (\<forall>i. j \<le> i \<and> i \<le> length bs \<longrightarrow> unat (counts ! i) = least_objects (unat cap) (drop i (map unat bs)))"
  have step: "?ok j (?F j counts)" if "?ok (j + 1) counts" "j < length bs" for j counts
  proof -
    let ?k = "next_object_starts bs cap ! j"
    note greedy = next_object_starts_greedy[OF assms(1) that(2)]
    have "least_objects (unat cap) (drop j (map unat bs)) = least_objects (unat cap) (drop ?k (map unat bs)) + 1"
      using least_objects_greedy[OF greedy(3)] greedy(1) by simp
    moreover have "least_objects (unat cap) (drop j (map unat bs)) \<le> length bs"
      using least_objects_length[of "unat cap" "drop j (map unat bs)"] by simp
    moreover have "unat (counts ! ?k) = least_objects (unat cap) (drop ?k (map unat bs))" using that greedy by simp
    ultimately have "unat (saturating_add (counts ! ?k) 1) = least_objects (unat cap) (drop j (map unat bs))"
      using assms(2) by (simp add: unat_saturating_add)
    then show ?thesis using that by (auto simp: nth_list_update Suc_le_eq)
  qed
  have "?ok (length bs - m) (fold ?F (rev [length bs - m ..< length bs]) (replicate (length bs + 1) 0))"
    if "m \<le> length bs" for m
    using that
  proof (induction m)
    case (Suc m)
    have "[length bs - Suc m ..< length bs] = (length bs - Suc m) # [length bs - m ..< length bs]"
      using Suc.prems by (simp add: upt_conv_Cons Suc_diff_Suc)
    then show ?case
      using step[where j = "length bs - Suc m"] Suc by (simp add: Suc_diff_Suc del: upt_Suc)
  qed (auto simp: nth_Cons')
  from this[of "length bs"]
  show "length (minimum_suffix_object_counts bs cap) = length bs + 1"
    "i \<le> length bs \<Longrightarrow>
      unat (minimum_suffix_object_counts bs cap ! i) = least_objects (unat cap) (drop i (map unat bs))"
    by (simp_all add: minimum_suffix_object_counts_def)
qed

section \<open>The groups\<close>

definition group_items :: "'a TargetFillGroup \<Rightarrow> 'a list" where
  "group_items g = group_first g # group_remaining g"

text \<open>Whatever the cap, the groups hold the partitions in order.\<close>

definition filled :: "'a fill_state \<Rightarrow> 'a list" where
  "filled s = concat (map group_items (fill_groups s)) @ group_items (fill_current_group s)"

lemma fill_partition_filled:
  "fill_partition counts cap i p s = Some s' \<Longrightarrow> filled s' = filled s @ [snd p]"
  by (auto simp: fill_partition_def close_group_def filled_def group_items_def Let_def
      split: prod.splits if_splits option.splits)

lemma fill_partitions_filled:
  "fill_partitions counts cap i ps s = Some s' \<Longrightarrow> filled s' = filled s @ map snd ps"
proof (induction ps arbitrary: i s)
  case (Cons p ps)
  then obtain s1 where s1: "fill_partition counts cap i p s = Some s1"
    "fill_partitions counts cap (i + 1) ps s1 = Some s'" by (auto split: option.splits)
  then show ?case using Cons.IH[OF s1(2)] fill_partition_filled[OF s1(1)] by simp
qed simp

lemma target_fill_keeps_order:
  "target_fill_object_groups ps cap = Some groups \<Longrightarrow> concat (map group_items groups) = map snd ps"
  by (auto simp: target_fill_object_groups_def Let_def filled_def group_items_def dest!: fill_partitions_filled
      split: list.splits prod.splits)

text \<open>The sizes of the groups are a packing of the sizes of the partitions.\<close>

definition packed_as :: "nat \<Rightarrow> nat list \<Rightarrow> 'a TargetFillGroup list \<Rightarrow> bool" where
  "packed_as cap ns groups \<longleftrightarrow>
     (\<exists>gs. is_packing cap ns gs \<and> map length gs = map (length \<circ> group_items) groups)"

lemma packed_as_append:
  assumes "packed_as cap ns groups" "object_fits cap ms" "length ms = length (group_items g)"
  shows "packed_as cap (ns @ ms) (groups @ [g])"
proof -
  obtain gs where "is_packing cap ns gs" "map length gs = map (length \<circ> group_items) groups"
    using assms(1) by (auto simp: packed_as_def)
  then show ?thesis unfolding packed_as_def
    using assms(2,3) by (intro exI[of _ "gs @ [ms]"]) (auto simp: is_packing_def)
qed

lemma packed_as_least: "packed_as cap ns groups \<Longrightarrow> least_objects cap ns \<le> length groups"
proof -
  assume "packed_as cap ns groups"
  then obtain gs where gs: "is_packing cap ns gs" "map length gs = map (length \<circ> group_items) groups"
    by (auto simp: packed_as_def)
  then show ?thesis using least_objects_le[OF gs(1)] map_eq_imp_length_eq[OF gs(2)] by simp
qed

text \<open>
  The invariant of the loop before the partition at the index: the groups so far hold the
  partitions before it in order, the closed ones and the current one fit, and what is left of the
  object count is enough for everything from the start of the current group on.
\<close>

definition fill_ok :: "(u64 \<times> 'a) list \<Rightarrow> u64 \<Rightarrow> nat \<Rightarrow> nat \<Rightarrow> nat \<Rightarrow> 'a fill_state \<Rightarrow> bool" where
  "fill_ok ps cap budget start i s \<longleftrightarrow>
     start < i \<and> i \<le> length ps
     \<and> concat (map group_items (fill_groups s)) = map snd (take start ps)
     \<and> group_items (fill_current_group s) = map snd (take (i - start) (drop start ps))
     \<and> packed_as (unat cap) (take start (map (unat \<circ> fst) ps)) (fill_groups s)
     \<and> object_fits (unat cap) (take (i - start) (drop start (map (unat \<circ> fst) ps)))
     \<and> unat (fill_current_bytes s) = window_sum (map (unat \<circ> fst) ps) start i
     \<and> length (fill_groups s) + unat (fill_remaining_object_count s) = budget
     \<and> least_objects (unat cap) (drop start (map (unat \<circ> fst) ps)) \<le> unat (fill_remaining_object_count s)"

lemma least_objects_pos: "xs \<noteq> [] \<Longrightarrow> 0 < least_objects cap xs"
  by (rule least_objects_packing[of cap xs], rule ccontr) (auto simp: is_packing_def)

lemma close_group_ok:
  assumes "fill_ok ps cap budget start i s" "i < length ps"
    "least_objects (unat cap) (drop i (map (unat \<circ> fst) ps)) \<le> unat (fill_remaining_object_count s) - 1"
  shows "fill_ok ps cap budget i (i + 1) ((close_group s (fst (ps ! i)) (snd (ps ! i)))\<lparr>fill_remaining_bytes := rem\<rparr>)"
proof -
  let ?ns = "map (unat \<circ> fst) ps"
  note ok = assms(1)[unfolded fill_ok_def]
  have pos: "0 < unat (fill_remaining_object_count s)"
    using ok assms(2) least_objects_pos[of "drop start ?ns" "unat cap"] by auto
  have "start + (i - start) = i" using ok by simp
  then have i: "take start ps @ take (i - start) (drop start ps) = take i ps"
    "take start ?ns @ take (i - start) (drop start ?ns) = take i ?ns"
    using take_add[of start "i - start" ps] take_add[of start "i - start" ?ns] by simp_all
  have items: "concat (map group_items (fill_groups s)) @ group_items (fill_current_group s) = map snd (take i ps)"
    using ok arg_cong[OF i(1), of "map snd"] by (simp only: map_append)
  have "length (take (i - start) (drop start ?ns)) = length (group_items (fill_current_group s))"
    using ok by (simp only: length_map length_take length_drop)
  then have packed: "packed_as (unat cap) (take i ?ns) (fill_groups s @ [fill_current_group s])"
    using ok packed_as_append[of "unat cap" "take start ?ns" "fill_groups s" "take (i - start) (drop start ?ns)"]
    unfolding i(2) by blast
  have one: "take (i + 1 - i) (drop i ps) = [ps ! i]" using assms(2) by (simp add: take_Suc Cons_nth_drop_Suc[symmetric])
  have one': "take (i + 1 - i) (drop i ?ns) = [unat (fst (ps ! i))]"
    using arg_cong[OF one, of "map (unat \<circ> fst)"] by (simp add: drop_map take_map)
  show ?thesis unfolding fill_ok_def one one' window_sum_def
  proof (intro conjI)
    show "length (fill_groups (close_group s (fst (ps ! i)) (snd (ps ! i))\<lparr>fill_remaining_bytes := rem\<rparr>))
        + unat (fill_remaining_object_count (close_group s (fst (ps ! i)) (snd (ps ! i))\<lparr>fill_remaining_bytes := rem\<rparr>)) = budget"
      using pos ok by (simp add: close_group_def unat_saturating_sub)
  qed (use assms(2,3) items packed in \<open>simp_all add: close_group_def group_items_def unat_saturating_sub object_fits_def\<close>)
qed

lemma fill_partition_ok:
  assumes "fill_ok ps cap budget start i s" "i < length ps" "unat cap < 2 ^ 64 - 1" "length ps < 2 ^ 64"
  obtains start' s' where "fill_partition (minimum_suffix_object_counts (map fst ps) cap) cap i (ps ! i) s = Some s'"
    "fill_ok ps cap budget start' (i + 1) s'"
proof -
  let ?ns = "map (unat \<circ> fst) ps" and ?counts = "minimum_suffix_object_counts (map fst ps) cap"
  obtain b x where p: "ps ! i = (b, x)" by force
  have ns: "map unat (map fst ps) = ?ns" by simp
  have cur: "start < i" "unat (fill_current_bytes s) = window_sum ?ns start i"
    "object_fits (unat cap) (take (i - start) (drop start ?ns))"
    "least_objects (unat cap) (drop start ?ns) \<le> unat (fill_remaining_object_count s)"
    using assms(1) by (simp_all add: fill_ok_def)
  have sum: "window_sum ?ns start (i + 1) = unat (fill_current_bytes s) + unat b"
    using window_sum_step[of start i ?ns] cur assms(2) p by simp
  have pos: "fill_remaining_object_count s \<noteq> 0"
    using cur(4) least_objects_pos[of "drop start ?ns" "unat cap"] cur(1) assms(2) by auto
  note sat = saturating_add_le_cap[OF assms(3), of "fill_current_bytes s" b]
  show thesis
  proof (cases "cap < saturating_add (fill_current_bytes s) b")
    case True
    then have over: "unat cap < window_sum ?ns start (i + 1)" using sat(1) sum by (simp add: not_le[symmetric])
    have "greedy_object (unat cap) (drop start ?ns) (i - start)"
      using cur(1,3) over assms(2) by (auto simp: greedy_object_def object_fits_def window_sum_def Suc_diff_le)
    from least_objects_greedy[OF this] have "least_objects (unat cap) (drop i ?ns) \<le> unat (fill_remaining_object_count s) - 1"
      using cur(1,4) by simp
    from close_group_ok[OF assms(1,2) this] True show thesis
      by (intro that) (auto simp: fill_partition_def p close_group_def)
  next
    case False
    then have fits: "unat (fill_current_bytes s) + unat b \<le> unat cap" using sat(1) by (simp add: not_less)
    obtain target where target: "div_ceil (saturating_add (fill_current_bytes s) (fill_remaining_bytes s))
        (fill_remaining_object_count s) = Some target" using pos by (simp add: div_ceil_def)
    show thesis
    proof (cases "?counts ! i \<le> saturating_sub (fill_remaining_object_count s) 1
        \<and> abs_diff (fill_current_bytes s) target < abs_diff (saturating_add (fill_current_bytes s) b) target")
      case True
      have "unat (?counts ! i) = least_objects (unat cap) (drop i ?ns)"
        using minimum_suffix_object_counts_least(2)[OF assms(3), of "map fst ps" i] assms(2,4) by simp
      then have "least_objects (unat cap) (drop i ?ns) \<le> unat (fill_remaining_object_count s) - 1"
        using True by (simp add: word_le_nat_alt unat_saturating_sub)
      from close_group_ok[OF assms(1,2) this] True False target show thesis
        by (intro that) (auto simp: fill_partition_def p close_group_def)
    next
      case keep: False
      let ?s' = "s\<lparr>fill_current_bytes := saturating_add (fill_current_bytes s) b,
          fill_current_group := (fill_current_group s)\<lparr>group_remaining := group_remaining (fill_current_group s) @ [x]\<rparr>,
          fill_remaining_bytes := saturating_sub (fill_remaining_bytes s) b\<rparr>"
      have "take (i + 1 - start) (drop start ps) = take (i - start) (drop start ps) @ [ps ! i]"
        using cur(1) assms(2) by (simp add: Suc_diff_le take_Suc_conv_app_nth)
      moreover have "object_fits (unat cap) (take (i + 1 - start) (drop start ?ns))"
        using fits sum assms(2) cur(1) by (auto simp: object_fits_def window_sum_def)
      ultimately have "fill_ok ps cap budget start (i + 1) ?s'"
        using assms(1,2) sum sat(2)[OF fits] p by (simp add: fill_ok_def group_items_def)
      moreover have "fill_partition ?counts cap i (ps ! i) s = Some ?s'"
        unfolding fill_partition_def p prod.case Let_def if_not_P[OF False] target option.case if_not_P[OF keep] by simp
      ultimately show thesis by (rule that[rotated])
    qed
  qed
qed

lemma fill_partitions_ok:
  assumes "fill_ok ps cap budget start i s" "unat cap < 2 ^ 64 - 1" "length ps < 2 ^ 64"
  shows "\<exists>start' s'. fill_partitions (minimum_suffix_object_counts (map fst ps) cap) cap i (drop i ps) s = Some s'
    \<and> fill_ok ps cap budget start' (length ps) s'"
  using assms(1)
proof (induction "length ps - i" arbitrary: i start s)
  case 0
  then have "i = length ps" by (simp add: fill_ok_def)
  then show ?case using 0 by auto
next
  case (Suc n)
  then have i: "i < length ps" by simp
  obtain start' s' where s': "fill_partition (minimum_suffix_object_counts (map fst ps) cap) cap i (ps ! i) s = Some s'"
    "fill_ok ps cap budget start' (i + 1) s'"
    by (rule fill_partition_ok[OF Suc.prems i assms(2,3)])
  have "drop i ps = ps ! i # drop (i + 1) ps" using i by (simp add: Cons_nth_drop_Suc)
  then show ?case using Suc.hyps(1)[OF _ s'(2)] Suc.hyps(2) s'(1) by simp
qed

text \<open>
  Claim C6.  The objects of a flush plan: packing the encoded partitions into groups never panics,
  keeps every partition once and in the scheduler's order, keeps every object within the cap unless
  it holds a single partition, and uses the least number of objects that any packing of consecutive
  partitions can have.
\<close>

theorem target_fill_groups_optimal:
  assumes "unat cap < 2 ^ 64 - 1" "length ps < 2 ^ 64"
  shows "\<exists>groups sizes. target_fill_object_groups ps cap = Some groups
    \<and> concat (map group_items groups) = map snd ps
    \<and> concat sizes = map (unat \<circ> fst) ps \<and> map length sizes = map (length \<circ> group_items) groups
    \<and> (\<forall>g \<in> set sizes. length g = 1 \<or> sum_list g \<le> unat cap)
    \<and> length groups = least_objects (unat cap) (map (unat \<circ> fst) ps)"
proof (cases ps)
  case Nil
  then show ?thesis by (simp add: target_fill_object_groups_def)
next
  case (Cons p rest)
  obtain b x where p: "p = (b, x)" by force
  let ?ns = "map (unat \<circ> fst) ps" and ?counts = "minimum_suffix_object_counts (map fst ps) cap"
  define s0 where "s0 = \<lparr>fill_groups = [], fill_remaining_object_count = ?counts ! 0, fill_current_bytes = b,
      fill_current_group = \<lparr>group_first = x, group_remaining = []\<rparr>,
      fill_remaining_bytes = saturating_sub (fold (\<lambda>b acc. saturating_add acc b) (map fst ps) 0) b\<rparr>"
  have count: "unat (?counts ! 0) = least_objects (unat cap) ?ns"
    using minimum_suffix_object_counts_least(2)[OF assms(1), of "map fst ps" 0] assms(2) by simp
  have "fill_ok ps cap (least_objects (unat cap) ?ns) 0 1 s0"
    using Cons p count
    by (auto simp: fill_ok_def s0_def group_items_def packed_as_def is_packing_def object_fits_def window_sum_def)
  from fill_partitions_ok[OF this assms] obtain start s where
    s: "fill_partitions ?counts cap 1 rest s0 = Some s" "fill_ok ps cap (least_objects (unat cap) ?ns) start (length ps) s"
    using Cons by auto
  let ?groups = "fill_groups s @ [fill_current_group s]"
  have out: "target_fill_object_groups ps cap = Some ?groups"
    using s(1) Cons p by (simp add: target_fill_object_groups_def s0_def Let_def)
  have start: "start < length ps" using s(2) by (simp add: fill_ok_def)
  have items: "concat (map group_items ?groups) = map snd ps"
    using s(2) start by (simp add: fill_ok_def) (metis append_take_drop_id map_append)
  have packed: "packed_as (unat cap) ?ns ?groups"
    using s(2) start packed_as_append[of "unat cap" "take start ?ns" "fill_groups s" "drop start ?ns" "fill_current_group s"]
    by (simp add: fill_ok_def)
  have "0 < unat (fill_remaining_object_count s)"
    using s(2) start least_objects_pos[of "drop start ?ns" "unat cap"] by (auto simp: fill_ok_def)
  then have "length ?groups \<le> least_objects (unat cap) ?ns" using s(2) by (simp add: fill_ok_def)
  with packed_as_least[OF packed] have "length ?groups = least_objects (unat cap) ?ns" by (rule antisym[rotated])
  then show ?thesis using out items packed by (auto simp: packed_as_def is_packing_def object_fits_def)
qed

theorem target_fill_groups_optimal_witness:
  "\<exists>groups. target_fill_object_groups [(6, ''a''), (5, ''b''), (4, ''c''), (20, ''d'')] 10 = Some groups
     \<and> concat (map group_items groups) = [''a'', ''b'', ''c'', ''d'']
     \<and> length groups = least_objects 10 [6, 5, 4, 20]"
  using target_fill_groups_optimal[of 10 "[(6, ''a''), (5, ''b''), (4, ''c''), (20, ''d'')]"] by auto

end
