(* ===== verification/Flush_Objects.thy ===== *)
theory Flush_Objects
  imports Flush_Packing Write_Buffer Memory_Stores Text Write_Api
begin

text \<open>
  From a flush plan to blob objects (\<open>write/flush.rs\<close>): merging the batches of a partition, encoding
  partitions, packing them into objects and giving the objects their identity.  Protobuf, zstd and
  the snowflake generator are parameters: functions that return the encoded bytes, and the results
  of the successive calls of the generator with the clock readings they used.
\<close>

section \<open>Merging and encoding a partition\<close>

text \<open>The \<open>anyhow\<close> errors of the flush; the callers turn each of them into an internal error.\<close>

datatype FlushError =
    NoBufferedBatches VirtualPartitionId
  | SequenceRangeEndsAtMax
  | NoncontiguousRanges VirtualPartitionId u64 u64
  | RecordCountExceedsU32
  | PayloadBytesExceedU64
  | MissingProducerFence
  | EncodeBatchFailed
  | CompressBatchFailed
  | SnowflakeFailed

fun merge_batches ::
    "VirtualPartitionId \<Rightarrow> Record list \<Rightarrow> BatchSummary \<Rightarrow> SeqRange \<Rightarrow> BufferedBatch list
     \<Rightarrow> FlushError + Record list \<times> BatchSummary \<times> SeqRange" where
  "merge_batches vp records summary range' [] = Inr (records, summary, range')"
| "merge_batches vp records summary range' (batch # rest) =
     (case checked_add (seq_end range') 1 of
        None \<Rightarrow> Inl SequenceRangeEndsAtMax
      | Some expected_start \<Rightarrow>
          if seq_start (bb_seq_range batch) \<noteq> expected_start
          then Inl (NoncontiguousRanges vp expected_start (seq_start (bb_seq_range batch)))
          else case checked_add (record_count summary) (record_count (bb_summary batch)) of
                 None \<Rightarrow> Inl RecordCountExceedsU32
               | Some count' \<Rightarrow>
                   (case checked_add (summary_payload_bytes summary) (summary_payload_bytes (bb_summary batch)) of
                      None \<Rightarrow> Inl PayloadBytesExceedU64
                    | Some bytes' \<Rightarrow>
                        merge_batches vp (records @ bb_records batch)
                          \<lparr>record_count = count', summary_payload_bytes = bytes'\<rparr>
                          (range'\<lparr>seq_end := seq_end (bb_seq_range batch)\<rparr>) rest))"

definition merge_partition_batches ::
    "FlushPartition \<Rightarrow> FlushError + VirtualPartitionId \<times> Record list \<times> BatchSummary \<times> SeqRange" where
  "merge_partition_batches part =
     (case fp_batches part of
        [] \<Rightarrow> Inl (NoBufferedBatches (fp_virtual_partition_id part))
      | first # rest \<Rightarrow>
          map_sum id (\<lambda>merged. (fp_virtual_partition_id part, merged))
            (merge_batches (fp_virtual_partition_id part) (bb_records first) (bb_summary first)
               (bb_seq_range first) rest))"

text \<open>\<open>write_to_bytes\<close> of a stored record batch, and \<open>encode_all\<close> of zstd at a level.\<close>

record codecs =
  batch_bytes :: "VirtualPartitionId \<Rightarrow> Record list \<Rightarrow> u8 list option"
  zstd_bytes :: "u8 list \<Rightarrow> int \<Rightarrow> u8 list option"

definition encode_batch :: "codecs \<Rightarrow> VirtualPartitionId \<Rightarrow> Record list \<Rightarrow> FlushError + u8 list" where
  "encode_batch cs vp records =
     (case batch_bytes cs vp records of None \<Rightarrow> Inl EncodeBatchFailed | Some bytes \<Rightarrow> Inr bytes)"

definition compress_batch :: "codecs \<Rightarrow> WriteConfig \<Rightarrow> u8 list \<Rightarrow> FlushError + u8 list" where
  "compress_batch cs config bytes =
     (case codec (wc_compression config) of
        NoCompression \<Rightarrow> Inr bytes
      | Zstd \<Rightarrow>
          (case zstd_bytes cs bytes (case level (wc_compression config) of None \<Rightarrow> DEFAULT_ZSTD_LEVEL | Some l \<Rightarrow> l) of
             None \<Rightarrow> Inl CompressBatchFailed
           | Some compressed \<Rightarrow> Inr compressed))"

record EncodedPartition =
  ep_topic :: string
  ep_virtual_partition_id :: VirtualPartitionId
  ep_payload :: "u8 list"
  ep_metadata :: BatchMetadata
  ep_fence :: "ProducerPartitionFence option"
  ep_publication_predecessor :: "FlushPublicationDependency option"
  ep_max_metadata_publication_lag :: duration
  ep_metadata_window_size :: duration

definition encode_partition ::
    "codecs \<Rightarrow> WriteConfig \<Rightarrow> TopicFlushPlan \<Rightarrow> FlushPartition \<Rightarrow> FlushError + EncodedPartition" where
  "encode_partition cs config topic_plan part =
     (let vp = fp_virtual_partition_id part
      in if tfp_fenced_metadata_writes topic_plan \<and> fp_lease_fence part = None then Inl MissingProducerFence
         else
           let fence = (if tfp_fenced_metadata_writes topic_plan
                        then map_option (\<lambda>f. \<lparr>ppf_key = \<lparr>lease_topic = tfp_topic topic_plan,
                               lease_virtual_partition_id = vp\<rparr>, ppf_fence = f\<rparr>) (fp_lease_fence part)
                        else None)
           in case merge_partition_batches part of
                Inl e \<Rightarrow> Inl e
              | Inr (vp, records, summary, range') \<Rightarrow>
                  (case encode_batch cs vp records of
                     Inl e \<Rightarrow> Inl e
                   | Inr bytes \<Rightarrow>
                       (case compress_batch cs config bytes of
                          Inl e \<Rightarrow> Inl e
                        | Inr compressed \<Rightarrow>
                            Inr \<lparr>ep_topic = tfp_topic topic_plan, ep_virtual_partition_id = vp,
                              ep_payload = compressed,
                              ep_metadata = \<lparr>seq_range = range', byte_range = \<lparr>byte_start = 0, byte_end = 0\<rparr>,
                                payload_bytes = summary_payload_bytes summary\<rparr>,
                              ep_fence = fence, ep_publication_predecessor = fp_publication_predecessor part,
                              ep_max_metadata_publication_lag = tfp_max_metadata_publication_lag topic_plan,
                              ep_metadata_window_size = tfp_metadata_window_size topic_plan\<rparr>)))"

section \<open>Building objects\<close>

record PersistedPartition =
  pp_metadata :: BatchMetadata
  pp_fence :: "ProducerPartitionFence option"
  pp_publication_predecessor :: "FlushPublicationDependency option"

record ObjectTopicBuilder =
  otb_topic :: string
  otb_max_metadata_publication_lag :: duration
  otb_metadata_window_size :: duration
  otb_partitions :: "(VirtualPartitionId, PersistedPartition) hmap"

record ObjectBuilder =
  ob_payload :: "u8 list"
  ob_topics :: "ObjectTopicBuilder list"
  ob_blob_window_size :: duration
  ob_oversized_partition :: "(string \<times> VirtualPartitionId) option"

definition payload_offset :: "u8 list \<Rightarrow> u64" where
  "payload_offset bytes = (case try_from_nat (length bytes) of None \<Rightarrow> - 1 | Some n \<Rightarrow> n)"

text \<open>\<open>build_partition\<close>: the payload with the partition appended, an empty topic section, the partition.\<close>

definition build_partition ::
    "u8 list \<Rightarrow> EncodedPartition \<Rightarrow> u8 list \<times> ObjectTopicBuilder \<times> VirtualPartitionId \<times> PersistedPartition" where
  "build_partition object_payload encoded =
     (let payload' = object_payload @ ep_payload encoded
      in (payload',
          \<lparr>otb_topic = ep_topic encoded,
           otb_max_metadata_publication_lag = ep_max_metadata_publication_lag encoded,
           otb_metadata_window_size = ep_metadata_window_size encoded, otb_partitions = []\<rparr>,
          ep_virtual_partition_id encoded,
          \<lparr>pp_metadata = (ep_metadata encoded)\<lparr>byte_range :=
             \<lparr>byte_start = payload_offset object_payload, byte_end = payload_offset payload'\<rparr>\<rparr>,
           pp_fence = ep_fence encoded,
           pp_publication_predecessor = ep_publication_predecessor encoded\<rparr>))"

definition insert_partition :: "VirtualPartitionId \<Rightarrow> PersistedPartition \<Rightarrow> ObjectTopicBuilder \<Rightarrow> ObjectTopicBuilder" where
  "insert_partition vp part builder = builder\<lparr>otb_partitions := hm_insert vp part (otb_partitions builder)\<rparr>"

definition object_new :: "EncodedPartition \<Rightarrow> ObjectBuilder" where
  "object_new encoded =
     (case build_partition [] encoded of
        (bytes, topic_builder, vp, part) \<Rightarrow>
          \<lparr>ob_payload = bytes, ob_topics = [insert_partition vp part topic_builder],
           ob_blob_window_size = otb_metadata_window_size topic_builder,
           ob_oversized_partition = Some (otb_topic topic_builder, vp)\<rparr>)"

text \<open>Insert into the first section of the topic, or append a section.\<close>

fun push_topic ::
    "VirtualPartitionId \<Rightarrow> PersistedPartition \<Rightarrow> ObjectTopicBuilder \<Rightarrow> ObjectTopicBuilder list \<Rightarrow> ObjectTopicBuilder list" where
  "push_topic vp part topic_builder [] = [insert_partition vp part topic_builder]"
| "push_topic vp part topic_builder (t # ts) =
     (if otb_topic t = otb_topic topic_builder then insert_partition vp part t # ts
      else t # push_topic vp part topic_builder ts)"

definition object_push :: "ObjectBuilder \<Rightarrow> EncodedPartition \<Rightarrow> ObjectBuilder" where
  "object_push builder encoded =
     (case build_partition (ob_payload builder) encoded of
        (bytes, topic_builder, vp, part) \<Rightarrow>
          builder\<lparr>ob_payload := bytes, ob_oversized_partition := None,
            ob_topics := push_topic vp part topic_builder (ob_topics builder)\<rparr>)"

definition build_group :: "EncodedPartition TargetFillGroup \<Rightarrow> ObjectBuilder" where
  "build_group g = fold (\<lambda>part builder. object_push builder part) (group_remaining g) (object_new (group_first g))"

section \<open>The identity of an object\<close>

definition make_blob_key :: "WriteConfig \<Rightarrow> Window \<Rightarrow> SnowflakeId \<Rightarrow> BlobKey" where
  "make_blob_key config window snowflake_id =
     (let extension = (case codec (wc_compression config) of NoCompression \<Rightarrow> ''bin'' | Zstd \<Rightarrow> ''zst'');
          prefix = (case wc_blob_prefix config of
                      None \<Rightarrow> []
                    | Some p \<Rightarrow>
                        let p' = trim p
                        in if p' = [] then [] else trim_end_matches (\<lambda>c. c = CHR ''/'') p' @ ''/'')
      in BlobKey (prefix @ ''shared/'' @ decimal_int (window_start window div seconds 1) @ ''/''
           @ decimal (unat snowflake_id) @ ''.'' @ extension))"

record SegmentEnvelope =
  se_window :: TopicWindowKey
  se_snowflake_id :: SnowflakeId
  se_blob_key :: BlobKey
  se_compression :: Compression
  se_created_at :: instant

record PersistedTopic =
  pt_envelope :: SegmentEnvelope
  pt_partitions :: "(VirtualPartitionId, PersistedPartition) hmap"
  pt_max_metadata_publication_lag :: duration

record PersistedObject =
  po_blob_key :: BlobKey
  po_payload :: "u8 list"
  po_topics :: "PersistedTopic list"
  po_publication_budget :: duration
  po_oversized_partition :: "(string \<times> VirtualPartitionId) option"

definition failure_results :: "PersistedTopic list \<Rightarrow> FlushCompletionError \<Rightarrow> FlushPartitionResult list" where
  "failure_results topics error =
     concat (map (\<lambda>topic. map (\<lambda>(vp, _). \<lparr>fpr_topic = window_topic (se_window (pt_envelope topic)),
        fpr_virtual_partition_id = vp, fpr_error = Some error\<rparr>) (pt_partitions topic)) topics)"

definition persisted_topic ::
    "date_range \<Rightarrow> WriteConfig \<Rightarrow> BlobKey \<Rightarrow> SnowflakeId \<Rightarrow> instant \<Rightarrow> ObjectTopicBuilder \<Rightarrow> PersistedTopic option" where
  "persisted_topic dates config blob_key snowflake_id now topic =
     (case window_for_timestamp dates now (otb_metadata_window_size topic) of
        None \<Rightarrow> None
      | Some window \<Rightarrow>
          Some \<lparr>pt_envelope = \<lparr>se_window = window_key window (otb_topic topic), se_snowflake_id = snowflake_id,
                  se_blob_key = blob_key, se_compression = wc_compression config, se_created_at = now\<rparr>,
                pt_partitions = otb_partitions topic,
                pt_max_metadata_publication_lag = otb_max_metadata_publication_lag topic\<rparr>)"

fun all_some :: "'a option list \<Rightarrow> 'a list option" where
  "all_some [] = Some []"
| "all_some (x # xs) =
     (case x of None \<Rightarrow> None | Some a \<Rightarrow> (case all_some xs of None \<Rightarrow> None | Some as \<Rightarrow> Some (a # as)))"

text \<open>
  \<open>finish\<close>, with the identifier and the clock reading of the generator.  A zero window size and an
  object without topics are the panics of \<open>div_euclid\<close> and \<open>unreachable!\<close>: \<open>None\<close>.
\<close>

definition object_finish ::
    "date_range \<Rightarrow> WriteConfig \<Rightarrow> u64 \<Rightarrow> SnowflakeId \<times> instant \<Rightarrow> ObjectBuilder \<Rightarrow> PersistedObject option" where
  "object_finish dates config cap identity builder =
     (case identity of
        (snowflake_id, now) \<Rightarrow>
          if ob_topics builder = [] then None
          else case window_for_timestamp dates now (ob_blob_window_size builder) of
            None \<Rightarrow> None
          | Some window \<Rightarrow>
              let blob_key = make_blob_key config window snowflake_id
              in case all_some (map (persisted_topic dates config blob_key snowflake_id now) (ob_topics builder)) of
                   None \<Rightarrow> None
                 | Some topics \<Rightarrow>
                     Some \<lparr>po_blob_key = blob_key, po_payload = ob_payload builder, po_topics = topics,
                       po_publication_budget = Min (set (map otb_max_metadata_publication_lag (ob_topics builder))),
                       po_oversized_partition =
                         (if cap < payload_offset (ob_payload builder)
                          then ob_oversized_partition builder else None)\<rparr>)"

section \<open>Waiting for predecessors\<close>

text \<open>
  A wait reads the value of a watch channel and, while it is not decisive, the values it takes later;
  when there are none the sender was dropped.
\<close>

type_synonym observed = "FlushPublicationState \<times> FlushPublicationState list"

fun identity_of :: "FlushPublicationState \<Rightarrow> FlushPublicationState list \<Rightarrow> FlushCompletionError option" where
  "identity_of PublicationPending [] = Some InternalFailure"
| "identity_of PublicationPending (s # later) = identity_of s later"
| "identity_of SegmentIdentityAssigned later = None"
| "identity_of (Completed Succeeded) later = None"
| "identity_of (Completed (Failed e)) later = Some e"

definition wait_for_segment_identity ::
    "(Channel \<Rightarrow> observed) \<Rightarrow> FlushPublicationDependency option \<Rightarrow> FlushCompletionError option" where
  "wait_for_segment_identity obs predecessor =
     (case predecessor of None \<Rightarrow> None | Some chan \<Rightarrow> identity_of (fst (obs chan)) (snd (obs chan)))"

fun outcome_of :: "FlushPublicationState \<Rightarrow> FlushPublicationState list \<Rightarrow> FlushCompletionError option" where
  "outcome_of (Completed Succeeded) later = None"
| "outcome_of (Completed (Failed e)) later = Some e"
| "outcome_of _ [] = Some InternalFailure"
| "outcome_of _ (s # later) = outcome_of s later"

definition wait_for_predecessor ::
    "(Channel \<Rightarrow> observed) \<Rightarrow> FlushPublicationDependency option \<Rightarrow> FlushCompletionError option" where
  "wait_for_predecessor obs predecessor =
     (case predecessor of None \<Rightarrow> None | Some chan \<Rightarrow> outcome_of (fst (obs chan)) (snd (obs chan)))"

section \<open>Objects of a plan\<close>

text \<open>Encode the partitions of one topic section, then of all of them; the first error ends the flush.\<close>

fun encode_partitions ::
    "codecs \<Rightarrow> WriteConfig \<Rightarrow> (Channel \<Rightarrow> observed) \<Rightarrow> TopicFlushPlan \<Rightarrow> FlushPartition list
     \<Rightarrow> EncodedPartition list \<times> FlushPartitionResult list
     \<Rightarrow> FlushError + EncodedPartition list \<times> FlushPartitionResult list" where
  "encode_partitions cs config obs topic_plan [] acc = Inr acc"
| "encode_partitions cs config obs topic_plan (part # parts) acc =
     (case wait_for_segment_identity obs (fp_publication_predecessor part) of
        Some error \<Rightarrow>
          encode_partitions cs config obs topic_plan parts
            (fst acc, snd acc @ [\<lparr>fpr_topic = tfp_topic topic_plan,
               fpr_virtual_partition_id = fp_virtual_partition_id part, fpr_error = Some error\<rparr>])
      | None \<Rightarrow>
          (case encode_partition cs config topic_plan part of
             Inl e \<Rightarrow> Inl e
           | Inr encoded \<Rightarrow> encode_partitions cs config obs topic_plan parts (fst acc @ [encoded], snd acc)))"

fun encode_topics ::
    "codecs \<Rightarrow> WriteConfig \<Rightarrow> (Channel \<Rightarrow> observed) \<Rightarrow> TopicFlushPlan list
     \<Rightarrow> EncodedPartition list \<times> FlushPartitionResult list
     \<Rightarrow> FlushError + EncodedPartition list \<times> FlushPartitionResult list" where
  "encode_topics cs config obs [] acc = Inr acc"
| "encode_topics cs config obs (topic_plan # topic_plans) acc =
     (case encode_partitions cs config obs topic_plan (tfp_partitions topic_plan) acc of
        Inl e \<Rightarrow> Inl e
      | Inr acc' \<Rightarrow> encode_topics cs config obs topic_plans acc')"

text \<open>The builders get their identities in order; \<open>None\<close> is a panic.\<close>

fun finish_objects ::
    "date_range \<Rightarrow> WriteConfig \<Rightarrow> u64 \<Rightarrow> (nat \<Rightarrow> (SnowflakeId \<times> instant) option) \<Rightarrow> nat \<Rightarrow> ObjectBuilder list
     \<Rightarrow> (FlushError + PersistedObject list) option" where
  "finish_objects dates config cap ids i [] = Some (Inr [])"
| "finish_objects dates config cap ids i (builder # builders) =
     (case ids i of
        None \<Rightarrow> Some (Inl SnowflakeFailed)
      | Some identity \<Rightarrow>
          (case object_finish dates config cap identity builder of
             None \<Rightarrow> None
           | Some object' \<Rightarrow>
               map_option (map_sum id (\<lambda>objects. object' # objects))
                 (finish_objects dates config cap ids (i + 1) builders)))"

definition sized_partition :: "EncodedPartition \<Rightarrow> u64 \<times> EncodedPartition" where
  "sized_partition part = (payload_offset (ep_payload part), part)"

definition build_objects ::
    "codecs \<Rightarrow> date_range \<Rightarrow> WriteConfig \<Rightarrow> (Channel \<Rightarrow> observed) \<Rightarrow> (nat \<Rightarrow> (SnowflakeId \<times> instant) option)
     \<Rightarrow> FlushPlan \<Rightarrow> (FlushError + PersistedObject list \<times> FlushPartitionResult list \<times> u64) option" where
  "build_objects cs dates config obs ids plan =
     (case encode_topics cs config obs (plan_topics plan) ([], []) of
        Inl e \<Rightarrow> Some (Inl e)
      | Inr (encoded, failed) \<Rightarrow>
          (case target_fill_object_groups (map sized_partition encoded) (plan_max_segment_bytes plan) of
             None \<Rightarrow> None
           | Some groups \<Rightarrow>
               map_option (map_sum id (\<lambda>objects. (objects, failed, of_nat (length objects - 1))))
                 (finish_objects dates config (plan_max_segment_bytes plan) ids 0 (map build_group groups))))"

section \<open>Lemmas\<close>

text \<open>
  An entry of an object's index stands for one of the encoded partitions: its byte range holds
  exactly the encoded payload.
\<close>

definition slice :: "ByteRange \<Rightarrow> u8 list \<Rightarrow> u8 list" where
  "slice r bytes = take (unat (byte_end r) - unat (byte_start r)) (drop (unat (byte_start r)) bytes)"

definition entry_of :: "EncodedPartition list \<Rightarrow> u8 list \<Rightarrow> string \<Rightarrow> VirtualPartitionId \<times> PersistedPartition \<Rightarrow> bool" where
  "entry_of es object_payload topic entry \<longleftrightarrow>
     (\<exists>e \<in> set es. ep_topic e = topic \<and> ep_virtual_partition_id e = fst entry
        \<and> seq_range (pp_metadata (snd entry)) = seq_range (ep_metadata e)
        \<and> pp_fence (snd entry) = ep_fence e \<and> pp_publication_predecessor (snd entry) = ep_publication_predecessor e
        \<and> (let r = byte_range (pp_metadata (snd entry))
           in unat (byte_start r) \<le> unat (byte_end r) \<and> unat (byte_end r) \<le> length object_payload
              \<and> slice r object_payload = ep_payload e))"

lemma slice_append: "unat (byte_end r) \<le> length bytes \<Longrightarrow> slice r (bytes @ suffix) = slice r bytes"
  by (simp add: slice_def)

lemma entry_of_grow:
  "entry_of es bytes topic entry \<Longrightarrow> entry_of (es @ es') (bytes @ suffix) topic entry"
  unfolding entry_of_def Let_def by (force simp: slice_append)

lemma payload_offset_exact: "length bytes < 2 ^ 64 \<Longrightarrow> unat (payload_offset bytes) = length bytes"
  by (simp add: payload_offset_def try_from_nat_def unat_of_nat)

lemma build_partition_entry:
  assumes "build_partition bytes e = (bytes', topic_builder, vp, part)" "length bytes' < 2 ^ 64"
  shows "entry_of [e] bytes' (otb_topic topic_builder) (vp, part)"
  using assms by (auto simp: build_partition_def Let_def entry_of_def slice_def payload_offset_exact)

definition builder_sound :: "EncodedPartition list \<Rightarrow> ObjectBuilder \<Rightarrow> bool" where
  "builder_sound es b \<longleftrightarrow> ob_topics b \<noteq> []
     \<and> (\<forall>t \<in> set (ob_topics b). hm_ok (otb_partitions t) \<and> (\<forall>entry \<in> set (otb_partitions t).
          length (ob_payload b) < 2 ^ 64 \<longrightarrow> entry_of es (ob_payload b) (otb_topic t) entry))"

lemma hm_insert_entries: "entry \<in> set (hm_insert k v m) \<Longrightarrow> entry = (k, v) \<or> entry \<in> set m"
  using hm_insert_subset[of k v m] by auto

lemma push_topic_entries:
  assumes "t \<in> set (push_topic vp part tb ts)" "entry \<in> set (otb_partitions t)" "otb_partitions tb = []"
  shows "otb_topic t = otb_topic tb \<and> entry = (vp, part)
    \<or> (\<exists>t0 \<in> set ts. otb_topic t0 = otb_topic t \<and> entry \<in> set (otb_partitions t0))"
  using assms by (induction ts) (auto simp: insert_partition_def dest: hm_insert_entries split: if_splits)

lemma push_topic_ok:
  assumes "t \<in> set (push_topic vp part tb ts)" "\<forall>t \<in> set ts. hm_ok (otb_partitions t)" "otb_partitions tb = []"
  shows "hm_ok (otb_partitions t)"
  using assms by (induction ts) (auto simp: insert_partition_def hm_ok_insert split: if_splits)

lemma object_new_sound: "builder_sound [e] (object_new e)"
proof -
  obtain bytes' tb vp part where b: "build_partition [] e = (bytes', tb, vp, part)" by (metis prod_cases4)
  have "otb_partitions tb = []" using b by (auto simp: build_partition_def Let_def)
  then show ?thesis
    using build_partition_entry[OF b] b by (auto simp: builder_sound_def object_new_def insert_partition_def)
qed

lemma object_push_sound:
  assumes "builder_sound es b"
  shows "builder_sound (es @ [e]) (object_push b e)"
proof -
  obtain bytes' tb vp part where p: "build_partition (ob_payload b) e = (bytes', tb, vp, part)" by (metis prod_cases4)
  have tb: "otb_partitions tb = []" "bytes' = ob_payload b @ ep_payload e"
    using p by (auto simp: build_partition_def Let_def)
  have out: "ob_payload (object_push b e) = bytes'" "ob_topics (object_push b e) = push_topic vp part tb (ob_topics b)"
    using p by (simp_all add: object_push_def)
  have "entry_of (es @ [e]) bytes' (otb_topic t) entry"
    if "t \<in> set (push_topic vp part tb (ob_topics b))" "entry \<in> set (otb_partitions t)" "length bytes' < 2 ^ 64" for t entry
    using push_topic_entries[OF that(1,2) tb(1)]
  proof
    assume "otb_topic t = otb_topic tb \<and> entry = (vp, part)"
    then show ?thesis using build_partition_entry[OF p that(3)] by (auto simp: entry_of_def)
  next
    assume "\<exists>t0 \<in> set (ob_topics b). otb_topic t0 = otb_topic t \<and> entry \<in> set (otb_partitions t0)"
    then have "entry_of es (ob_payload b) (otb_topic t) entry"
      using assms that(3) tb(2) by (auto simp: builder_sound_def)
    then show ?thesis using tb(2) by (simp add: entry_of_grow)
  qed
  moreover have "push_topic vp part tb (ob_topics b) \<noteq> []" by (cases "ob_topics b") simp_all
  moreover have "hm_ok (otb_partitions t)" if "t \<in> set (push_topic vp part tb (ob_topics b))" for t
    using push_topic_ok[OF that _ tb(1)] assms by (simp add: builder_sound_def)
  ultimately show ?thesis by (auto simp: builder_sound_def out)
qed

lemma build_group_sound: "builder_sound (group_items g) (build_group g)"
proof -
  have "builder_sound (es @ rest) (fold (\<lambda>part builder. object_push builder part) rest b)" if "builder_sound es b" for es rest b
    using that
  proof (induction rest arbitrary: es b)
    case (Cons e rest)
    show ?case using Cons.IH[OF object_push_sound[OF Cons.prems]] by simp
  qed simp
  from this[OF object_new_sound] show ?thesis by (simp add: build_group_def group_items_def)
qed

text \<open>The same for finished objects, whose rows all name the object's blob.\<close>

definition object_sound :: "EncodedPartition list \<Rightarrow> PersistedObject \<Rightarrow> bool" where
  "object_sound es obj \<longleftrightarrow>
     (\<forall>t \<in> set (po_topics obj). se_blob_key (pt_envelope t) = po_blob_key obj \<and> hm_ok (pt_partitions t)
        \<and> (\<forall>entry \<in> set (pt_partitions t). length (po_payload obj) < 2 ^ 64
             \<longrightarrow> entry_of es (po_payload obj) (window_topic (se_window (pt_envelope t))) entry))"

lemma all_some_map [simp]: "all_some (map Some ys) = Some ys"
  by (induction ys) simp_all

lemma all_some_eq: "all_some xs = Some ys \<longleftrightarrow> xs = map Some ys"
proof
  show "all_some xs = Some ys \<Longrightarrow> xs = map Some ys"
    by (induction xs arbitrary: ys) (auto split: option.splits)
qed simp

lemma object_finish_sound:
  assumes "object_finish dates config cap (i, now) b = Some obj" "builder_sound es b"
  shows "object_sound es obj" "\<exists>window. po_blob_key obj = make_blob_key config window i"
proof -
  from assms(1) obtain window topics where f:
    "po_blob_key obj = make_blob_key config window i" "po_payload obj = ob_payload b" "po_topics obj = topics"
    "map (persisted_topic dates config (make_blob_key config window i) i now) (ob_topics b) = map Some topics"
    by (auto simp: object_finish_def Let_def all_some_eq split: if_splits option.splits)
  show "\<exists>window. po_blob_key obj = make_blob_key config window i" using f(1) by blast
  have "\<exists>tb \<in> set (ob_topics b). pt_partitions t = otb_partitions tb \<and> se_blob_key (pt_envelope t) = po_blob_key obj
      \<and> window_topic (se_window (pt_envelope t)) = otb_topic tb" if "t \<in> set topics" for t
  proof -
    have "Some t \<in> set (map (persisted_topic dates config (make_blob_key config window i) i now) (ob_topics b))"
      unfolding f(4) using that by simp
    then obtain tb where "tb \<in> set (ob_topics b)"
      "persisted_topic dates config (make_blob_key config window i) i now tb = Some t" by auto
    then show ?thesis using f(1) by (auto simp: persisted_topic_def window_key_def split: option.splits intro!: bexI[of _ tb])
  qed
  then show "object_sound es obj" using assms(2) f(2,3) by (fastforce simp: object_sound_def builder_sound_def)
qed

text \<open>Blob keys identify the snowflake of their object.\<close>

lemma make_blob_key_inj:
  assumes "make_blob_key config window i = make_blob_key config window' j"
  shows "i = j"
proof -
  define pre where "pre = (case wc_blob_prefix config of None \<Rightarrow> [] | Some p \<Rightarrow>
      let p' = trim p in if p' = [] then [] else trim_end_matches (\<lambda>c. c = CHR ''/'') p' @ ''/'')"
  define ext where "ext = (case codec (wc_compression config) of NoCompression \<Rightarrow> ''bin'' | Zstd \<Rightarrow> ''zst'')"
  let ?pre = "\<lambda>w. pre @ ''shared/'' @ decimal_int (window_start w div seconds 1)"
  have key: "make_blob_key config w n = BlobKey ((?pre w @ CHR ''/'' # decimal (unat n)) @ (CHR ''.'' # ext))" for w n
    by (simp add: make_blob_key_def pre_def ext_def Let_def)
  have "?pre window @ CHR ''/'' # decimal (unat i) = ?pre window' @ CHR ''/'' # decimal (unat j)"
    using assms unfolding key BlobKey.inject append_same_eq .
  note eq = this
  have noslash: "CHR ''/'' \<notin> set (decimal n)" for n
  proof
    assume "CHR ''/'' \<in> set (decimal n)"
    then obtain d where "d < 10" "CHR ''/'' = digit_char d" using decimal_digits by blast
    then have "char_digit (CHR ''/'') = Some d" by (simp only: char_digit_digit_char)
    then show False by (simp add: char_digit_def)
  qed
  have "Some (?pre window, decimal (unat i)) = Some (?pre window', decimal (unat j))"
    using arg_cong[OF eq, of "rsplit_once (CHR ''/'')"] unfolding rsplit_once_suffix[OF noslash] .
  then have "decimal (unat i) = decimal (unat j)" by blast
  then have "Some i = Some j" unfolding parse_u64_decimal[symmetric] by (rule arg_cong)
  then show ?thesis by blast
qed

lemma finish_objects_sound:
  assumes "finish_objects dates config cap ids k bs = Some (Inr objects)" "list_all2 builder_sound ess bs"
  shows "list_all2 object_sound ess objects \<and> (\<forall>j < length objects. \<exists>i now window. ids (k + j) = Some (i, now)
      \<and> po_blob_key (objects ! j) = make_blob_key config window i)"
  using assms
proof (induction bs arbitrary: k ess objects)
  case (Cons b bs)
  obtain es ess' where ess: "ess = es # ess'" "builder_sound es b" "list_all2 builder_sound ess' bs"
    using Cons.prems(2) by (auto simp: list_all2_Cons2)
  obtain i now obj z where r: "ids k = Some (i, now)" "object_finish dates config cap (i, now) b = Some obj"
    "finish_objects dates config cap ids (k + 1) bs = Some z" "map_sum id (\<lambda>objects. obj # objects) z = Inr objects"
    using Cons.prems(1) by (auto split: option.splits)
  then obtain rest where rest: "z = Inr rest" "objects = obj # rest" by (cases z) auto
  note obj = object_finish_sound[OF r(2) ess(2)]
  have IH: "list_all2 object_sound ess' rest" "\<forall>j < length rest. \<exists>i now window. ids (k + 1 + j) = Some (i, now)
      \<and> po_blob_key (rest ! j) = make_blob_key config window i"
    using Cons.IH[OF r(3)[unfolded rest(1)] ess(3)] by simp_all
  show ?case
  proof (intro conjI allI impI)
    show "list_all2 object_sound ess objects" using obj(1) IH(1) by (simp add: ess(1) rest(2))
    fix j
    assume "j < length objects"
    then show "\<exists>i now window. ids (k + j) = Some (i, now) \<and> po_blob_key (objects ! j) = make_blob_key config window i"
      using r(1) obj(2) IH(2) by (cases j) (auto simp: rest(2))
  qed
qed simp

text \<open>Every encoded partition is a partition of the plan with its merged and encoded batches.\<close>

definition encodes :: "codecs \<Rightarrow> WriteConfig \<Rightarrow> TopicFlushPlan list \<Rightarrow> EncodedPartition \<Rightarrow> bool" where
  "encodes cs config ts e \<longleftrightarrow>
     (\<exists>sec \<in> set ts. \<exists>part \<in> set (tfp_partitions sec). encode_partition cs config sec part = Inr e)"

lemma encode_partitions_sound:
  assumes "encode_partitions cs config obs sec parts acc = Inr acc'" "set parts \<subseteq> set (tfp_partitions sec)"
    "\<forall>e \<in> set (fst acc). encodes cs config ts e" "sec \<in> set ts"
  shows "\<forall>e \<in> set (fst acc'). encodes cs config ts e"
  using assms
proof (induction parts arbitrary: acc)
  case (Cons part parts)
  show ?case
  proof (cases "wait_for_segment_identity obs (fp_publication_predecessor part)")
    case None
    then obtain e where e: "encode_partition cs config sec part = Inr e"
      "encode_partitions cs config obs sec parts (fst acc @ [e], snd acc) = Inr acc'"
      using Cons.prems(1) by (auto split: sum.splits)
    then have "encodes cs config ts e" using Cons.prems(2,4) by (auto simp: encodes_def)
    then show ?thesis using Cons.IH[OF e(2)] Cons.prems by auto
  next
    case (Some error)
    then show ?thesis using Cons.IH Cons.prems by auto
  qed
qed simp

lemma encode_topics_sound:
  assumes "encode_topics cs config obs secs acc = Inr acc'" "set secs \<subseteq> set ts"
    "\<forall>e \<in> set (fst acc). encodes cs config ts e"
  shows "\<forall>e \<in> set (fst acc'). encodes cs config ts e"
  using assms
proof (induction secs arbitrary: acc)
  case (Cons sec secs)
  then obtain acc1 where acc1: "encode_partitions cs config obs sec (tfp_partitions sec) acc = Inr acc1"
    "encode_topics cs config obs secs acc1 = Inr acc'" by (auto split: sum.splits)
  have sub: "sec \<in> set ts" "set secs \<subseteq> set ts" using Cons.prems(2) by simp_all
  show ?case
    by (rule Cons.IH[OF acc1(2) sub(2) encode_partitions_sound[OF acc1(1) subset_refl Cons.prems(3) sub(1)]])
qed simp

text \<open>
  The objects of a plan: their index entries are partitions of the plan, and their keys are made
  from the generator's identifiers in order.
\<close>

lemma object_sound_mono: "object_sound es obj \<Longrightarrow> set es \<subseteq> set es' \<Longrightarrow> object_sound es' obj"
  unfolding object_sound_def entry_of_def by blast

lemma build_objects_sound:
  assumes "build_objects cs dates config obs ids plan = Some (Inr (objects, failed, splits))"
  obtains encoded where "\<forall>e \<in> set encoded. encodes cs config (plan_topics plan) e"
    "\<forall>obj \<in> set objects. object_sound encoded obj"
    "\<forall>j < length objects. \<exists>i now window. ids j = Some (i, now) \<and> po_blob_key (objects ! j) = make_blob_key config window i"
proof -
  obtain encoded groups where e: "encode_topics cs config obs (plan_topics plan) ([], []) = Inr (encoded, failed)"
    "target_fill_object_groups (map sized_partition encoded) (plan_max_segment_bytes plan) = Some groups"
    "finish_objects dates config (plan_max_segment_bytes plan) ids 0 (map build_group groups) = Some (Inr objects)"
  proof -
    obtain encoded failed' where e: "encode_topics cs config obs (plan_topics plan) ([], []) = Inr (encoded, failed')"
      using assms by (cases "encode_topics cs config obs (plan_topics plan) ([], [])") (auto simp: build_objects_def)
    then obtain groups where g: "target_fill_object_groups (map sized_partition encoded) (plan_max_segment_bytes plan) = Some groups"
      using assms by (auto simp: build_objects_def split: option.splits)
    then obtain z where z: "finish_objects dates config (plan_max_segment_bytes plan) ids 0 (map build_group groups) = Some z"
      "map_sum id (\<lambda>objects. (objects, failed', of_nat (length objects - 1))) z = Inr (objects, failed, splits)"
      using assms e by (auto simp: build_objects_def)
    from z(2) have "z = Inr objects" "failed' = failed" by (cases z; simp)+
    then show thesis using that e g z(1) by blast
  qed
  have sound: "list_all2 builder_sound (map group_items groups) (map build_group groups)"
    by (simp add: list_all2_map1 list_all2_map2 list_all2_refl build_group_sound)
  note fin = finish_objects_sound[OF e(3) sound]
  have items: "concat (map group_items groups) = encoded"
    using target_fill_keeps_order[OF e(2)] by (simp add: comp_def sized_partition_def)
  have "\<forall>obj \<in> set objects. object_sound encoded obj"
  proof
    fix obj
    assume "obj \<in> set objects"
    then obtain j where j: "j < length objects" "objects ! j = obj" by (auto simp: in_set_conv_nth)
    then have "object_sound (map group_items groups ! j) obj" "j < length groups"
      using conjunct1[OF fin] by (auto simp: list_all2_conv_all_nth)
    then show "object_sound encoded obj" by (elim object_sound_mono) (auto simp: items[symmetric] intro!: bexI[of _ "groups ! j"])
  qed
  moreover have "\<forall>e \<in> set encoded. encodes cs config (plan_topics plan) e"
    using encode_topics_sound[OF e(1)] by simp
  ultimately show thesis using that fin by simp
qed

text \<open>What merging returns: the records of all batches, under a range without gaps.\<close>

lemma merge_batches_result:
  assumes "merge_batches vp records summary range' rest = Inr (records', summary', range'')"
  shows "records' = records @ concat (map bb_records rest)" "seq_start range'' = seq_start range'"
    "seq_end range'' = (if rest = [] then seq_end range' else seq_end (bb_seq_range (last rest)))"
  using assms
  by (induction vp records summary range' rest rule: merge_batches.induct)
    (auto split: option.splits if_splits)

lemma merge_partition_records:
  assumes "merge_partition_batches part = Inr (vp, records, summary, range')"
  shows "vp = fp_virtual_partition_id part" "records = concat (map bb_records (fp_batches part))" "fp_batches part \<noteq> []"
  using assms merge_batches_result(1)
  by (auto simp: merge_partition_batches_def map_sum_def split: list.splits sum.splits)

lemma encode_partition_result:
  assumes "encode_partition cs config sec part = Inr e"
  obtains records summary range' bytes where
    "merge_partition_batches part = Inr (fp_virtual_partition_id part, records, summary, range')"
    "encode_batch cs (fp_virtual_partition_id part) records = Inr bytes" "compress_batch cs config bytes = Inr (ep_payload e)"
    "ep_topic e = tfp_topic sec" "ep_virtual_partition_id e = fp_virtual_partition_id part"
    "seq_range (ep_metadata e) = range'"
proof -
  obtain vp records summary range' where m: "merge_partition_batches part = Inr (vp, records, summary, range')"
    using assms by (auto simp: encode_partition_def Let_def split: if_splits sum.splits)
  note vp = merge_partition_records(1)[OF m]
  from assms m obtain bytes where b: "encode_batch cs vp records = Inr bytes"
    by (auto simp: encode_partition_def Let_def split: if_splits sum.splits)
  show thesis
    by (rule that[of records summary range' bytes])
      (use assms m b in \<open>auto simp: encode_partition_def Let_def vp split: if_splits sum.splits\<close>)
qed

end
