(* ===== verification/Flush_Publication.thy ===== *)
theory Flush_Publication
  imports Flush_Objects Flush_Rounds
begin

text \<open>
  The publication of a flush plan (\<open>flush_plan_after\<close> of \<open>write/flush.rs\<close>): blobs first, then one
  metadata row per topic of each object, in the order of the partitions' predecessors.  The blob
  store and the metadata store are the trait objects of the code: functions on a store state.  What
  the runtime decides is in an environment: the values seen on watch channels, the identifiers, the
  clock readings, which calls time out (and whether a call that timed out took effect), and the
  order in which concurrent calls finish.
\<close>

section \<open>Environment\<close>

datatype call_fate = Returns | TimesOut bool

record flush_env =
  fe_identity :: "Channel \<Rightarrow> observed"
  fe_outcome :: "Channel \<Rightarrow> observed"
  fe_ids :: "nat \<Rightarrow> (SnowflakeId \<times> instant) option"
  fe_deadline_passed :: "BlobKey \<Rightarrow> bool"
  fe_upload :: "BlobKey \<Rightarrow> call_fate"
  fe_upload_order :: "PersistedObject list \<Rightarrow> PersistedObject list"
  fe_elapsed :: "BlobKey \<Rightarrow> string \<Rightarrow> duration"
  fe_published_at :: "BlobKey \<Rightarrow> string \<Rightarrow> instant"
  fe_metadata :: "BlobKey \<Rightarrow> string \<Rightarrow> call_fate"
  fe_unix_timestamp_ms :: "instant \<Rightarrow> int"
  fe_metadata_order :: "PersistedObject list \<Rightarrow> PersistedObject list"

type_synonym 'b put = "'b \<Rightarrow> BlobKey \<Rightarrow> u8 list \<Rightarrow> bool \<times> 'b"
type_synonym 'm write_row =
  "'m \<Rightarrow> SegmentMetadata \<Rightarrow> ProducerPartitionFence list option \<Rightarrow> int \<Rightarrow> (MetadataWriteError + unit) \<times> 'm"

section \<open>Publication states\<close>

definition mark_segment_identity_assigned ::
    "FlushPublicationCompletion list \<Rightarrow> FlushPartitionResult list \<Rightarrow> FlushPublicationState list \<Rightarrow> FlushPublicationState list" where
  "mark_segment_identity_assigned completions failed chans =
     fold (\<lambda>c chans. chans[fpc_state_tx c :=
         (case Option.bind (find (\<lambda>r. fpr_topic r = fpc_topic c \<and> fpr_virtual_partition_id r = fpc_virtual_partition_id c) failed)
                 fpr_error of
            None \<Rightarrow> SegmentIdentityAssigned
          | Some e \<Rightarrow> Completed (Failed e))]) completions chans"

definition mark_publication_complete ::
    "FlushPublicationCompletion list \<Rightarrow> FlushPublicationResult \<Rightarrow> FlushPublicationState list \<Rightarrow> FlushPublicationState list" where
  "mark_publication_complete completions result chans =
     fold (\<lambda>c chans. chans[fpc_state_tx c := Completed result]) completions chans"

section \<open>Metadata rows\<close>

definition into_metadata ::
    "SegmentEnvelope \<Rightarrow> (VirtualPartitionId, BatchMetadata) hmap \<Rightarrow> instant \<Rightarrow> SegmentMetadata" where
  "into_metadata envelope index published_at =
     \<lparr>sm_window = se_window envelope, sm_snowflake_id = se_snowflake_id envelope, sm_blob_key = se_blob_key envelope,
      sm_compression = se_compression envelope, sm_segment_index = index, sm_created_at = se_created_at envelope,
      sm_metadata_published_at = published_at\<rparr>"

definition topic_name_of :: "PersistedTopic \<Rightarrow> string" where
  "topic_name_of topic = window_topic (se_window (pt_envelope topic))"

text \<open>The row of a topic whose predecessors have succeeded, written within the topic's budget.\<close>

definition persist_ready_topic_metadata ::
    "flush_env \<Rightarrow> 'm write_row \<Rightarrow> PersistedTopic \<Rightarrow> 'm \<Rightarrow> (WriteError + FlushPartitionResult list) \<times> 'm" where
  "persist_ready_topic_metadata env write topic m =
     (if pt_max_metadata_publication_lag topic < 0 then (Inl WriteInternal, m)
      else
        let blob = se_blob_key (pt_envelope topic); name = topic_name_of topic;
            published_at = fe_published_at env blob name;
            metadata = into_metadata (pt_envelope topic)
              (map (\<lambda>(vp, part). (vp, pp_metadata part)) (pt_partitions topic)) published_at;
            fences = all_some (map (\<lambda>(vp, part). pp_fence part) (pt_partitions topic));
            (error, m') =
              (if pt_max_metadata_publication_lag topic < fe_elapsed env blob name
               then (Some InternalFailure, m)
               else case write m metadata fences (fe_unix_timestamp_ms env published_at) of
                      (result, m1) \<Rightarrow>
                        (case fe_metadata env blob name of
                           Returns \<Rightarrow>
                             (case result of
                                Inr _ \<Rightarrow> (None, m1)
                              | Inl ProducerLeaseFenceLost \<Rightarrow> (Some LeaseFenceLost, m1)
                              | Inl (OtherWriteError _) \<Rightarrow> (Some InternalFailure, m1))
                         | TimesOut applied \<Rightarrow> (Some InternalFailure, if applied then m1 else m)))
        in (Inr (map (\<lambda>(vp, part). \<lparr>fpr_topic = name, fpr_virtual_partition_id = vp, fpr_error = error\<rparr>)
                   (pt_partitions topic)), m'))"

definition into_partition_topics :: "PersistedTopic \<Rightarrow> (PersistedTopic \<times> FlushPublicationDependency option) list" where
  "into_partition_topics topic =
     map (\<lambda>(vp, part). (topic\<lparr>pt_partitions := [(vp, part\<lparr>pp_publication_predecessor := None\<rparr>)]\<rparr>,
       pp_publication_predecessor part)) (pt_partitions topic)"

text \<open>The last topic takes in the partitions of the others.\<close>

definition merge_partition_topics :: "PersistedTopic list \<Rightarrow> PersistedTopic option" where
  "merge_partition_topics ts =
     (if ts = [] then None
      else Some (fold (\<lambda>t merged. merged\<lparr>pt_partitions :=
             fold (\<lambda>(vp, part) m. hm_insert vp part m) (pt_partitions t) (pt_partitions merged)\<rparr>)
           (butlast ts) (last ts)))"

text \<open>
  What happens to the one-partition topics: the ready ones, those that wait, and the failures of
  those whose predecessor has failed.
\<close>

fun classify_topics ::
    "(Channel \<Rightarrow> observed) \<Rightarrow> (PersistedTopic \<times> FlushPublicationDependency option) list
     \<Rightarrow> PersistedTopic list \<times> (PersistedTopic \<times> FlushPublicationDependency option) list \<times> FlushPartitionResult list" where
  "classify_topics obs [] = ([], [], [])"
| "classify_topics obs ((topic, predecessor) # rest) =
     (case classify_topics obs rest of
        (ready, pending, results) \<Rightarrow>
          (case map_option (\<lambda>chan. fst (obs chan)) predecessor of
             None \<Rightarrow> (topic # ready, pending, results)
           | Some (Completed Succeeded) \<Rightarrow> (topic # ready, pending, results)
           | Some (Completed (Failed e)) \<Rightarrow> (ready, pending, failure_results [topic] e @ results)
           | Some _ \<Rightarrow> (ready, (topic, predecessor) # pending, results)))"

definition await_topics ::
    "(Channel \<Rightarrow> observed) \<Rightarrow> (PersistedTopic \<times> FlushPublicationDependency option) list
     \<Rightarrow> PersistedTopic list \<times> FlushPartitionResult list" where
  "await_topics obs pending =
     (map fst (filter (\<lambda>(t, p). wait_for_predecessor obs p = None) pending),
      concat (map (\<lambda>(t, p). case wait_for_predecessor obs p of None \<Rightarrow> [] | Some e \<Rightarrow> failure_results [t] e) pending))"

definition persist_topic_metadata ::
    "flush_env \<Rightarrow> 'm write_row \<Rightarrow> PersistedTopic \<Rightarrow> 'm \<Rightarrow> (WriteError + FlushPartitionResult list) \<times> 'm" where
  "persist_topic_metadata env write topic m =
     (if list_all (\<lambda>(vp, part). pp_publication_predecessor part = None) (pt_partitions topic)
      then persist_ready_topic_metadata env write topic m
      else
        let (ready, pending, failed) = classify_topics (fe_outcome env) (into_partition_topics topic);
            (released, failed') = await_topics (fe_outcome env) pending
        in case merge_partition_topics (ready @ released) of
             None \<Rightarrow> (Inr (failed @ failed'), m)
           | Some merged \<Rightarrow>
               (case persist_ready_topic_metadata env write merged m of
                  (Inl e, m') \<Rightarrow> (Inl e, m')
                | (Inr results, m') \<Rightarrow> (Inr (failed @ failed' @ results), m')))"

fun persist_topics ::
    "flush_env \<Rightarrow> 'm write_row \<Rightarrow> PersistedTopic list \<Rightarrow> 'm \<Rightarrow> (WriteError + FlushPartitionResult list) \<times> 'm" where
  "persist_topics env write [] m = (Inr [], m)"
| "persist_topics env write (topic # ts) m =
     (case persist_topic_metadata env write topic m of
        (Inl e, m') \<Rightarrow> (Inl e, m')
      | (Inr results, m') \<Rightarrow>
          (case persist_topics env write ts m' of
             (Inl e, m'') \<Rightarrow> (Inl e, m'')
           | (Inr results', m'') \<Rightarrow> (Inr (results @ results'), m'')))"

section \<open>Uploads\<close>

definition upload_object ::
    "flush_env \<Rightarrow> 'b put \<Rightarrow> PersistedObject \<Rightarrow> 'b \<Rightarrow> bool \<times> 'b" where
  "upload_object env put object' b =
     (case put b (po_blob_key object') (po_payload object') of
        (ok, b') \<Rightarrow>
          (case fe_upload env (po_blob_key object') of
             Returns \<Rightarrow> (ok, b')
           | TimesOut applied \<Rightarrow> (False, if applied then b' else b)))"

text \<open>The uploads in the order in which they finish: the uploaded objects and the failures.\<close>

fun upload_objects ::
    "flush_env \<Rightarrow> 'b put \<Rightarrow> PersistedObject list \<Rightarrow> 'b
     \<Rightarrow> PersistedObject list \<times> FlushPartitionResult list \<times> 'b" where
  "upload_objects env put [] b = ([], [], b)"
| "upload_objects env put (object' # objects) b =
     (case upload_object env put object' b of
        (ok, b') \<Rightarrow>
          (case upload_objects env put objects b' of
             (uploaded, failed, b'') \<Rightarrow>
               if ok then (object' # uploaded, failed, b'')
               else (uploaded, failure_results (po_topics object') InternalFailure @ failed, b'')))"

section \<open>The flush of a plan\<close>

text \<open>Results are sorted by topic and partition.\<close>

definition sort_results :: "FlushPartitionResult list \<Rightarrow> FlushPartitionResult list" where
  "sort_results results = sort_key (\<lambda>r. (fpr_topic r, fpr_virtual_partition_id r)) results"

text \<open>
  The flush after its objects are built.  A negative publication budget ends it before any upload is
  polled; an object whose deadline has passed is not uploaded.
\<close>

definition publish_objects ::
    "flush_env \<Rightarrow> 'b put \<Rightarrow> 'm write_row \<Rightarrow> PersistedObject list \<Rightarrow> FlushPartitionResult list \<Rightarrow> u64
     \<Rightarrow> 'b \<Rightarrow> 'm \<Rightarrow> (WriteError + FlushPlanCompletion) \<times> 'b \<times> 'm" where
  "publish_objects env put write objects failed splits b m =
     (if \<not> list_all (\<lambda>object'. 0 \<le> po_publication_budget object') objects then (Inl WriteInternal, b, m)
      else
        let late = concat (map (\<lambda>object'. failure_results (po_topics object') InternalFailure)
              (filter (\<lambda>object'. fe_deadline_passed env (po_blob_key object')) objects));
            on_time = filter (\<lambda>object'. \<not> fe_deadline_passed env (po_blob_key object')) objects;
            (uploaded, not_uploaded, b') = upload_objects env put (fe_upload_order env on_time) b
        in case persist_topics env write (concat (map po_topics (fe_metadata_order env uploaded))) m of
             (Inl e, m') \<Rightarrow> (Inl e, b', m')
           | (Inr published, m') \<Rightarrow>
               (Inr \<lparr>partition_results = sort_results (failed @ late @ not_uploaded @ published),
                  split_count = splits\<rparr>, b', m'))"

definition flush_plan_after ::
    "codecs \<Rightarrow> date_range \<Rightarrow> WriteConfig \<Rightarrow> flush_env \<Rightarrow> 'b put \<Rightarrow> 'm write_row \<Rightarrow> FlushPlan
     \<Rightarrow> FlushPublicationState list \<Rightarrow> 'b \<Rightarrow> 'm
     \<Rightarrow> ((WriteError + FlushPlanCompletion) \<times> FlushPublicationState list \<times> 'b \<times> 'm) option" where
  "flush_plan_after cs dates config env put write plan chans b m =
     (case build_objects cs dates config (fe_identity env) (fe_ids env) plan of
        None \<Rightarrow> None
      | Some (Inl e) \<Rightarrow>
          Some (Inl WriteInternal,
                mark_publication_complete (plan_publication_completions plan) (Failed InternalFailure) chans, b, m)
      | Some (Inr (objects, failed, splits)) \<Rightarrow>
          (case publish_objects env put write objects failed splits b m of
             (result, b', m') \<Rightarrow>
               Some (result, mark_segment_identity_assigned (plan_publication_completions plan) failed chans, b', m')))"

section \<open>What the stores promise\<close>

text \<open>
  The contract of the two stores: a blob that was stored reads back in every range within it, writes
  to other keys leave it alone, a metadata row whose write succeeded is there, and rows are never
  lost by writes.
\<close>

locale segment_stores =
  fixes put :: "'b \<Rightarrow> BlobKey \<Rightarrow> u8 list \<Rightarrow> bool \<times> 'b"
    and get_range :: "'b \<Rightarrow> BlobKey \<Rightarrow> ByteRange \<Rightarrow> BlobStoreError + u8 list"
    and write_row :: "'m \<Rightarrow> SegmentMetadata \<Rightarrow> ProducerPartitionFence list option \<Rightarrow> int
      \<Rightarrow> (MetadataWriteError + unit) \<times> 'm"
    and has_row :: "'m \<Rightarrow> SegmentMetadata \<Rightarrow> bool"
  assumes put_read: "put b key bytes = (True, b') \<Longrightarrow> unat (byte_start r) \<le> unat (byte_end r)
      \<Longrightarrow> unat (byte_end r) \<le> length bytes \<Longrightarrow> get_range b' key r = Inr (slice r bytes)"
    and put_frame: "key' \<noteq> key \<Longrightarrow> get_range (snd (put b key bytes)) key' r = get_range b key' r"
    and write_present: "fst (write_row m row fences now) = Inr () \<Longrightarrow> has_row (snd (write_row m row fences now)) row"
    and write_keeps: "has_row m row' \<Longrightarrow> has_row (snd (write_row m row fences now)) row'"
begin

definition readable :: "'b \<Rightarrow> PersistedObject \<Rightarrow> bool" where
  "readable b obj \<longleftrightarrow> (\<forall>r. unat (byte_start r) \<le> unat (byte_end r) \<longrightarrow> unat (byte_end r) \<le> length (po_payload obj)
     \<longrightarrow> get_range b (po_blob_key obj) r = Inr (slice r (po_payload obj)))"

text \<open>A partition's entry is in a stored row of its topic and object.\<close>

definition published :: "'m \<Rightarrow> PersistedTopic \<Rightarrow> FlushPartitionResult \<Rightarrow> bool" where
  "published m topic result \<longleftrightarrow> fpr_topic result = topic_name_of topic
     \<and> (\<exists>row part. has_row m row \<and> sm_window row = se_window (pt_envelope topic)
          \<and> sm_blob_key row = se_blob_key (pt_envelope topic)
          \<and> (fpr_virtual_partition_id result, part) \<in> set (pt_partitions topic)
          \<and> hm_get (sm_segment_index row) (fpr_virtual_partition_id result) = Some (pp_metadata part))"

lemma upload_object_frame:
  "key \<noteq> po_blob_key obj \<Longrightarrow> get_range (snd (upload_object env put obj b)) key r = get_range b key r"
  using put_frame[of key "po_blob_key obj" b "po_payload obj" r]
  by (auto simp: upload_object_def split: prod.splits call_fate.splits)

lemma upload_object_readable:
  "fst (upload_object env put obj b) \<Longrightarrow> readable (snd (upload_object env put obj b)) obj"
  by (auto simp: upload_object_def readable_def put_read split: prod.splits call_fate.splits)

lemma upload_objects_frame:
  "upload_objects env put objs b = (uploaded, failed, b') \<Longrightarrow> key \<notin> po_blob_key ` set objs
     \<Longrightarrow> get_range b' key r = get_range b key r"
proof (induction objs arbitrary: b uploaded failed)
  case (Cons obj objs)
  then show ?case using upload_object_frame[of key obj env b r]
    by (auto split: prod.splits if_splits)
qed simp

lemma upload_objects_readable:
  assumes "upload_objects env put objs b = (uploaded, failed, b')" "distinct (map po_blob_key objs)"
  shows "set uploaded \<subseteq> set objs \<and> (\<forall>obj \<in> set uploaded. readable b' obj) \<and> (\<forall>r \<in> set failed. fpr_error r \<noteq> None)"
  using assms
proof (induction objs arbitrary: b b' uploaded failed)
  case (Cons obj objs)
  obtain ok b1 where o: "upload_object env put obj b = (ok, b1)" by (cases "upload_object env put obj b")
  obtain up f b2 where u: "upload_objects env put objs b1 = (up, f, b2)" by (cases "upload_objects env put objs b1")
  have eq: "b' = b2" "uploaded = (if ok then obj # up else up)"
    "failed = (if ok then f else failure_results (po_topics obj) InternalFailure @ f)"
    using Cons.prems(1) o u by (auto split: if_splits)
  have d: "distinct (map po_blob_key objs)" "po_blob_key obj \<notin> po_blob_key ` set objs" using Cons.prems(2) by auto
  note ih = Cons.IH[OF u d(1)]
  have "readable b2 obj" if ok
  proof -
    have "readable b1 obj" using upload_object_readable[of env obj b] o that by simp
    then show ?thesis unfolding readable_def using upload_objects_frame[OF u d(2)] by simp
  qed
  with ih show ?case by (auto simp: eq failure_results_def)
qed simp_all

lemma persist_ready_published:
  assumes "persist_ready_topic_metadata env write_row topic m = (Inr results, m')" "hm_ok (pt_partitions topic)"
    "r \<in> set results" "fpr_error r = None"
  shows "published m' topic r"
proof -
  let ?blob = "se_blob_key (pt_envelope topic)" and ?name = "topic_name_of topic"
  let ?at = "fe_published_at env ?blob ?name"
  let ?index = "map (\<lambda>(vp, part). (vp, pp_metadata part)) (pt_partitions topic)"
  let ?row = "into_metadata (pt_envelope topic) ?index ?at"
  let ?fences = "all_some (map (\<lambda>(vp, part). pp_fence part) (pt_partitions topic))"
  let ?w = "write_row m ?row ?fences (fe_unix_timestamp_ms env ?at)"
  obtain result m1 where w: "?w = (result, m1)" by (cases ?w)
  obtain err where res: "results = map (\<lambda>(vp, part). \<lparr>fpr_topic = ?name, fpr_virtual_partition_id = vp, fpr_error = err\<rparr>)
      (pt_partitions topic)" and err: "err = None \<longrightarrow> result = Inr () \<and> m' = m1"
    using assms(1) unfolding persist_ready_topic_metadata_def Let_def w
    by (auto split: if_splits call_fate.splits sum.splits MetadataWriteError.splits)
  from res assms(3,4) obtain part where part: "(fpr_virtual_partition_id r, part) \<in> set (pt_partitions topic)"
      "fpr_topic r = ?name" "err = None" by auto
  have "hm_ok ?index" using assms(2) by (simp add: comp_def split_def)
  then have "hm_get ?index (fpr_virtual_partition_id r) = Some (pp_metadata part)"
    using part(1) by (force simp: hm_get_mem)
  then have "hm_get (sm_segment_index ?row) (fpr_virtual_partition_id r) = Some (pp_metadata part)"
    by (simp add: into_metadata_def)
  moreover have "has_row m' ?row" using write_present[of m ?row ?fences "fe_unix_timestamp_ms env ?at", unfolded w] err part(3) by simp
  ultimately show ?thesis
    unfolding published_def using part by (intro conjI exI[of _ ?row] exI[of _ part]) (simp_all add: into_metadata_def)
qed

lemma write_result_keeps: "write_row m row fences now = (result, m') \<Longrightarrow> has_row m row' \<Longrightarrow> has_row m' row'"
  using write_keeps[of m row' row fences now] by simp

lemma persist_ready_keeps:
  "has_row m row \<Longrightarrow> has_row (snd (persist_ready_topic_metadata env write_row topic m)) row"
  by (auto simp: persist_ready_topic_metadata_def Let_def dest: write_result_keeps
      split: prod.splits call_fate.splits sum.splits MetadataWriteError.splits)

end

section \<open>One topic's metadata\<close>

text \<open>The pieces a topic is split into when its partitions wait for different predecessors.\<close>

definition narrows :: "PersistedTopic \<Rightarrow> PersistedTopic \<Rightarrow> bool" where
  "narrows topic t \<longleftrightarrow> pt_envelope t = pt_envelope topic \<and> hm_ok (pt_partitions t)
     \<and> (\<forall>entry \<in> set (pt_partitions t). \<exists>part. (fst entry, part) \<in> set (pt_partitions topic)
          \<and> pp_metadata (snd entry) = pp_metadata part)"

lemma into_partition_narrows: "t \<in> fst ` set (into_partition_topics topic) \<Longrightarrow> narrows topic t"
  by (auto simp: into_partition_topics_def narrows_def)

lemma classify_topics_parts:
  assumes "classify_topics obs ts = (ready, pending, failed)"
  shows "set ready \<subseteq> fst ` set ts \<and> set pending \<subseteq> set ts \<and> (\<forall>r \<in> set failed. fpr_error r \<noteq> None)"
  using assms
proof (induction ts arbitrary: ready pending failed)
  case (Cons tp ts)
  obtain t p where tp: "tp = (t, p)" by (cases tp)
  obtain a b c where abc: "classify_topics obs ts = (a, b, c)" by (cases "classify_topics obs ts")
  from Cons.IH[OF abc] Cons.prems show ?case
    by (auto simp: tp abc failure_results_def
        split: option.splits FlushPublicationState.splits FlushPublicationResult.splits)
qed simp

lemma await_topics_parts:
  assumes "await_topics obs pending = (released, failed)"
  shows "set released \<subseteq> fst ` set pending \<and> (\<forall>r \<in> set failed. fpr_error r \<noteq> None)"
  using assms by (auto simp: await_topics_def failure_results_def split: option.splits) metis

lemma narrows_insert:
  assumes "narrows topic t" "set entries \<subseteq> set (pt_partitions u)" "narrows topic u"
  shows "narrows topic (t\<lparr>pt_partitions := fold (\<lambda>(vp, part) m. hm_insert vp part m) entries (pt_partitions t)\<rparr>)"
  using assms(1,2)
proof (induction entries arbitrary: t)
  case (Cons e entries)
  obtain vp part where e: "e = (vp, part)" by (cases e)
  have "(vp, part) \<in> set (pt_partitions u)" using Cons.prems(2) e by simp
  with assms(3) obtain part0 where p0: "(vp, part0) \<in> set (pt_partitions topic)" "pp_metadata part = pp_metadata part0"
    by (force simp: narrows_def)
  have "narrows topic (t\<lparr>pt_partitions := hm_insert vp part (pt_partitions t)\<rparr>)"
    unfolding narrows_def
  proof (intro conjI ballI)
    show "hm_ok (pt_partitions (t\<lparr>pt_partitions := hm_insert vp part (pt_partitions t)\<rparr>))"
      using Cons.prems(1) by (simp add: narrows_def hm_ok_insert)
    fix entry
    assume "entry \<in> set (pt_partitions (t\<lparr>pt_partitions := hm_insert vp part (pt_partitions t)\<rparr>))"
    then have "entry = (vp, part) \<or> entry \<in> set (pt_partitions t)" by (simp add: hm_insert_entries)
    then show "\<exists>part. (fst entry, part) \<in> set (pt_partitions topic) \<and> pp_metadata (snd entry) = pp_metadata part"
      using p0 Cons.prems(1) by (auto simp: narrows_def)
  qed (use Cons.prems(1) in \<open>simp add: narrows_def\<close>)
  from Cons.IH[OF this] Cons.prems(2) show ?case by (simp add: e)
qed simp

lemma merge_partition_narrows:
  assumes "merge_partition_topics ts = Some merged" "\<forall>t \<in> set ts. narrows topic t"
  shows "narrows topic merged"
proof -
  have fold: "narrows topic (fold (\<lambda>t merged. merged\<lparr>pt_partitions :=
      fold (\<lambda>(vp, part) m. hm_insert vp part m) (pt_partitions t) (pt_partitions merged)\<rparr>) us t0)"
    if "narrows topic t0" "\<forall>u \<in> set us. narrows topic u" for us t0
    using that
  proof (induction us arbitrary: t0)
    case (Cons u us)
    from Cons.IH[OF narrows_insert[OF Cons.prems(1) subset_refl, of u]] Cons.prems(2) show ?case by simp
  qed simp
  have ts: "ts \<noteq> []" using assms(1) by (auto simp: merge_partition_topics_def)
  have "narrows topic (last ts)" "\<forall>u \<in> set (butlast ts). narrows topic u"
    using assms(2) ts by (auto dest: in_set_butlastD)
  from fold[OF this] show ?thesis using assms(1) ts by (simp add: merge_partition_topics_def)
qed

context segment_stores
begin

lemma narrows_published:
  assumes "narrows topic t" "published m t r"
  shows "published m topic r"
proof -
  obtain row part where p: "has_row m row" "sm_window row = se_window (pt_envelope t)"
    "sm_blob_key row = se_blob_key (pt_envelope t)" "(fpr_virtual_partition_id r, part) \<in> set (pt_partitions t)"
    "hm_get (sm_segment_index row) (fpr_virtual_partition_id r) = Some (pp_metadata part)"
    using assms(2) by (auto simp: published_def)
  obtain part0 where "(fpr_virtual_partition_id r, part0) \<in> set (pt_partitions topic)" "pp_metadata part = pp_metadata part0"
    using assms(1) p(4) by (force simp: narrows_def)
  with p assms show ?thesis by (auto simp: published_def narrows_def topic_name_of_def)
qed

lemma published_mono: "published m topic r \<Longrightarrow> (\<And>row. has_row m row \<Longrightarrow> has_row m' row) \<Longrightarrow> published m' topic r"
  by (auto simp: published_def)

lemma persist_topic_published:
  assumes "persist_topic_metadata env write_row topic m = (Inr results, m')" "hm_ok (pt_partitions topic)"
    "r \<in> set results" "fpr_error r = None"
  shows "published m' topic r"
proof (cases "list_all (\<lambda>(vp, part). pp_publication_predecessor part = None) (pt_partitions topic)")
  case True
  with assms persist_ready_published show ?thesis by (simp add: persist_topic_metadata_def)
next
  case False
  obtain ready pending failed where c: "classify_topics (fe_outcome env) (into_partition_topics topic) = (ready, pending, failed)"
    by (cases "classify_topics (fe_outcome env) (into_partition_topics topic)")
  obtain released failed' where a: "await_topics (fe_outcome env) pending = (released, failed')"
    by (cases "await_topics (fe_outcome env) pending")
  note parts = classify_topics_parts[OF c] await_topics_parts[OF a]
  have "fst ` set pending \<subseteq> fst ` set (into_partition_topics topic)" using parts by (intro image_mono) simp
  with parts have "set (ready @ released) \<subseteq> fst ` set (into_partition_topics topic)" by auto
  then have from_topic: "\<forall>t \<in> set (ready @ released). narrows topic t"
    using into_partition_narrows[of _ topic] by blast
  show ?thesis
  proof (cases "merge_partition_topics (ready @ released)")
    case None
    with False assms(1) c a have "results = failed @ failed'" by (simp add: persist_topic_metadata_def)
    with parts assms(3,4) show ?thesis by auto
  next
    case (Some merged)
    note nar = merge_partition_narrows[OF Some from_topic]
    obtain results' where rd: "persist_ready_topic_metadata env write_row merged m = (Inr results', m')"
      "results = failed @ failed' @ results'"
      using False assms(1) c a Some by (auto simp: persist_topic_metadata_def split: prod.splits sum.splits)
    with parts assms(3,4) have "r \<in> set results'" by auto
    from persist_ready_published[OF rd(1) _ this assms(4)] nar narrows_published[OF nar] show ?thesis
      by (simp add: narrows_def)
  qed
qed

lemma persist_ready_result_keeps:
  "persist_ready_topic_metadata env write_row topic m = (result, m') \<Longrightarrow> has_row m row \<Longrightarrow> has_row m' row"
  using persist_ready_keeps[of m row env topic] by simp

lemma persist_topic_keeps:
  assumes "has_row m row"
  shows "has_row (snd (persist_topic_metadata env write_row topic m)) row"
  using assms by (auto simp: persist_topic_metadata_def persist_ready_keeps dest: persist_ready_result_keeps
      split: prod.splits sum.splits option.splits)

lemma persist_topics_keeps: "has_row m row \<Longrightarrow> has_row (snd (persist_topics env write_row ts m)) row"
proof (induction ts arbitrary: m)
  case (Cons topic ts)
  obtain res m1 where t: "persist_topic_metadata env write_row topic m = (res, m1)"
    by (cases "persist_topic_metadata env write_row topic m")
  then have "has_row m1 row" using persist_topic_keeps[OF Cons.prems, of env topic] by simp
  from Cons.IH[OF this] this show ?case by (auto simp: t split: sum.splits prod.splits)
qed simp

lemma persist_topics_published:
  assumes "persist_topics env write_row ts m = (Inr results, m')" "\<forall>t \<in> set ts. hm_ok (pt_partitions t)"
    "r \<in> set results" "fpr_error r = None"
  shows "\<exists>topic \<in> set ts. published m' topic r"
  using assms
proof (induction ts arbitrary: m results)
  case (Cons topic ts)
  obtain res m1 where t: "persist_topic_metadata env write_row topic m = (Inr res, m1)"
    using Cons.prems(1) by (auto split: prod.splits sum.splits)
  obtain res' where ts: "persist_topics env write_row ts m1 = (Inr res', m')" "results = res @ res'"
    using Cons.prems(1) t by (auto split: prod.splits sum.splits)
  show ?case
  proof (cases "r \<in> set res")
    case True
    have "published m1 topic r" using persist_topic_published[OF t _ True Cons.prems(4)] Cons.prems(2) by simp
    then have "published m' topic r"
      by (rule published_mono) (use persist_topics_keeps[of m1 _ env ts] ts(1) in simp)
    then show ?thesis by simp
  next
    case False
    with Cons.prems(3) ts(2) have "r \<in> set res'" by simp
    from Cons.IH[OF ts(1) _ this Cons.prems(4)] Cons.prems(2) show ?thesis by auto
  qed
qed simp

end

section \<open>Durability\<close>

text \<open>
  A partition of a plan is durable in the stores' final states: its batches were merged, encoded and
  compressed, and a stored row of its topic has an index entry for it with the merged sequence range
  and a byte range that reads back exactly those bytes.
\<close>

definition durable ::
    "codecs \<Rightarrow> WriteConfig \<Rightarrow> ('b \<Rightarrow> BlobKey \<Rightarrow> ByteRange \<Rightarrow> BlobStoreError + u8 list) \<Rightarrow> ('m \<Rightarrow> SegmentMetadata \<Rightarrow> bool)
     \<Rightarrow> 'b \<Rightarrow> 'm \<Rightarrow> string \<Rightarrow> FlushPartition \<Rightarrow> bool" where
  "durable cs config get_range has_row b m topic part \<longleftrightarrow>
     (\<exists>summary range' bytes payload row entry.
        merge_partition_batches part
          = Inr (fp_virtual_partition_id part, concat (map bb_records (fp_batches part)), summary, range')
        \<and> encode_batch cs (fp_virtual_partition_id part) (concat (map bb_records (fp_batches part))) = Inr bytes
        \<and> compress_batch cs config bytes = Inr payload
        \<and> has_row m row \<and> window_topic (sm_window row) = topic
        \<and> hm_get (sm_segment_index row) (fp_virtual_partition_id part) = Some entry
        \<and> seq_range entry = range' \<and> get_range b (sm_blob_key row) (byte_range entry) = Inr payload)"

text \<open>
  What the environment guarantees: identifiers are not repeated (the generator), every concurrent
  call finishes once, and an object is addressable with 64 bits.
\<close>

definition ids_unique :: "(nat \<Rightarrow> (SnowflakeId \<times> instant) option) \<Rightarrow> bool" where
  "ids_unique ids \<longleftrightarrow> (\<forall>j k i s t. ids j = Some (i, s) \<and> ids k = Some (i, t) \<longrightarrow> j = k)"

definition calls_finish_once :: "flush_env \<Rightarrow> bool" where
  "calls_finish_once env \<longleftrightarrow>
     (\<forall>objs. mset (fe_upload_order env objs) = mset objs \<and> mset (fe_metadata_order env objs) = mset objs)"

definition objects_addressable :: "codecs \<Rightarrow> date_range \<Rightarrow> WriteConfig \<Rightarrow> flush_env \<Rightarrow> FlushPlan \<Rightarrow> bool" where
  "objects_addressable cs dates config env plan \<longleftrightarrow>
     (case build_objects cs dates config (fe_identity env) (fe_ids env) plan of
        Some (Inr (objects, _)) \<Rightarrow> list_all (\<lambda>obj. length (po_payload obj) < 2 ^ 64) objects
      | _ \<Rightarrow> True)"

lemma build_objects_keys_distinct:
  assumes "build_objects cs dates config obs ids plan = Some (Inr (objects, failed, splits))" "ids_unique ids"
  shows "distinct (map po_blob_key objects)"
proof -
  have keys: "\<forall>j < length objects. \<exists>i now window. ids j = Some (i, now) \<and> po_blob_key (objects ! j) = make_blob_key config window i"
    by (rule build_objects_sound[OF assms(1)])
  have "j = k" if j: "j < length objects" and k: "k < length objects"
      and eq: "po_blob_key (objects ! j) = po_blob_key (objects ! k)" for j k
  proof -
    obtain i s w where ids_j: "ids j = Some (i, s)" "po_blob_key (objects ! j) = make_blob_key config w i" using keys j by blast
    obtain i' s' w' where ids_k: "ids k = Some (i', s')" "po_blob_key (objects ! k) = make_blob_key config w' i'" using keys k by blast
    have "i = i'" using make_blob_key_inj[of config w i w' i'] ids_j(2) ids_k(2) eq by simp
    with ids_j(1) ids_k(1) assms(2) show "j = k" unfolding ids_unique_def by blast
  qed
  then show ?thesis by (auto simp: distinct_conv_nth)
qed

lemma encode_partitions_failed:
  assumes "encode_partitions cs config obs sec parts acc = Inr acc'" "\<forall>r \<in> set (snd acc). fpr_error r \<noteq> None"
  shows "\<forall>r \<in> set (snd acc'). fpr_error r \<noteq> None"
  using assms
proof (induction parts arbitrary: acc)
  case (Cons part parts)
  show ?case
  proof (cases "wait_for_segment_identity obs (fp_publication_predecessor part)")
    case None
    with Cons.prems(1) obtain e where "encode_partitions cs config obs sec parts (fst acc @ [e], snd acc) = Inr acc'"
      by (auto split: sum.splits)
    from Cons.IH[OF this] Cons.prems(2) show ?thesis by simp
  next
    case (Some error)
    then have "encode_partitions cs config obs sec parts (fst acc, snd acc @ [\<lparr>fpr_topic = tfp_topic sec,
        fpr_virtual_partition_id = fp_virtual_partition_id part, fpr_error = Some error\<rparr>]) = Inr acc'"
      using Cons.prems(1) by simp
    from Cons.IH[OF this] Cons.prems(2) show ?thesis by simp
  qed
qed simp

lemma encode_topics_failed:
  assumes "encode_topics cs config obs secs acc = Inr acc'" "\<forall>r \<in> set (snd acc). fpr_error r \<noteq> None"
  shows "\<forall>r \<in> set (snd acc'). fpr_error r \<noteq> None"
  using assms
proof (induction secs arbitrary: acc)
  case (Cons sec secs)
  then obtain acc1 where acc1: "encode_partitions cs config obs sec (tfp_partitions sec) acc = Inr acc1"
    "encode_topics cs config obs secs acc1 = Inr acc'" by (auto split: sum.splits)
  from Cons.IH[OF acc1(2) encode_partitions_failed[OF acc1(1) Cons.prems(2)]] show ?case .
qed simp

lemma build_objects_failed:
  assumes "build_objects cs dates config obs ids plan = Some (Inr (objects, failed, splits))"
  shows "\<forall>r \<in> set failed. fpr_error r \<noteq> None"
proof -
  obtain encoded failed' where e: "encode_topics cs config obs (plan_topics plan) ([], []) = Inr (encoded, failed')"
    using assms by (cases "encode_topics cs config obs (plan_topics plan) ([], [])") (auto simp: build_objects_def)
  then obtain z :: "FlushError + PersistedObject list" where "map_sum id (\<lambda>objects. (objects, failed', of_nat (length objects - 1))) z = Inr (objects, failed, splits)"
    using assms by (auto simp: build_objects_def split: option.splits)
  then have "failed = failed'" by (cases z) auto
  with encode_topics_failed[OF e] show ?thesis by simp
qed

context segment_stores
begin

lemma publish_objects_durable:
  assumes pub: "publish_objects env put write_row objects failed splits b m = (Inr completion, b', m')"
    and "calls_finish_once env" "distinct (map po_blob_key objects)"
    and sound: "\<forall>obj \<in> set objects. object_sound encoded obj \<and> length (po_payload obj) < 2 ^ 64"
    and "\<forall>r \<in> set failed. fpr_error r \<noteq> None"
    and r: "r \<in> set (partition_results completion)" "fpr_error r = None"
  obtains e row entry where "e \<in> set encoded" "ep_topic e = fpr_topic r" "ep_virtual_partition_id e = fpr_virtual_partition_id r"
    "has_row m' row" "window_topic (sm_window row) = fpr_topic r"
    "hm_get (sm_segment_index row) (fpr_virtual_partition_id r) = Some entry" "seq_range entry = seq_range (ep_metadata e)"
    "get_range b' (sm_blob_key row) (byte_range entry) = Inr (ep_payload e)"
proof -
  let ?on_time = "filter (\<lambda>obj. \<not> fe_deadline_passed env (po_blob_key obj)) objects"
  obtain uploaded not_up b1 where u: "upload_objects env put (fe_upload_order env ?on_time) b = (uploaded, not_up, b1)"
    by (cases "upload_objects env put (fe_upload_order env ?on_time) b")
  obtain results where p: "persist_topics env write_row (concat (map po_topics (fe_metadata_order env uploaded))) m = (Inr results, m')"
    "b' = b1" "r \<in> set failed \<or> r \<in> set not_up \<or> r \<in> set results \<or> fpr_error r \<noteq> None"
    using pub r(1) unfolding publish_objects_def Let_def u
    by (auto simp: sort_results_def failure_results_def split: if_splits prod.splits sum.splits)
  have orders: "mset (fe_upload_order env ?on_time) = mset ?on_time" "mset (fe_metadata_order env uploaded) = mset uploaded"
    using assms(2) by (simp_all add: calls_finish_once_def)
  have "distinct (map po_blob_key (fe_upload_order env ?on_time))"
    using assms(3) orders(1) by (metis distinct_map_filter mset_eq_imp_distinct_iff mset_map)
  note up = upload_objects_readable[OF u this]
  have sub: "set uploaded \<subseteq> set objects" using up mset_eq_setD[OF orders(1)] by auto
  have "r \<in> set results" using p(3) up assms(5) r(2) by auto
  moreover have "\<forall>t \<in> set (concat (map po_topics (fe_metadata_order env uploaded))). hm_ok (pt_partitions t)"
    using sound sub mset_eq_setD[OF orders(2)] by (auto simp: object_sound_def)
  ultimately obtain topic obj where t: "obj \<in> set uploaded" "topic \<in> set (po_topics obj)" "published m' topic r"
    using persist_topics_published[OF p(1) _ _ r(2)] mset_eq_setD[OF orders(2)] by auto
  then obtain row part where row: "has_row m' row" "sm_window row = se_window (pt_envelope topic)"
    "sm_blob_key row = se_blob_key (pt_envelope topic)" "(fpr_virtual_partition_id r, part) \<in> set (pt_partitions topic)"
    "hm_get (sm_segment_index row) (fpr_virtual_partition_id r) = Some (pp_metadata part)" "fpr_topic r = topic_name_of topic"
    by (auto simp: published_def)
  have os: "object_sound encoded obj" "length (po_payload obj) < 2 ^ 64" using sound sub t(1) by auto
  then have "entry_of encoded (po_payload obj) (topic_name_of topic) (fpr_virtual_partition_id r, part)"
    using t(2) row(4) by (simp add: object_sound_def topic_name_of_def)
  then obtain e where e: "e \<in> set encoded" "ep_topic e = fpr_topic r" "ep_virtual_partition_id e = fpr_virtual_partition_id r"
    "seq_range (pp_metadata part) = seq_range (ep_metadata e)"
    "unat (byte_start (byte_range (pp_metadata part))) \<le> unat (byte_end (byte_range (pp_metadata part)))"
    "unat (byte_end (byte_range (pp_metadata part))) \<le> length (po_payload obj)"
    "slice (byte_range (pp_metadata part)) (po_payload obj) = ep_payload e"
    using row(6) by (auto simp: entry_of_def Let_def)
  have "sm_blob_key row = po_blob_key obj" using os(1) t(2) row(3) by (simp add: object_sound_def)
  then have "get_range b' (sm_blob_key row) (byte_range (pp_metadata part)) = Inr (ep_payload e)"
    using up t(1) e(5-7) p(2) by (simp add: readable_def)
  with e(1-4) row show thesis by (intro that[of e row "pp_metadata part"]) (simp_all add: topic_name_of_def)
qed

end

context segment_stores
begin

lemma flush_plan_durable:
  assumes fl: "flush_plan_after cs dates config env put write_row plan chans b m = Some (Inr completion, chans', b', m')"
    and env: "ids_unique (fe_ids env)" "calls_finish_once env" "objects_addressable cs dates config env plan"
    and r: "r \<in> set (partition_results completion)" "fpr_error r = None"
  shows "\<exists>sec \<in> set (plan_topics plan). \<exists>part \<in> set (tfp_partitions sec).
    tfp_topic sec = fpr_topic r \<and> fp_virtual_partition_id part = fpr_virtual_partition_id r
    \<and> durable cs config get_range has_row b' m' (fpr_topic r) part"
proof -
  obtain objects failed splits where o: "build_objects cs dates config (fe_identity env) (fe_ids env) plan
      = Some (Inr (objects, failed, splits))"
    and p: "publish_objects env put write_row objects failed splits b m = (Inr completion, b', m')"
    using fl by (auto simp: flush_plan_after_def split: option.splits sum.splits prod.splits)
  obtain encoded where es: "\<forall>e \<in> set encoded. encodes cs config (plan_topics plan) e"
    "\<forall>obj \<in> set objects. object_sound encoded obj" using build_objects_sound[OF o] .
  have sound: "\<forall>obj \<in> set objects. object_sound encoded obj \<and> length (po_payload obj) < 2 ^ 64"
    using es(2) env(3) by (simp add: objects_addressable_def o list_all_iff)
  obtain e row entry where e: "e \<in> set encoded" "ep_topic e = fpr_topic r" "ep_virtual_partition_id e = fpr_virtual_partition_id r"
    and row: "has_row m' row" "window_topic (sm_window row) = fpr_topic r"
    "hm_get (sm_segment_index row) (fpr_virtual_partition_id r) = Some entry" "seq_range entry = seq_range (ep_metadata e)"
    "get_range b' (sm_blob_key row) (byte_range entry) = Inr (ep_payload e)"
    by (rule publish_objects_durable[OF p env(2) build_objects_keys_distinct[OF o env(1)] sound build_objects_failed[OF o] r])
  obtain sec part where sp: "sec \<in> set (plan_topics plan)" "part \<in> set (tfp_partitions sec)"
    "encode_partition cs config sec part = Inr e" using es(1) e(1) by (auto simp: encodes_def)
  obtain records summary range' bytes where enc:
    "merge_partition_batches part = Inr (fp_virtual_partition_id part, records, summary, range')"
    "encode_batch cs (fp_virtual_partition_id part) records = Inr bytes" "compress_batch cs config bytes = Inr (ep_payload e)"
    "ep_topic e = tfp_topic sec" "ep_virtual_partition_id e = fp_virtual_partition_id part"
    "seq_range (ep_metadata e) = range'"
    by (rule encode_partition_result[OF sp(3)])
  have "durable cs config get_range has_row b' m' (fpr_topic r) part"
    unfolding durable_def merge_partition_records(2)[OF enc(1), symmetric]
    by (intro exI[of _ summary] exI[of _ range'] exI[of _ bytes] exI[of _ "ep_payload e"] exI[of _ row] exI[of _ entry])
      (use enc row e(3) in simp)
  with sp(1,2) enc(4,5) e(2,3) show ?thesis by (intro bexI[of _ sec] bexI[of _ part]) simp_all
qed

end

section \<open>The in-memory stores keep the contract\<close>

definition memory_put :: "Blobs \<Rightarrow> BlobKey \<Rightarrow> u8 list \<Rightarrow> bool \<times> Blobs" where
  "memory_put blobs key bytes = (True, blob_put blobs key bytes)"

definition memory_has_row :: "(SegmentMetadataV1 \<Rightarrow> u8 list option) \<Rightarrow> MetadataWindows \<Rightarrow> SegmentMetadata \<Rightarrow> bool" where
  "memory_has_row write_to_bytes windows row \<longleftrightarrow>
     (case (encode_segment write_to_bytes row, hm_get windows (topic_window_key_format (sm_window row))) of
        (Inr encoded, Some rows) \<Rightarrow> encoded \<in> set rows
      | _ \<Rightarrow> False)"

lemma memory_blob_read:
  assumes "unat (byte_start r) \<le> unat (byte_end r)" "unat (byte_end r) \<le> length bytes"
  shows "blob_get_range (blob_put blobs key bytes) key r = Inr (slice r bytes)"
proof (cases "byte_range_is_empty r")
  case True
  then have "byte_end r \<le> byte_start r" by (simp add: byte_range_is_empty_def)
  with True show ?thesis by (simp add: blob_get_range_def slice_def word_le_nat_alt)
next
  case False
  with assms show ?thesis by (simp add: blob_get_range_def slice_def blob_put_def hash_map)
qed

lemma memory_row_present:
  assumes "fst (write_segment wr m row fences now) = Inr ()"
  shows "memory_has_row wr (snd (write_segment wr m row fences now)) row"
  using assms encode_segment_keys[of wr row]
  by (auto simp: write_segment_def memory_has_row_def hash_map Let_def split: if_splits sum.splits)

lemma memory_row_kept:
  assumes "memory_has_row wr m row'"
  shows "memory_has_row wr (snd (write_segment wr m row fences now)) row'"
  using assms
  by (auto simp: write_segment_def memory_has_row_def hash_map Let_def split: if_splits sum.splits option.splits)

interpretation memory_segments: segment_stores memory_put blob_get_range "write_segment wr" "memory_has_row wr" for wr
proof unfold_locales
  fix b b' :: Blobs and key :: BlobKey and bytes :: "u8 list" and r :: ByteRange
  assume "memory_put b key bytes = (True, b')" "unat (byte_start r) \<le> unat (byte_end r)" "unat (byte_end r) \<le> length bytes"
  then show "blob_get_range b' key r = Inr (slice r bytes)" by (auto simp: memory_put_def memory_blob_read)
next
  fix key' key :: BlobKey and b :: Blobs and bytes :: "u8 list" and r :: ByteRange
  assume "key' \<noteq> key"
  then show "blob_get_range (snd (memory_put b key bytes)) key' r = blob_get_range b key' r"
    by (simp add: memory_put_def blob_get_range_def blob_put_def hash_map)
qed (simp_all add: memory_row_present memory_row_kept)

section \<open>Properties\<close>

lemma waiting_request_batch:
  assumes "(topic, vp, c) \<in> set (waiting_requests plan)"
  obtains sec part batch where "sec \<in> set (plan_topics plan)" "part \<in> set (tfp_partitions sec)"
    "batch \<in> set (fp_batches part)" "bb_completion batch = Some c" "tfp_topic sec = topic"
    "fp_virtual_partition_id part = vp"
  using assms by (auto simp: waiting_requests_def batch_completions_def List.map_filter_def)

text \<open>
  Claim C5.  An acknowledged write is durable.  When a collected plan is flushed and one of its
  requests is told success, the partition holding the request's batch was merged, encoded and
  compressed, its bytes can be read from the blob store in the byte range of its index entry, and the
  row with that entry, which has the merged sequence range, is in the metadata store.  This holds
  for all blob and metadata stores that keep their contract, whatever calls fail or time out, and in
  whatever order uploads and metadata writes finish.
\<close>

theorem acknowledged_writes_durable:
  assumes stores: "segment_stores put get_range write_row has_row"
    and st: "write_ok st" "topics_configured infos st"
    and plan: "collect_next_flush_plan st now config flush_config feature_flags infos = Some (Some plan, msgs, st')"
    and fl: "flush_plan_after cs dates config env put write_row plan chans b m = Some (result, chans', b', m')"
    and env: "ids_unique (fe_ids env)" "calls_finish_once env" "objects_addressable cs dates config env plan"
    and notify: "flush_plan_and_notify later plan result = (feedback, answers, later')" "(c, None) \<in> set answers"
  shows "\<exists>sec \<in> set (plan_topics plan). \<exists>part \<in> set (tfp_partitions sec). \<exists>batch \<in> set (fp_batches part).
    bb_completion batch = Some c \<and> durable cs config get_range has_row b' m' (tfp_topic sec) part"
proof -
  obtain completion topic vp r where r: "result = Inr completion" "(topic, vp, c) \<in> set (waiting_requests plan)"
    "r \<in> set (partition_results completion)" "fpr_topic r = topic" "fpr_virtual_partition_id r = vp" "fpr_error r = None"
    using ok_answer_reported[OF notify] by blast
  obtain sec part where sp: "sec \<in> set (plan_topics plan)" "part \<in> set (tfp_partitions sec)"
    "tfp_topic sec = topic" "fp_virtual_partition_id part = vp" "durable cs config get_range has_row b' m' topic part"
    using segment_stores.flush_plan_durable[OF stores fl[unfolded r(1)] env r(3,6)] r(4,5) by blast
  obtain sec' part' batch where b: "sec' \<in> set (plan_topics plan)" "part' \<in> set (tfp_partitions sec')"
    "batch \<in> set (fp_batches part')" "bb_completion batch = Some c" "tfp_topic sec' = topic"
    "fp_virtual_partition_id part' = vp"
    by (rule waiting_request_batch[OF r(2)])
  have secs: "distinct (map tfp_topic (plan_topics plan))"
    "\<forall>sec \<in> set (plan_topics plan). plan_section_ok (fenced_metadata_writes config feature_flags) st sec"
    using collect_result(3)[OF st plan] by blast+
  have sec': "sec' = sec" using distinct_map_eq[OF secs(1) b(1) sp(1)] b(5) sp(3) by simp
  have "distinct (map fp_virtual_partition_id (tfp_partitions sec))"
    using bspec[OF secs(2) sp(1)] by (simp add: plan_section_ok_def)
  from distinct_map_eq[OF this _ sp(2)] b(2,6) sp(4) have part': "part' = part" unfolding sec' by simp
  from sp(1,2) b(3,4) sp(3,5) show ?thesis unfolding part' by blast
qed

section \<open>A flush of one request\<close>

definition sample_section :: TopicFlushPlan where
  "sample_section = \<lparr>tfp_topic = ''t'',
     tfp_partitions = [\<lparr>fp_virtual_partition_id = 0, fp_lease_fence = Some sample_fence,
       fp_batches = [sample_batch 7], fp_trigger = LeaseDrain, fp_publication_predecessor = None,
       fp_publication_state_tx = None\<rparr>],
     tfp_max_metadata_publication_lag = 6, tfp_metadata_window_size = 7, tfp_fenced_metadata_writes = False\<rparr>"

definition sample_plain_plan :: FlushPlan where
  "sample_plain_plan = sample_plan\<lparr>plan_topics := [sample_section]\<rparr>"

lemma sample_plain_collect:
  "collect_next_flush_plan sample_state 0 with_defaults sample_flush None sample_infos
     = Some (Some sample_plain_plan, [], sample_after)"
  by (simp add: sample_defs sample_plan_def sample_section_def sample_plain_plan_def sample_after_def
      collect_next_flush_plan_def Let_def
      fenced_metadata_writes_def flag_bool_def partition_flush_trigger_def partition_keys_def
      rotation_start_def collect_key_def key_trigger_def partition_state_def requires_new_topic_plan_def
      joins_selected_plan_def max_partitions_for_def MAX_FENCED_METADATA_PARTITIONS_def tail_pending_def
      take_flush_partition_def put_partition_def buffer_reset_def plan_completions_def partition_completion_def
      without_senders_def max_segment_bytes_def effective_max_segment_bytes_def flag_integer_def
      with_defaults_def DEFAULT_MAX_SEGMENT_BYTES_def hash_map)

definition sample_codecs :: codecs where
  "sample_codecs = \<lparr>batch_bytes = \<lambda>vp records. Some [8, 9], zstd_bytes = \<lambda>bytes level. Some bytes\<rparr>"

definition sample_env :: flush_env where
  "sample_env = \<lparr>fe_identity = \<lambda>_. (PublicationPending, []), fe_outcome = \<lambda>_. (PublicationPending, []),
     fe_ids = \<lambda>j. if j = 0 then Some (5, 0) else None, fe_deadline_passed = \<lambda>_. False, fe_upload = \<lambda>_. Returns,
     fe_upload_order = id, fe_elapsed = \<lambda>_ _. 0, fe_published_at = \<lambda>_ _. 0, fe_metadata = \<lambda>_ _. Returns,
     fe_unix_timestamp_ms = \<lambda>_. 0, fe_metadata_order = id\<rparr>"

lemma sample_env_ok: "ids_unique (fe_ids sample_env)" "calls_finish_once sample_env"
  by (simp_all add: ids_unique_def calls_finish_once_def sample_env_def)

definition sample_encoded :: EncodedPartition where
  "sample_encoded = \<lparr>ep_topic = ''t'', ep_virtual_partition_id = 0, ep_payload = [8, 9],
     ep_metadata = \<lparr>seq_range = \<lparr>seq_start = 0, seq_end = 0\<rparr>, byte_range = \<lparr>byte_start = 0, byte_end = 0\<rparr>, payload_bytes = 1\<rparr>,
     ep_fence = None, ep_publication_predecessor = None, ep_max_metadata_publication_lag = 6, ep_metadata_window_size = 7\<rparr>"

lemma sample_encode:
  "encode_topics sample_codecs with_defaults obs (plan_topics sample_plain_plan) ([], []) = Inr ([sample_encoded], [])"
  by (simp add: sample_plain_plan_def sample_section_def wait_for_segment_identity_def encode_partition_def
      merge_partition_batches_def sample_batch_def encode_batch_def compress_batch_def sample_codecs_def
      with_defaults_def compression_zstd_def sample_encoded_def)

lemma sample_groups:
  "target_fill_object_groups (map sized_partition [sample_encoded]) (plan_max_segment_bytes sample_plain_plan)
     = Some [\<lparr>group_first = sample_encoded, group_remaining = []\<rparr>]"
  by (simp add: sized_partition_def payload_offset_def sample_encoded_def sample_plain_plan_def sample_plan_def
      target_fill_object_groups_def)

definition sample_blob_key :: BlobKey where
  "sample_blob_key = make_blob_key with_defaults \<lparr>window_start = 0, window_size = 7\<rparr> 5"

definition sample_entry :: BatchMetadata where
  "sample_entry = \<lparr>seq_range = \<lparr>seq_start = 0, seq_end = 0\<rparr>, byte_range = \<lparr>byte_start = 0, byte_end = 2\<rparr>, payload_bytes = 1\<rparr>"

definition sample_object :: PersistedObject where
  "sample_object = \<lparr>po_blob_key = sample_blob_key, po_payload = [8, 9],
     po_topics = [\<lparr>pt_envelope = \<lparr>se_window = \<lparr>window_topic = ''t'', window_start_unix_seconds = 0\<rparr>, se_snowflake_id = 5,
         se_blob_key = sample_blob_key, se_compression = wc_compression with_defaults, se_created_at = 0\<rparr>,
       pt_partitions = [(0, \<lparr>pp_metadata = sample_entry, pp_fence = None, pp_publication_predecessor = None\<rparr>)],
       pt_max_metadata_publication_lag = 6\<rparr>],
     po_publication_budget = 6, po_oversized_partition = None\<rparr>"

lemma sample_build_group:
  "build_group \<lparr>group_first = sample_encoded, group_remaining = []\<rparr> =
     \<lparr>ob_payload = [8, 9], ob_topics = [\<lparr>otb_topic = ''t'', otb_max_metadata_publication_lag = 6,
        otb_metadata_window_size = 7, otb_partitions = [(0, \<lparr>pp_metadata = sample_entry,
        pp_fence = None, pp_publication_predecessor = None\<rparr>)]\<rparr>], ob_blob_window_size = 7, ob_oversized_partition = Some (''t'', 0)\<rparr>"
  by (simp add: build_group_def object_new_def build_partition_def sample_encoded_def payload_offset_def
      insert_partition_def sample_entry_def try_from_nat_def)

lemma sample_finish:
  "object_finish (0, 10) with_defaults DEFAULT_MAX_SEGMENT_BYTES (5, 0)
     (build_group \<lparr>group_first = sample_encoded, group_remaining = []\<rparr>) = Some sample_object"
  unfolding sample_build_group
  by (simp add: object_finish_def window_for_timestamp_def checked_instant_def persisted_topic_def sample_object_def
      sample_blob_key_def window_key_def payload_offset_def try_from_nat_def Let_def DEFAULT_MAX_SEGMENT_BYTES_def)

lemma sample_objects:
  "build_objects sample_codecs (0, 10) with_defaults obs (fe_ids sample_env) sample_plain_plan
     = Some (Inr ([sample_object], [], 0))"
proof -
  have "plan_max_segment_bytes sample_plain_plan = DEFAULT_MAX_SEGMENT_BYTES" "fe_ids sample_env 0 = Some (5, 0)"
    by (simp_all add: sample_plain_plan_def sample_plan_def sample_env_def)
  then show ?thesis using sample_finish sample_groups by (simp add: build_objects_def sample_encode)
qed

definition sample_row :: SegmentMetadata where
  "sample_row = \<lparr>sm_window = \<lparr>window_topic = ''t'', window_start_unix_seconds = 0\<rparr>, sm_snowflake_id = 5,
     sm_blob_key = sample_blob_key, sm_compression = wc_compression with_defaults,
     sm_segment_index = [(0, sample_entry)], sm_created_at = 0, sm_metadata_published_at = 0\<rparr>"

definition sample_to_bytes :: "SegmentMetadataV1 \<Rightarrow> u8 list option" where
  "sample_to_bytes message = Some [1, 2, 3]"

lemma sample_encoded_row: "encode_segment sample_to_bytes sample_row = Inr \<lparr>enc_partition_key = segment_partition_key sample_row,
    enc_sort_key = segment_snowflake_key sample_row, enc_payload = [1, 2, 3]\<rparr>"
proof -
  have "sm_created_at sample_row = 0" "sm_metadata_published_at sample_row = 0" by (simp_all add: sample_row_def)
  then show ?thesis
    by (simp add: encode_segment_def sample_to_bytes_def encode_segment_metadata_v1_def unix_millis_from_offset_datetime_def
        i64_try_from_def)
qed

lemma sample_persist:
  "persist_topics sample_env (write_segment sample_to_bytes) (po_topics sample_object) []
     = (Inr [\<lparr>fpr_topic = ''t'', fpr_virtual_partition_id = 0, fpr_error = None\<rparr>],
        snd (write_segment sample_to_bytes [] sample_row None 0))"
  by (simp add: sample_object_def persist_topic_metadata_def persist_ready_topic_metadata_def topic_name_of_def
      into_metadata_def sample_env_def write_segment_def sample_row_def[symmetric] sample_encoded_row Let_def)

lemma sample_flush_run:
  "flush_plan_after sample_codecs (0, 10) with_defaults sample_env memory_put (write_segment sample_to_bytes)
      sample_plain_plan [PublicationPending] [] []
    = Some (Inr \<lparr>partition_results = [\<lparr>fpr_topic = ''t'', fpr_virtual_partition_id = 0, fpr_error = None\<rparr>], split_count = 0\<rparr>,
        [SegmentIdentityAssigned], blob_put [] sample_blob_key [8, 9],
        snd (write_segment sample_to_bytes [] sample_row None 0))"
proof -
  have env: "fe_deadline_passed sample_env k = False" "fe_upload sample_env k = Returns"
    "fe_upload_order sample_env os = os" "fe_metadata_order sample_env os = os" for k os
    by (simp_all add: sample_env_def)
  have obj: "po_blob_key sample_object = sample_blob_key" "po_payload sample_object = [8, 9]"
    "po_publication_budget sample_object = 6" by (simp_all add: sample_object_def)
  have compl: "plan_publication_completions sample_plain_plan = [\<lparr>fpc_topic = ''t'', fpc_virtual_partition_id = 0, fpc_state_tx = 0\<rparr>]"
    by (simp add: sample_plain_plan_def sample_plan_def)
  show ?thesis
    by (simp add: flush_plan_after_def sample_objects publish_objects_def env obj compl upload_object_def sample_persist
        memory_put_def mark_segment_identity_assigned_def sort_results_def Let_def)
qed

lemma sample_notify:
  "flush_plan_and_notify sample_after sample_plain_plan
      (Inr \<lparr>partition_results = [\<lparr>fpr_topic = ''t'', fpr_virtual_partition_id = 0, fpr_error = None\<rparr>], split_count = 0\<rparr>)
    = (fst (flush_plan_and_notify sample_after sample_plain_plan
      (Inr \<lparr>partition_results = [\<lparr>fpr_topic = ''t'', fpr_virtual_partition_id = 0, fpr_error = None\<rparr>], split_count = 0\<rparr>)),
      [(7, None)], snd (snd (flush_plan_and_notify sample_after sample_plain_plan
      (Inr \<lparr>partition_results = [\<lparr>fpr_topic = ''t'', fpr_virtual_partition_id = 0, fpr_error = None\<rparr>], split_count = 0\<rparr>))))"
  by (simp add: flush_plan_and_notify_def waiting_requests_def sample_plain_plan_def sample_section_def sample_batch_def
      partition_result_error_def Let_def)

lemma sample_addressable: "objects_addressable sample_codecs (0, 10) with_defaults sample_env sample_plain_plan"
  by (simp add: objects_addressable_def sample_objects) (simp add: sample_object_def)

theorem acknowledged_writes_durable_witness:
  "durable sample_codecs with_defaults blob_get_range (memory_has_row sample_to_bytes)
     (blob_put [] sample_blob_key [8, 9]) (snd (write_segment sample_to_bytes [] sample_row None 0)) ''t''
     (hd (tfp_partitions sample_section))"
  using acknowledged_writes_durable[OF memory_segments.segment_stores_axioms sample_ok(1,2) sample_plain_collect
      sample_flush_run sample_env_ok sample_addressable sample_notify, of 7]
  by (simp add: sample_plain_plan_def sample_section_def)

end
