(* ===== verification/Sticky_Assignment.thy ===== *)
theory Sticky_Assignment
  imports Types
begin

text \<open>
  The sticky layer of a consumer group's placement (\<open>coordination/assignment.rs\<close>): logical groups,
  balanced capacities, the reservation of surviving ownership and the placement of the rest.  Owners
  are workers or pods.  A result of \<open>None\<close> is a panic (an \<open>expect\<close>, or a remainder by zero).
\<close>

section \<open>Model\<close>

definition sort_dedup :: "'a::linorder list \<Rightarrow> 'a list" where
  "sort_dedup xs = sort (remdups xs)"

text \<open>The first least element.\<close>

definition min_by_key :: "('a \<Rightarrow> 'b::linorder) \<Rightarrow> 'a list \<Rightarrow> 'a option" where
  "min_by_key f xs = (case sort_key f xs of [] \<Rightarrow> None | x # _ \<Rightarrow> Some x)"

type_synonym LogicalGroups = "(u32 \<times> VirtualPartitionId list) list"
type_synonym Assignment = "(VirtualPartitionId, string) hmap"
type_synonym Capacity = "(string, nat) hmap"

definition logical_groups :: "VirtualPartitionId list \<Rightarrow> u32 \<Rightarrow> LogicalGroups" where
  "logical_groups partitions logical_partition_count =
     map (\<lambda>l. (l, sort_dedup (filter (\<lambda>p. p mod logical_partition_count = l) partitions)))
       (sort_dedup (map (\<lambda>p. p mod logical_partition_count) partitions))"

text \<open>Larger groups first, equal sizes by logical identifier.\<close>

definition order_groups :: "LogicalGroups \<Rightarrow> LogicalGroups" where
  "order_groups groups = sort_key (\<lambda>(l, grp). (- int (length grp), l)) groups"

abbreviation inventory :: "LogicalGroups \<Rightarrow> VirtualPartitionId list" where
  "inventory groups \<equiv> concat (map snd groups)"

definition previous_load :: "LogicalGroups \<Rightarrow> Assignment \<Rightarrow> string \<Rightarrow> nat" where
  "previous_load groups previous owner = length (filter (\<lambda>p. hm_get previous p = Some owner) (inventory groups))"

definition residual_rank :: "(string, nat) hmap option \<Rightarrow> string \<Rightarrow> nat" where
  "residual_rank preference owner =
     (case Option.bind preference (\<lambda>ranks. hm_get ranks owner) of None \<Rightarrow> 0 | Some n \<Rightarrow> n)"

fun add_residual :: "string list \<Rightarrow> Capacity \<Rightarrow> Capacity option" where
  "add_residual [] capacity = Some capacity"
| "add_residual (owner # owners) capacity =
     (case hm_get capacity owner of
        None \<Rightarrow> None
      | Some n \<Rightarrow> add_residual owners (hm_insert owner (n + 1) capacity))"

definition colocated_inputs ::
    "string list \<Rightarrow> VirtualPartitionId list \<Rightarrow> Assignment \<Rightarrow> u32 \<Rightarrow> (string, nat) hmap option
     \<Rightarrow> (LogicalGroups \<times> Capacity) option" where
  "colocated_inputs owners partitions previous logical_partition_count preference =
     (if owners = [] \<or> partitions = [] then Some ([], [])
      else if logical_partition_count = 0 then None
      else
        let groups = order_groups (logical_groups partitions logical_partition_count);
            total = sum_list (map (\<lambda>(_, grp). length grp) groups);
            capacity = fold (\<lambda>owner. hm_insert owner (total div length owners)) owners [];
            residual_owners = sort_key (\<lambda>owner. (residual_rank preference owner,
              - int (previous_load groups previous owner), owner)) owners
        in map_option (Pair groups) (add_residual (take (total mod length owners) residual_owners) capacity))"

text \<open>Reserve one partition for its previous owner.\<close>

definition retain_partition ::
    "Assignment \<Rightarrow> VirtualPartitionId \<Rightarrow> Assignment \<times> Capacity \<Rightarrow> Assignment \<times> Capacity" where
  "retain_partition previous p s =
     (case s of (assignment, capacity) \<Rightarrow>
        (case hm_get previous p of
           None \<Rightarrow> s
         | Some owner \<Rightarrow>
             (case hm_get capacity owner of
                None \<Rightarrow> s
              | Some n \<Rightarrow>
                  if 0 < n then (hm_insert p owner assignment, hm_insert owner (n - 1) capacity) else s)))"

text \<open>Every owner has an entry of the capacities.\<close>

definition remaining :: "Capacity \<Rightarrow> string \<Rightarrow> nat" where
  "remaining capacity owner = (case hm_get capacity owner of None \<Rightarrow> 0 | Some n \<Rightarrow> n)"

definition whole_owner ::
    "string list \<Rightarrow> VirtualPartitionId list \<Rightarrow> VirtualPartitionId list \<Rightarrow> Assignment \<Rightarrow> Capacity \<Rightarrow> string option" where
  "whole_owner owners grp missing assignment capacity =
     find (\<lambda>owner. length missing \<le> remaining capacity owner
       \<and> list_all (\<lambda>p. case hm_get assignment p of None \<Rightarrow> True | Some assigned \<Rightarrow> assigned = owner) grp) owners"

definition freest_owner :: "string list \<Rightarrow> Capacity \<Rightarrow> string option" where
  "freest_owner owners capacity =
     min_by_key (\<lambda>owner. (- int (remaining capacity owner), owner))
       (filter (\<lambda>owner. 0 < remaining capacity owner) owners)"

fun place_missing ::
    "string list \<Rightarrow> string option \<Rightarrow> VirtualPartitionId list \<Rightarrow> Assignment \<times> Capacity \<Rightarrow> (Assignment \<times> Capacity) option" where
  "place_missing owners whole [] s = Some s"
| "place_missing owners whole (p # missing) (assignment, capacity) =
     (case (case whole of Some owner \<Rightarrow> Some owner | None \<Rightarrow> freest_owner owners capacity) of
        None \<Rightarrow> None
      | Some owner \<Rightarrow>
          place_missing owners whole missing
            (hm_insert p owner assignment, hm_insert owner (remaining capacity owner - 1) capacity))"

fun place_groups ::
    "string list \<Rightarrow> LogicalGroups \<Rightarrow> Assignment \<times> Capacity \<Rightarrow> (Assignment \<times> Capacity) option" where
  "place_groups owners [] s = Some s"
| "place_groups owners ((l, grp) # groups) (assignment, capacity) =
     (let missing = filter (\<lambda>p. hm_get assignment p = None) grp
      in case place_missing owners (whole_owner owners grp missing assignment capacity) missing (assignment, capacity) of
           None \<Rightarrow> None
         | Some s \<Rightarrow> place_groups owners groups s)"

definition retained_colocated_candidate ::
    "string list \<Rightarrow> LogicalGroups \<Rightarrow> Assignment \<Rightarrow> Capacity \<Rightarrow> Assignment option" where
  "retained_colocated_candidate owners groups previous capacity =
     map_option fst (place_groups owners groups (fold (retain_partition previous) (inventory groups) ([], capacity)))"

definition assign_sticky_groups ::
    "string list \<Rightarrow> VirtualPartitionId list \<Rightarrow> Assignment \<Rightarrow> u32 \<Rightarrow> (string, nat) hmap option \<Rightarrow> Assignment option" where
  "assign_sticky_groups owners partitions previous logical_partition_count preference =
     (if owners = [] \<or> partitions = [] then Some []
      else case colocated_inputs owners partitions previous logical_partition_count preference of
             None \<Rightarrow> None
           | Some (groups, capacity) \<Rightarrow> retained_colocated_candidate owners groups previous capacity)"

section \<open>Groups and capacities\<close>

lemma set_sort_dedup [simp]: "set (sort_dedup xs) = set xs"
  by (simp add: sort_dedup_def)

lemma distinct_sort_dedup [simp]: "distinct (sort_dedup xs)"
  by (simp add: sort_dedup_def)

lemma min_by_key_Some:
  assumes "min_by_key f xs = Some x"
  shows "x \<in> set xs" "y \<in> set xs \<Longrightarrow> f x \<le> f y"
proof -
  obtain ys where ys: "sort_key f xs = x # ys" using assms by (auto simp: min_by_key_def split: list.splits)
  have "sorted (map f (x # ys))" using sorted_sort_key[of f xs] ys by simp
  moreover have "set xs = set (x # ys)" using set_sort[of f xs] ys by simp
  ultimately show "x \<in> set xs" "y \<in> set xs \<Longrightarrow> f x \<le> f y" by auto
qed

lemma min_by_key_None: "min_by_key f xs = None \<longleftrightarrow> xs = []"
  by (cases "sort_key f xs") (auto simp: min_by_key_def dest: arg_cong[of _ _ length])

lemma logical_groups_inventory:
  "distinct (inventory (logical_groups ps lpc))" "set (inventory (logical_groups ps lpc)) = set ps"
proof -
  have "distinct (concat (map (\<lambda>l. sort_dedup (filter (\<lambda>p. p mod lpc = l) ps)) ls))" if "distinct ls" for ls
    using that by (induction ls) auto
  then show "distinct (inventory (logical_groups ps lpc))" by (simp add: logical_groups_def comp_def)
  show "set (inventory (logical_groups ps lpc)) = set ps" by (auto simp: logical_groups_def)
qed

lemma order_groups_inventory: "mset (inventory (order_groups groups)) = mset (inventory groups)"
proof -
  have "mset (concat (map snd (gs :: LogicalGroups))) = \<Sum>\<^sub># (image_mset (mset \<circ> snd) (mset gs))" for gs
    by (induction gs) auto
  then show ?thesis by (simp add: order_groups_def)
qed

lemma ordered_inventory:
  "distinct (inventory (order_groups (logical_groups ps lpc)))"
  "set (inventory (order_groups (logical_groups ps lpc))) = set ps"
  using logical_groups_inventory[of ps lpc] order_groups_inventory[of "logical_groups ps lpc"]
  by (metis mset_eq_imp_distinct_iff, metis mset_eq_setD)

lemma fold_capacity: "hm_get (fold (\<lambda>owner. hm_insert owner q) owners m) w = (if w \<in> set owners then Some q else hm_get m w)"
  by (induction owners arbitrary: m) (auto simp: hash_map)

lemma add_residual_result:
  assumes "distinct xs" "\<forall>x \<in> set xs. hm_get cap x \<noteq> None"
  shows "\<exists>cap'. add_residual xs cap = Some cap'
    \<and> (\<forall>w. hm_get cap' w = map_option (\<lambda>n. if w \<in> set xs then n + 1 else n) (hm_get cap w))"
  using assms
proof (induction xs arbitrary: cap)
  case (Cons x xs)
  then obtain n where n: "hm_get cap x = Some n" by auto
  have "\<forall>y \<in> set xs. hm_get (hm_insert x (n + 1) cap) y \<noteq> None" using Cons.prems by (auto simp: hash_map)
  from Cons.IH[OF _ this] Cons.prems(1) obtain cap' where
    "add_residual xs (hm_insert x (n + 1) cap) = Some cap'"
    "\<forall>w. hm_get cap' w = map_option (\<lambda>n. if w \<in> set xs then n + 1 else n) (hm_get (hm_insert x (n + 1) cap) w)" by auto
  with n Cons.prems(1) show ?case by (auto simp: hash_map)
qed (simp add: option.map_ident)

text \<open>Floor and ceiling shares of the inventory, which add up to it.\<close>

definition share_ok :: "string list \<Rightarrow> nat \<Rightarrow> (string \<Rightarrow> nat) \<Rightarrow> bool" where
  "share_ok owners n share \<longleftrightarrow> sum share (set owners) = n
     \<and> (\<forall>w \<in> set owners. share w = n div length owners \<or> share w = n div length owners + 1)"

lemma colocated_inputs_result:
  assumes "distinct owners" "owners \<noteq> []" "ps \<noteq> []" "lpc \<noteq> 0"
  obtains groups cap where "colocated_inputs owners ps previous lpc preference = Some (groups, cap)"
    "distinct (inventory groups)" "set (inventory groups) = set ps" "dom (hm_get cap) = set owners"
    "share_ok owners (card (set ps)) (remaining cap)"
proof -
  let ?groups = "order_groups (logical_groups ps lpc)"
  let ?inv = "inventory ?groups"
  have total: "sum_list (map (\<lambda>(_, grp). length grp) ?groups) = card (set ps)"
    using distinct_card[OF ordered_inventory(1)[of ps lpc]] ordered_inventory(2)[of ps lpc]
    by (simp add: length_concat comp_def split_def)
  let ?n = "card (set ps)" and ?k = "length owners"
  let ?cap0 = "fold (\<lambda>owner. hm_insert owner (?n div ?k)) owners []"
  let ?res = "sort_key (\<lambda>owner. (residual_rank preference owner, - int (previous_load ?groups previous owner), owner)) owners"
  let ?xs = "take (?n mod ?k) ?res"
  have xs: "distinct ?xs" "set ?xs \<subseteq> set owners" "length ?xs = ?n mod ?k"
    using assms(1,2) set_take_subset[of "?n mod ?k" ?res] by auto
  have cap0: "hm_get ?cap0 w = (if w \<in> set owners then Some (?n div ?k) else None)" for w by (simp add: fold_capacity)
  have present: "\<forall>x \<in> set ?xs. hm_get ?cap0 x \<noteq> None" using subsetD[OF xs(2)] unfolding cap0 by auto
  obtain cap where cap: "add_residual ?xs ?cap0 = Some cap"
    "\<forall>w. hm_get cap w = map_option (\<lambda>n. if w \<in> set ?xs then n + 1 else n) (hm_get ?cap0 w)"
    using add_residual_result[OF xs(1) present] by blast
  have rem: "remaining cap w = (if w \<in> set owners then ?n div ?k + (if w \<in> set ?xs then 1 else 0) else 0)" for w
    using cap(2) cap0 by (simp add: remaining_def)
  have "sum (remaining cap) (set owners) = (\<Sum>w \<in> set owners. ?n div ?k) + (\<Sum>w \<in> set owners. if w \<in> set ?xs then 1 else 0)"
    unfolding sum.distrib[symmetric] by (rule sum.cong) (simp_all add: rem)
  also have "(\<Sum>w \<in> set owners. if w \<in> set ?xs then 1 else 0) = card (set ?xs)"
    using xs(2) by (simp add: sum.If_cases inf.absorb2)
  also have "\<dots> = ?n mod ?k" using xs(1,3) distinct_card by fastforce
  also have "(\<Sum>w \<in> set owners. ?n div ?k) = ?k * (?n div ?k)" using assms(1) by (simp add: distinct_card)
  finally have "sum (remaining cap) (set owners) = ?n" by simp
  then have "share_ok owners ?n (remaining cap)" by (simp add: share_ok_def rem)
  moreover have "dom (hm_get cap) = set owners" using cap(2) cap0 by (auto split: if_splits)
  moreover have "colocated_inputs owners ps previous lpc preference = Some (?groups, cap)"
    using assms cap(1) by (simp add: colocated_inputs_def total Let_def)
  ultimately show thesis using that ordered_inventory[of ps lpc] by blast
qed

section \<open>Placement\<close>

definition load :: "Assignment \<Rightarrow> string \<Rightarrow> nat" where
  "load assignment owner = card {p. hm_get assignment p = Some owner}"

lemma finite_owned [simp]: "finite {p. hm_get (a :: Assignment) p = Some w}"
  by (rule finite_subset[OF _ finite_dom_map_of[of a]]) (auto simp: dom_def)

lemma load_insert:
  assumes "hm_get a p = None"
  shows "load (hm_insert p w a) v = load a v + (if v = w then 1 else 0)"
proof -
  have "{q. hm_get (hm_insert p w a) q = Some v} = (if v = w then insert p {q. hm_get a q = Some v} else {q. hm_get a q = Some v})"
    using assms by (auto simp: hash_map)
  with assms show ?thesis by (simp add: load_def)
qed

lemma remaining_insert [hash_map]: "remaining (hm_insert w n cap) v = (if v = w then n else remaining cap v)"
  by (simp add: remaining_def hm_get_insert)

lemma hm_dom_insert: "dom (hm_get (hm_insert k v m)) = insert k (dom (hm_get m))"
  by (auto simp: hash_map split: if_splits)

text \<open>What every step keeps: each owner's load and free capacity add up to its share.\<close>

definition placing :: "string list \<Rightarrow> (string \<Rightarrow> nat) \<Rightarrow> Assignment \<times> Capacity \<Rightarrow> bool" where
  "placing owners share s \<longleftrightarrow> hm_ok (fst s) \<and> dom (hm_get (snd s)) = set owners
     \<and> (\<forall>p w. hm_get (fst s) p = Some w \<longrightarrow> w \<in> set owners)
     \<and> (\<forall>w \<in> set owners. load (fst s) w + remaining (snd s) w = share w)"

lemma placing_insert:
  assumes "placing owners share (a, cap)" "hm_get a p = None" "w \<in> set owners" "0 < remaining cap w"
  shows "placing owners share (hm_insert p w a, hm_insert w (remaining cap w - 1) cap)"
proof -
  have "dom (hm_get (hm_insert w (remaining cap w - 1) cap)) = set owners"
    using assms(1,3) unfolding hm_dom_insert by (auto simp: placing_def)
  moreover have "hm_get (hm_insert p w a) q = Some v \<Longrightarrow> v \<in> set owners" for q v
    using assms(1,3) by (auto simp: placing_def hash_map split: if_splits)
  moreover have "load (hm_insert p w a) v + remaining (hm_insert w (remaining cap w - 1) cap) v = share v"
    if "v \<in> set owners" for v
    using assms(1,4) that by (auto simp: placing_def load_insert[OF assms(2)] hash_map)
  ultimately show ?thesis using assms(1) by (simp add: placing_def hm_ok_insert)
qed

lemma sum_load:
  assumes "placing owners share s"
  shows "sum (load (fst s)) (set owners) = card (dom (hm_get (fst s)))"
proof -
  have "\<forall>p w. hm_get (fst s) p = Some w \<longrightarrow> w \<in> set owners" using assms by (simp add: placing_def)
  then have "dom (hm_get (fst s)) = (\<Union>w \<in> set owners. {p. hm_get (fst s) p = Some w})" by auto
  moreover have "card (\<Union>w \<in> set owners. {p. hm_get (fst s) p = Some w}) = (\<Sum>w \<in> set owners. card {p. hm_get (fst s) p = Some w})"
    by (rule card_UN_disjoint) auto
  ultimately show ?thesis by (simp add: load_def)
qed

lemma freest_owner_exists:
  assumes "placing owners share (a, cap)" "card (dom (hm_get a)) < sum share (set owners)"
  obtains w where "freest_owner owners cap = Some w" "w \<in> set owners" "0 < remaining cap w"
proof -
  have "sum share (set owners) = sum (load a) (set owners) + sum (remaining cap) (set owners)"
    unfolding sum.distrib[symmetric] using assms(1) by (intro sum.cong) (simp_all add: placing_def)
  then have "sum (remaining cap) (set owners) \<noteq> 0" using sum_load[OF assms(1)] assms(2) by (simp del: sum_eq_0_iff)
  then obtain v where "v \<in> set owners" "0 < remaining cap v" by (auto elim: sum.not_neutral_contains_not_neutral)
  then obtain w where w: "freest_owner owners cap = Some w"
    using min_by_key_None[of _ "filter (\<lambda>owner. 0 < remaining cap owner) owners"]
    by (fastforce simp: freest_owner_def filter_empty_conv)
  from min_by_key_Some(1)[OF w[unfolded freest_owner_def]] that[OF w] show thesis by simp
qed

text \<open>Placing the missing partitions of a group keeps what is placed and never panics.\<close>

definition extends :: "Assignment \<Rightarrow> Assignment \<Rightarrow> bool" where
  "extends a a' \<longleftrightarrow> (\<forall>p w. hm_get a p = Some w \<longrightarrow> hm_get a' p = Some w)"

lemma extends_refl [simp]: "extends a a"
  by (simp add: extends_def)

lemma extends_trans: "extends a b \<Longrightarrow> extends b c \<Longrightarrow> extends a c"
  by (simp add: extends_def)

lemma extends_insert: "hm_get a p = None \<Longrightarrow> extends a (hm_insert p w a)"
  by (auto simp: extends_def hash_map)

lemma place_missing_result:
  assumes "placing owners share s" "distinct missing" "\<forall>p \<in> set missing. hm_get (fst s) p = None"
    "card (dom (hm_get (fst s))) + length missing \<le> sum share (set owners)"
    "\<forall>w. whole = Some w \<longrightarrow> w \<in> set owners \<and> length missing \<le> remaining (snd s) w"
  shows "\<exists>s'. place_missing owners whole missing s = Some s' \<and> placing owners share s'
    \<and> dom (hm_get (fst s')) = dom (hm_get (fst s)) \<union> set missing \<and> extends (fst s) (fst s')"
  using assms
proof (induction missing arbitrary: s)
  case (Cons p missing)
  obtain a cap where s: "s = (a, cap)" by (cases s)
  obtain w where w: "(case whole of Some owner \<Rightarrow> Some owner | None \<Rightarrow> freest_owner owners cap) = Some w"
    "w \<in> set owners" "0 < remaining cap w" "\<forall>v. whole = Some v \<longrightarrow> v = w"
  proof (cases whole)
    case None
    have less: "card (dom (hm_get a)) < sum share (set owners)" using Cons.prems(4) by (simp add: s)
    obtain w where "freest_owner owners cap = Some w" "w \<in> set owners" "0 < remaining cap w"
      by (rule freest_owner_exists[OF Cons.prems(1)[unfolded s] less])
    with None show thesis by (intro that[of w]) simp_all
  next
    case (Some v)
    with Cons.prems(5) have "v \<in> set owners" "Suc (length missing) \<le> remaining cap v" by (simp_all add: s)
    with Some show thesis by (intro that[of v]) simp_all
  qed
  let ?a = "hm_insert p w a" and ?cap = "hm_insert w (remaining cap w - 1) cap"
  have fresh: "hm_get a p = None" using Cons.prems(3) s by simp
  have pl: "placing owners share (?a, ?cap)"
    using placing_insert[of owners share a cap p w] Cons.prems(1) fresh w(2,3) s by simp
  have d: "distinct missing" and p: "p \<notin> set missing" using Cons.prems(2) by simp_all
  have none: "\<forall>q \<in> set missing. hm_get (fst (?a, ?cap)) q = None"
  proof
    fix q
    assume q: "q \<in> set missing"
    with Cons.prems(3) have "hm_get a q = None" by (simp add: s)
    with q p show "hm_get (fst (?a, ?cap)) q = None" by (auto simp: hash_map)
  qed
  have "card (dom (hm_get ?a)) = Suc (card (dom (hm_get a)))"
    unfolding hm_dom_insert using fresh by (simp add: domIff finite_dom_map_of)
  then have room: "card (dom (hm_get (fst (?a, ?cap)))) + length missing \<le> sum share (set owners)"
    using Cons.prems(4) by (simp add: s)
  have whole: "\<forall>v. whole = Some v \<longrightarrow> v \<in> set owners \<and> length missing \<le> remaining (snd (?a, ?cap)) v"
  proof (intro allI impI)
    fix v
    assume v: "whole = Some v"
    with w(4) have "v = w" by simp
    moreover have "Suc (length missing) \<le> remaining cap v" using Cons.prems(5) v by (simp add: s)
    ultimately show "v \<in> set owners \<and> length missing \<le> remaining (snd (?a, ?cap)) v"
      using w(2) by (simp add: hash_map)
  qed
  obtain s' where s': "place_missing owners whole missing (?a, ?cap) = Some s'" "placing owners share s'"
    "dom (hm_get (fst s')) = dom (hm_get ?a) \<union> set missing" "extends ?a (fst s')"
    using Cons.IH[OF pl d none room whole] unfolding fst_conv by blast
  have "place_missing owners whole (p # missing) s = Some s'" using s'(1) w(1) by (simp add: s)
  moreover have "dom (hm_get (fst s')) = dom (hm_get (fst s)) \<union> set (p # missing)"
    unfolding s'(3) hm_dom_insert s by simp
  ultimately show ?case using s'(2) extends_trans[OF extends_insert[OF fresh] s'(4)] unfolding s fst_conv by blast
qed simp

lemma place_groups_result:
  assumes "placing owners share s" "distinct (inventory groups)" "finite stock"
    "dom (hm_get (fst s)) \<subseteq> stock" "set (inventory groups) \<subseteq> stock" "card stock = sum share (set owners)"
  shows "\<exists>s'. place_groups owners groups s = Some s' \<and> placing owners share s'
    \<and> dom (hm_get (fst s')) = dom (hm_get (fst s)) \<union> set (inventory groups) \<and> extends (fst s) (fst s')"
  using assms(1,2,4,5)
proof (induction groups arbitrary: s)
  case (Cons g groups)
  obtain l grp where g: "g = (l, grp)" by (cases g)
  obtain a cap where s: "s = (a, cap)" by (cases s)
  let ?missing = "filter (\<lambda>p. hm_get a p = None) grp"
  let ?whole = "whole_owner owners grp ?missing a cap"
  have d: "distinct ?missing" using Cons.prems(2) g by simp
  have "dom (hm_get a) \<inter> set ?missing = {}" by auto
  then have "card (dom (hm_get a)) + length ?missing = card (dom (hm_get a) \<union> set ?missing)"
    using distinct_card[OF d] by (simp add: card_Un_disjoint finite_dom_map_of)
  also have "\<dots> \<le> card stock" using Cons.prems(3,4) s g by (intro card_mono[OF assms(3)]) auto
  finally have room: "card (dom (hm_get a)) + length ?missing \<le> sum share (set owners)" using assms(6) by simp
  have whole: "\<forall>w. ?whole = Some w \<longrightarrow> w \<in> set owners \<and> length ?missing \<le> remaining (snd (a, cap)) w"
    by (auto simp: whole_owner_def find_Some_iff)
  have none: "\<forall>p \<in> set ?missing. hm_get (fst (a, cap)) p = None" by simp
  from place_missing_result[OF Cons.prems(1)[unfolded s] d none _ whole] room
  obtain s1 where s1: "place_missing owners ?whole ?missing (a, cap) = Some s1" "placing owners share s1"
    "dom (hm_get (fst s1)) = dom (hm_get a) \<union> set ?missing" "extends a (fst s1)" by (metis fst_conv)
  have dom1: "dom (hm_get (fst s1)) = dom (hm_get a) \<union> set grp" unfolding s1(3) by auto
  have sub: "distinct (inventory groups)" "dom (hm_get (fst s1)) \<subseteq> stock" "set (inventory groups) \<subseteq> stock"
    using Cons.prems(2,3,4) unfolding dom1 by (simp_all add: s g)
  obtain s' where s': "place_groups owners groups s1 = Some s'" "placing owners share s'"
    "dom (hm_get (fst s')) = dom (hm_get (fst s1)) \<union> set (inventory groups)" "extends (fst s1) (fst s')"
    using Cons.IH[OF s1(2) sub] by blast
  have "place_groups owners (g # groups) s = Some s'" using s1(1) s'(1) by (simp add: s g Let_def)
  moreover have "dom (hm_get (fst s')) = dom (hm_get (fst s)) \<union> set (inventory (g # groups))"
    unfolding s'(3) dom1 by (simp add: s g Un_assoc)
  ultimately show ?case using s'(2) extends_trans[OF s1(4) s'(4)] by (auto simp: s)
qed simp

text \<open>Reservation: every owner keeps as many of its previous partitions as its share allows.\<close>

lemma retain_partition_result:
  assumes "placing owners share s" "hm_get (fst s) p = None"
  shows "placing owners share (retain_partition previous p s)"
    "extends (fst s) (fst (retain_partition previous p s))"
    "dom (hm_get (fst (retain_partition previous p s))) \<subseteq> insert p (dom (hm_get (fst s)))"
    "w \<in> set owners \<Longrightarrow> load (fst (retain_partition previous p s)) w
       = load (fst s) w + (if hm_get previous p = Some w \<and> load (fst s) w < share w then 1 else 0)"
    "hm_get (fst (retain_partition previous p s)) q = Some v \<Longrightarrow> hm_get (fst s) q = Some v \<or> hm_get previous q = Some v"
proof -
  obtain a cap where s: "s = (a, cap)" by (cases s)
  have keys: "dom (hm_get cap) = set owners" and add: "\<And>w. w \<in> set owners \<Longrightarrow> load a w + remaining cap w = share w"
    using assms(1) by (auto simp: placing_def s)
  consider (skip) "retain_partition previous p s = s" "\<And>w. w \<in> set owners \<Longrightarrow> hm_get previous p = Some w \<Longrightarrow> remaining cap w = 0"
    | (take) w where "hm_get previous p = Some w" "w \<in> set owners" "0 < remaining cap w"
      "retain_partition previous p s = (hm_insert p w a, hm_insert w (remaining cap w - 1) cap)"
  proof (cases "hm_get previous p")
    case None
    then show thesis by (intro skip) (simp_all add: retain_partition_def s)
  next
    case (Some w)
    show thesis
    proof (cases "w \<in> set owners \<and> 0 < remaining cap w")
      case True
      with keys obtain n where "hm_get cap w = Some n" by auto
      with True Some show thesis by (intro take[of w]) (auto simp: retain_partition_def s remaining_def)
    next
      case False
      with Some keys show thesis
        by (intro skip) (auto simp: retain_partition_def s remaining_def split: option.splits)
    qed
  qed
  note step = this
  show "placing owners share (retain_partition previous p s)"
    using step placing_insert[of owners share a cap p] assms s by cases auto
  show "extends (fst s) (fst (retain_partition previous p s))"
    using step extends_insert[of a p] assms(2) s by cases auto
  show "dom (hm_get (fst (retain_partition previous p s))) \<subseteq> insert p (dom (hm_get (fst s)))"
    using step by cases (auto simp: hm_dom_insert s)
  show "hm_get (fst (retain_partition previous p s)) q = Some v \<Longrightarrow> hm_get (fst s) q = Some v \<or> hm_get previous q = Some v"
    using step by cases (auto simp: hash_map s split: if_splits)
  show "load (fst (retain_partition previous p s)) w
       = load (fst s) w + (if hm_get previous p = Some w \<and> load (fst s) w < share w then 1 else 0)" if w: "w \<in> set owners"
    using step
  proof cases
    case skip
    with add[OF w] w show ?thesis by (auto simp: s)
  next
    case (take v)
    with add[OF take(2)] assms(2) show ?thesis by (auto simp: load_insert s)
  qed
qed

lemma retain_all_result:
  assumes "placing owners share s" "distinct ps" "\<forall>p \<in> set ps. hm_get (fst s) p = None"
  shows "placing owners share (fold (retain_partition previous) ps s)
    \<and> dom (hm_get (fst (fold (retain_partition previous) ps s))) \<subseteq> dom (hm_get (fst s)) \<union> set ps
    \<and> (\<forall>w \<in> set owners. load (fst (fold (retain_partition previous) ps s)) w
         = min (load (fst s) w + card {p \<in> set ps. hm_get previous p = Some w}) (share w))
    \<and> (\<forall>q v. hm_get (fst (fold (retain_partition previous) ps s)) q = Some v
         \<longrightarrow> hm_get (fst s) q = Some v \<or> hm_get previous q = Some v)"
  using assms
proof (induction ps arbitrary: s)
  case Nil
  then show ?case by (auto simp: placing_def min_def)
next
  case (Cons p ps)
  have fresh: "hm_get (fst s) p = None" and p: "p \<notin> set ps" and d: "distinct ps" using Cons.prems(2,3) by simp_all
  let ?s = "retain_partition previous p s"
  note step = retain_partition_result[OF Cons.prems(1) fresh, where previous = previous]
  have none: "\<forall>q \<in> set ps. hm_get (fst ?s) q = None"
  proof
    fix q
    assume q: "q \<in> set ps"
    with p Cons.prems(3) have "q \<notin> insert p (dom (hm_get (fst s)))" by auto
    with step(3) show "hm_get (fst ?s) q = None" by blast
  qed
  note ih = Cons.IH[OF step(1) d none]
  have "dom (hm_get (fst (fold (retain_partition previous) (p # ps) s))) \<subseteq> dom (hm_get (fst s)) \<union> set (p # ps)"
    using conjunct1[OF conjunct2[OF ih]] step(3) unfolding fold_simps list.set by blast
  moreover have "load (fst (fold (retain_partition previous) (p # ps) s)) w
      = min (load (fst s) w + card {q \<in> set (p # ps). hm_get previous q = Some w}) (share w)" if w: "w \<in> set owners" for w
  proof -
    have "{q \<in> set (p # ps). hm_get previous q = Some w}
        = (if hm_get previous p = Some w then insert p {q \<in> set ps. hm_get previous q = Some w} else {q \<in> set ps. hm_get previous q = Some w})"
      by auto
    then have "card {q \<in> set (p # ps). hm_get previous q = Some w}
        = (if hm_get previous p = Some w then 1 else 0) + card {q \<in> set ps. hm_get previous q = Some w}"
      using p by simp
    with ih w step(4)[OF w] show ?thesis by (auto simp: min_def)
  qed
  moreover have "hm_get (fst s) q = Some v \<or> hm_get previous q = Some v"
    if "hm_get (fst (fold (retain_partition previous) (p # ps) s)) q = Some v" for q v
    using ih step(5)[of q v] that by auto
  ultimately show ?case using ih by simp
qed

section \<open>The sticky layer\<close>

text \<open>How many of the partitions an owner had it still has.\<close>

definition kept :: "VirtualPartitionId set \<Rightarrow> Assignment \<Rightarrow> Assignment \<Rightarrow> string \<Rightarrow> nat" where
  "kept stock previous assignment owner =
     card {p \<in> stock. hm_get previous p = Some owner \<and> hm_get assignment p = Some owner}"

lemma retained_result:
  assumes "distinct (inventory groups)" "dom (hm_get cap) = set owners"
    "sum (remaining cap) (set owners) = card (set (inventory groups))"
  obtains a where "retained_colocated_candidate owners groups previous cap = Some a" "hm_ok a"
    "dom (hm_get a) = set (inventory groups)" "\<forall>p w. hm_get a p = Some w \<longrightarrow> w \<in> set owners"
    "\<forall>w \<in> set owners. load a w = remaining cap w"
    "\<forall>w \<in> set owners. kept (set (inventory groups)) previous a w
       = min (card {p \<in> set (inventory groups). hm_get previous p = Some w}) (load a w)"
proof -
  let ?share = "remaining cap" and ?stock = "set (inventory groups)"
  let ?s = "fold (retain_partition previous) (inventory groups) ([], cap)"
  have init: "placing owners ?share ([], cap)" using assms(2) by (simp add: placing_def load_def)
  have none: "\<forall>p \<in> ?stock. hm_get (fst ([] :: Assignment, cap)) p = None" by simp
  note ret = retain_all_result[OF init assms(1) none, of previous]
  note pl = conjunct1[OF ret] and ld = conjunct1[OF conjunct2[OF conjunct2[OF ret]]]
    and entries = conjunct2[OF conjunct2[OF conjunct2[OF ret]]]
  have sub: "dom (hm_get (fst ?s)) \<subseteq> ?stock" using conjunct1[OF conjunct2[OF ret]] unfolding fst_conv by simp
  obtain s' where s': "place_groups owners groups ?s = Some s'" "placing owners ?share s'"
    "dom (hm_get (fst s')) = dom (hm_get (fst ?s)) \<union> ?stock" "extends (fst ?s) (fst s')"
    using place_groups_result[OF pl assms(1) finite_set sub subset_refl assms(3)[symmetric]] by blast
  let ?a = "fst s'"
  have dom: "dom (hm_get ?a) = ?stock" using s'(3) sub by blast
  have "sum (load ?a) (set owners) = sum ?share (set owners)" using sum_load[OF s'(2)] dom assms(3) by simp
  moreover have le: "\<forall>w \<in> set owners. load ?a w \<le> ?share w"
    using s'(2) unfolding placing_def by (metis le_add1)
  ultimately have loads: "\<forall>w \<in> set owners. load ?a w = ?share w" 
    using sum_mono_inv[of "load ?a" "set owners" ?share] by blast
  have keep: "kept ?stock previous ?a w = min (card {p \<in> ?stock. hm_get previous p = Some w}) (load ?a w)" if w: "w \<in> set owners" for w
  proof (rule antisym)
    have "{p \<in> ?stock. hm_get previous p = Some w \<and> hm_get ?a p = Some w} \<subseteq> {p \<in> ?stock. hm_get previous p = Some w}"
      "{p \<in> ?stock. hm_get previous p = Some w \<and> hm_get ?a p = Some w} \<subseteq> {p. hm_get ?a p = Some w}" by auto
    then show "kept ?stock previous ?a w \<le> min (card {p \<in> ?stock. hm_get previous p = Some w}) (load ?a w)"
      unfolding kept_def load_def by (intro min.boundedI card_mono) simp_all
    have "{p. hm_get (fst ?s) p = Some w} \<subseteq> {p \<in> ?stock. hm_get previous p = Some w \<and> hm_get ?a p = Some w}"
    proof
      fix p
      assume "p \<in> {p. hm_get (fst ?s) p = Some w}"
      then have p: "hm_get (fst ?s) p = Some w" by simp
      with entries have "hm_get previous p = Some w" unfolding fst_conv by fastforce
      moreover have "hm_get ?a p = Some w" using s'(4) p by (simp add: extends_def)
      ultimately show "p \<in> {p \<in> ?stock. hm_get previous p = Some w \<and> hm_get ?a p = Some w}" using dom by blast
    qed
    then have "load (fst ?s) w \<le> kept ?stock previous ?a w" unfolding kept_def load_def by (intro card_mono) simp_all
    moreover have "load (fst ?s) w = min (card {p \<in> ?stock. hm_get previous p = Some w}) (?share w)"
      using bspec[OF ld w] by (simp add: load_def[of "[]"])
    ultimately show "min (card {p \<in> ?stock. hm_get previous p = Some w}) (load ?a w) \<le> kept ?stock previous ?a w"
      using loads w by simp
  qed
  have "retained_colocated_candidate owners groups previous cap = Some ?a"
    using s'(1) by (simp add: retained_colocated_candidate_def)
  then show thesis
  proof (rule that)
    show "hm_ok ?a" "\<forall>p w. hm_get ?a p = Some w \<longrightarrow> w \<in> set owners" using s'(2) unfolding placing_def by blast+
  qed (use dom loads keep in blast)+
qed

text \<open>The layer is total on the inventory, balanced, and keeps as much ownership as the balance allows.\<close>

lemma assign_sticky_groups_result:
  assumes "distinct owners" "owners \<noteq> []" "lpc \<noteq> 0"
  obtains a where "assign_sticky_groups owners ps previous lpc preference = Some a" "hm_ok a"
    "dom (hm_get a) = set ps" "\<forall>p w. hm_get a p = Some w \<longrightarrow> w \<in> set owners"
    "share_ok owners (card (set ps)) (load a)"
    "\<forall>w \<in> set owners. kept (set ps) previous a w = min (card {p \<in> set ps. hm_get previous p = Some w}) (load a w)"
proof (cases "ps = []")
  case True
  then show thesis
    by (intro that[of "[]"]) (simp_all add: assign_sticky_groups_def share_ok_def load_def kept_def)
next
  case False
  obtain groups cap where g: "colocated_inputs owners ps previous lpc preference = Some (groups, cap)"
    "distinct (inventory groups)" "set (inventory groups) = set ps" "dom (hm_get cap) = set owners"
    "share_ok owners (card (set ps)) (remaining cap)"
    by (rule colocated_inputs_result[OF assms(1,2) False assms(3)])
  have total: "sum (remaining cap) (set owners) = card (set (inventory groups))" using g(3,5) by (simp add: share_ok_def)
  obtain a where a: "retained_colocated_candidate owners groups previous cap = Some a" "hm_ok a"
    "dom (hm_get a) = set (inventory groups)" "\<forall>p w. hm_get a p = Some w \<longrightarrow> w \<in> set owners"
    "\<forall>w \<in> set owners. load a w = remaining cap w"
    "\<forall>w \<in> set owners. kept (set (inventory groups)) previous a w
       = min (card {p \<in> set (inventory groups). hm_get previous p = Some w}) (load a w)"
    by (rule retained_result[OF g(2,4) total])
  have "assign_sticky_groups owners ps previous lpc preference = Some a"
    using False assms(2) g(1) a(1) by (simp add: assign_sticky_groups_def)
  moreover have "share_ok owners (card (set ps)) (load a)" using g(5) a(5) by (simp add: share_ok_def)
  ultimately show thesis using that a(2-4,6) unfolding g(3) by blast
qed

end
