(* ===== verification/Placement_Repair.thy ===== *)
theory Placement_Repair
  imports Sticky_Assignment
begin

text \<open>
  The optional repair of a placement (\<open>coordination/placement_repair.rs\<close>): one attempt per split
  logical group to collect it in the domain that holds most of it, by exchanging owners, within a
  budget of changed partitions.  A result of \<open>None\<close> is a panic.
\<close>

section \<open>Model\<close>

record RepairSummary =
  attempted_groups :: nat
  consolidated_groups :: nat
  occupancy_scans :: nat
  optional_moves :: nat

type_synonym Domains = "(string, string) hmap"
type_synonym DomainCounts = "(u32, (string, nat) hmap) hmap"

definition movement_budget :: "nat \<Rightarrow> u8 \<Rightarrow> nat" where
  "movement_budget partitions percent =
     (if percent = 0 \<or> partitions = 0 then 0
      else min (max (partitions div 100 * unat percent + partitions mod 100 * unat percent div 100) 2) partitions)"

definition changed_partitions :: "Assignment \<Rightarrow> Assignment \<Rightarrow> nat" where
  "changed_partitions assignment baseline = length (filter (\<lambda>(p, owner). hm_get baseline p \<noteq> Some owner) assignment)"

definition domain_of :: "Domains \<Rightarrow> Assignment \<Rightarrow> VirtualPartitionId \<Rightarrow> string option" where
  "domain_of domains assignment p = Option.bind (hm_get assignment p) (hm_get domains)"

definition occupancy :: "string list \<Rightarrow> (string, nat) hmap" where
  "occupancy ds = map (\<lambda>d. (d, length (filter (\<lambda>d'. d' = d) ds))) (sort_dedup ds)"

fun domain_counts :: "LogicalGroups \<Rightarrow> Assignment \<Rightarrow> Domains \<Rightarrow> DomainCounts option" where
  "domain_counts [] assignment domains = Some []"
| "domain_counts ((l, grp) # groups) assignment domains =
     (case those (map (domain_of domains assignment) grp) of
        None \<Rightarrow> None
      | Some ds \<Rightarrow> map_option (\<lambda>counts. (l, occupancy ds) # counts) (domain_counts groups assignment domains))"

definition quality :: "DomainCounts \<Rightarrow> nat \<times> nat" where
  "quality counts =
     fold (\<lambda>(l, owners) (splits, fragments).
         (splits + (if 1 < length owners then 1 else 0), fragments + (length owners - 2))) counts (0, 0)"

text \<open>
  The partition given back for one that comes in: a fragment before a whole group, then one whose
  group already occupies the source domain, then the least.  The counts have an entry for every
  logical group of the pass.
\<close>

definition return_counts :: "DomainCounts \<Rightarrow> u32 \<Rightarrow> (string, nat) hmap" where
  "return_counts counts l = (case hm_get counts l of None \<Rightarrow> [] | Some owners \<Rightarrow> owners)"

definition return_partition ::
    "Domains \<Rightarrow> DomainCounts \<Rightarrow> u32 \<Rightarrow> u32 \<Rightarrow> string \<Rightarrow> string \<Rightarrow> Assignment \<Rightarrow> (VirtualPartitionId \<times> string) option" where
  "return_partition domains counts logical_count logical destination source_domain proposal =
     min_by_key (\<lambda>(candidate, _).
         let owners = return_counts counts (candidate mod logical_count)
         in (length owners = 1,
             - int (case hm_get owners source_domain of None \<Rightarrow> 0 | Some n \<Rightarrow> n), candidate))
       (filter (\<lambda>(candidate, worker). candidate mod logical_count \<noteq> logical \<and> hm_get domains worker = Some destination)
         proposal)"

text \<open>The exchanges of one proposal; \<open>Some None\<close> when the destination has no room for the group.\<close>

fun exchange_missing ::
    "Domains \<Rightarrow> DomainCounts \<Rightarrow> u32 \<Rightarrow> u32 \<Rightarrow> string \<Rightarrow> VirtualPartitionId list \<Rightarrow> Assignment \<Rightarrow> Assignment option option" where
  "exchange_missing domains counts logical_count logical destination [] proposal = Some (Some proposal)"
| "exchange_missing domains counts logical_count logical destination (p # missing) proposal =
     (case hm_get proposal p of
        None \<Rightarrow> None
      | Some source_worker \<Rightarrow>
          (case hm_get domains source_worker of
             None \<Rightarrow> None
           | Some source_domain \<Rightarrow>
               (case return_partition domains counts logical_count logical destination source_domain proposal of
                  None \<Rightarrow> Some None
                | Some (returned, destination_worker) \<Rightarrow>
                    exchange_missing domains counts logical_count logical destination missing
                      (hm_insert returned source_worker (hm_insert p destination_worker proposal)))))"

type_synonym repair_state = "Assignment \<times> DomainCounts \<times> (nat \<times> nat) \<times> RepairSummary"

definition consolidate_group ::
    "Assignment \<Rightarrow> Domains \<Rightarrow> u32 \<Rightarrow> nat \<Rightarrow> LogicalGroups \<Rightarrow> u32 \<times> VirtualPartitionId list \<Rightarrow> repair_state \<Rightarrow> repair_state option" where
  "consolidate_group baseline domains logical_count budget groups g s =
     (case (g, s) of ((logical, grp), assignment, counts, current_quality, summary) \<Rightarrow>
        (case hm_get counts logical of
           None \<Rightarrow> None
         | Some group_counts \<Rightarrow>
             if length group_counts \<le> 1 then Some s
             else
               let summary = summary\<lparr>attempted_groups := attempted_groups summary + 1\<rparr>
               in case min_by_key (\<lambda>(domain, n). (- int n, domain)) group_counts of
                    None \<Rightarrow> None
                  | Some (destination, _) \<Rightarrow>
                      (case exchange_missing domains counts logical_count logical destination
                              (filter (\<lambda>p. domain_of domains assignment p \<noteq> Some destination) grp) assignment of
                         None \<Rightarrow> None
                       | Some None \<Rightarrow> Some (assignment, counts, current_quality, summary)
                       | Some (Some proposal) \<Rightarrow>
                           if budget < changed_partitions proposal baseline
                           then Some (assignment, counts, current_quality, summary)
                           else
                             let summary = summary\<lparr>occupancy_scans := occupancy_scans summary + 1\<rparr>
                             in case domain_counts groups proposal domains of
                                  None \<Rightarrow> None
                                | Some proposal_counts \<Rightarrow>
                                    if quality proposal_counts < current_quality
                                    then Some (proposal, proposal_counts, quality proposal_counts,
                                      summary\<lparr>consolidated_groups := consolidated_groups summary + 1\<rparr>)
                                    else Some (assignment, counts, current_quality, summary))))"

fun consolidate_groups ::
    "Assignment \<Rightarrow> Domains \<Rightarrow> u32 \<Rightarrow> nat \<Rightarrow> LogicalGroups \<Rightarrow> LogicalGroups \<Rightarrow> repair_state \<Rightarrow> repair_state option" where
  "consolidate_groups baseline domains logical_count budget groups [] s = Some s"
| "consolidate_groups baseline domains logical_count budget groups (g # gs) s =
     (case consolidate_group baseline domains logical_count budget groups g s of
        None \<Rightarrow> None
      | Some s' \<Rightarrow> consolidate_groups baseline domains logical_count budget groups gs s')"

definition no_repair :: RepairSummary where
  "no_repair = \<lparr>attempted_groups = 0, consolidated_groups = 0, occupancy_scans = 0, optional_moves = 0\<rparr>"

definition repair_groups :: "Assignment \<Rightarrow> Domains \<Rightarrow> u32 \<Rightarrow> LogicalGroups" where
  "repair_groups assignment domains logical_count =
     order_groups (logical_groups (map fst (filter (\<lambda>(p, worker). hm_get domains worker \<noteq> None) assignment)) logical_count)"

definition consolidate ::
    "Assignment \<Rightarrow> Assignment \<Rightarrow> Domains \<Rightarrow> u32 \<Rightarrow> nat \<Rightarrow> (RepairSummary \<times> Assignment) option" where
  "consolidate assignment baseline domains logical_count budget =
     (if budget = 0 then Some (no_repair, assignment)
      else if logical_count = 0 \<and> filter (\<lambda>(p, worker). hm_get domains worker \<noteq> None) assignment \<noteq> [] then None
      else
        let groups = repair_groups assignment domains logical_count
        in case domain_counts groups assignment domains of
             None \<Rightarrow> None
           | Some counts \<Rightarrow>
               map_option (\<lambda>(assignment', _, _, summary).
                   (summary\<lparr>optional_moves := changed_partitions assignment' baseline\<rparr>, assignment'))
                 (consolidate_groups baseline domains logical_count budget groups groups
                   (assignment, counts, quality counts, no_repair\<lparr>occupancy_scans := 1\<rparr>)))"

section \<open>Exchanges\<close>

lemma load_update:
  assumes "hm_get a p = Some v"
  shows "load (hm_insert p w a) u + (if u = v then 1 else 0) = load a u + (if u = w then 1 else 0)"
proof -
  let ?rest = "{q. q \<noteq> p \<and> hm_get a q = Some u}"
  have "{q. hm_get (hm_insert p w a) q = Some u} = (if u = w then insert p ?rest else ?rest)"
    "{q. hm_get a q = Some u} = (if u = v then insert p ?rest else ?rest)"
    using assms by (auto simp: hash_map)
  moreover have "finite ?rest" by (rule finite_subset[OF _ finite_owned[of a u]]) auto
  ultimately show ?thesis by (simp add: load_def)
qed

text \<open>What every exchange keeps: the partitions and every worker's load.\<close>

definition same_loads :: "Assignment \<Rightarrow> Assignment \<Rightarrow> bool" where
  "same_loads a a' \<longleftrightarrow> map fst a' = map fst a \<and> (\<forall>w. load a' w = load a w)"

lemma same_loads_refl [simp]: "same_loads a a"
  by (simp add: same_loads_def)

lemma same_loads_trans: "same_loads a b \<Longrightarrow> same_loads b c \<Longrightarrow> same_loads a c"
  by (simp add: same_loads_def)

lemma hm_insert_keys: "hm_get m k = Some v \<Longrightarrow> map fst (hm_insert k w m) = map fst m"
  by (induction m) (auto split: if_splits)

lemma same_loads_dom: "same_loads a a' \<Longrightarrow> dom (hm_get a') = dom (hm_get a)"
  by (simp add: same_loads_def dom_map_of_conv_image_fst flip: set_map)

lemma same_loads_owner:
  assumes "same_loads a a'" "hm_get a' p = Some w"
  shows "\<exists>q. hm_get a q = Some w"
proof -
  have "load a' w \<noteq> 0" unfolding load_def card_eq_0_iff using assms(2) finite_owned[of a' w] by blast
  then have "load a w \<noteq> 0" using assms(1) by (simp add: same_loads_def)
  then show ?thesis unfolding load_def card_eq_0_iff by blast
qed

lemma exchange_same_loads:
  assumes "hm_get a p = Some v" "hm_get a q = Some w" "p \<noteq> q"
  shows "same_loads a (hm_insert q v (hm_insert p w a))"
proof -
  have q: "hm_get (hm_insert p w a) q = Some w" using assms by (simp add: hash_map)
  have "load (hm_insert q v (hm_insert p w a)) u = load a u" for u
    using load_update[OF q, of v u] load_update[OF assms(1), of w u] by (auto split: if_splits)
  moreover have "map fst (hm_insert q v (hm_insert p w a)) = map fst a"
    using hm_insert_keys[OF q] hm_insert_keys[OF assms(1)] by simp
  ultimately show ?thesis by (simp add: same_loads_def)
qed

text \<open>The partitions of a pass stay on workers of the pass, so that no lookup fails.\<close>

definition placed_in :: "Domains \<Rightarrow> VirtualPartitionId set \<Rightarrow> Assignment \<Rightarrow> bool" where
  "placed_in domains stock a \<longleftrightarrow> (\<forall>p \<in> stock. domain_of domains a p \<noteq> None)"

lemma domain_of_Some: "domain_of domains a p = Some d \<longleftrightarrow> (\<exists>w. hm_get a p = Some w \<and> hm_get domains w = Some d)"
  by (cases "hm_get a p") (simp_all add: domain_of_def)

lemma exchange_placed:
  assumes "placed_in domains stock a" "hm_get domains v = Some d" "hm_get domains w = Some e"
  shows "placed_in domains stock (hm_insert q v (hm_insert p w a))"
  unfolding placed_in_def
proof
  fix r
  assume "r \<in> stock"
  then have "domain_of domains a r \<noteq> None" using assms(1) by (simp add: placed_in_def)
  then show "domain_of domains (hm_insert q v (hm_insert p w a)) r \<noteq> None"
    using assms(2,3) by (simp add: domain_of_def hash_map)
qed

lemma exchange_missing_result:
  assumes "set missing \<subseteq> stock" "placed_in domains stock a" "\<forall>p \<in> set missing. p mod lc = l" "hm_ok a"
  shows "\<exists>r. exchange_missing domains counts lc l destination missing a = Some r
    \<and> (\<forall>a'. r = Some a' \<longrightarrow> same_loads a a' \<and> placed_in domains stock a')"
  using assms
proof (induction missing arbitrary: a)
  case (Cons p missing)
  have "domain_of domains a p \<noteq> None" using Cons.prems(1,2) by (simp add: placed_in_def)
  then obtain v d where v: "hm_get a p = Some v" "hm_get domains v = Some d" by (auto simp: domain_of_Some)
  show ?case
  proof (cases "return_partition domains counts lc l destination d a")
    case None
    with v show ?thesis by simp
  next
    case (Some qw)
    obtain q w where qw: "qw = (q, w)" by (cases qw)
    have "(q, w) \<in> set (filter (\<lambda>(candidate, worker). candidate mod lc \<noteq> l \<and> hm_get domains worker = Some destination) a)"
      using min_by_key_Some(1)[OF Some[unfolded return_partition_def]] unfolding qw .
    then have q: "(q, w) \<in> set a" "q mod lc \<noteq> l" "hm_get domains w = Some destination" by simp_all
    have aq: "hm_get a q = Some w" using q(1) Cons.prems(4) by (simp add: hm_get_mem)
    have pq: "p \<noteq> q" using q(2) Cons.prems(3) by auto
    let ?a = "hm_insert q v (hm_insert p w a)"
    have same: "same_loads a ?a" by (rule exchange_same_loads[OF v(1) aq pq])
    have "hm_ok ?a" by (intro hm_ok_insert Cons.prems(4))
    moreover have "set missing \<subseteq> stock" "\<forall>p \<in> set missing. p mod lc = l" using Cons.prems(1,3) by simp_all
    ultimately obtain r where r: "exchange_missing domains counts lc l destination missing ?a = Some r"
      "\<forall>a'. r = Some a' \<longrightarrow> same_loads ?a a' \<and> placed_in domains stock a'"
      using Cons.IH exchange_placed[OF Cons.prems(2) v(2) q(3)] by blast
    have "exchange_missing domains counts lc l destination (p # missing) a = Some r"
      using r(1) Some v by (simp add: qw)
    with r(2) same_loads_trans[OF same] show ?thesis by blast
  qed
qed simp

section \<open>Occupancy\<close>

lemma those_map_Some: "those (map f xs) \<noteq> None \<longleftrightarrow> (\<forall>x \<in> set xs. f x \<noteq> None)"
  by (induction xs) (auto split: option.splits)

lemma domain_counts_total:
  assumes "placed_in domains (set (inventory groups)) a"
  obtains counts where "domain_counts groups a domains = Some counts" "map fst counts = map fst groups"
  using assms
proof (induction groups arbitrary: thesis)
  case (Cons g groups)
  obtain l grp where g: "g = (l, grp)" by (cases g)
  have placed: "placed_in domains (set (inventory groups)) a" "\<forall>p \<in> set grp. domain_of domains a p \<noteq> None"
    using Cons.prems(2) by (auto simp: placed_in_def g)
  obtain counts where counts: "domain_counts groups a domains = Some counts" "map fst counts = map fst groups"
    using Cons.IH placed(1) by blast
  obtain ds where "those (map (domain_of domains a) grp) = Some ds"
    using placed(2) those_map_Some[of "domain_of domains a" grp] by blast
  with counts show ?case by (intro Cons.prems(1)[of "(l, occupancy ds) # counts"]) (simp_all add: g)
qed simp

lemma logical_groups_members: "(l, grp) \<in> set (order_groups (logical_groups ps lc)) \<Longrightarrow> p \<in> set grp \<Longrightarrow> p mod lc = l"
  by (auto simp: order_groups_def logical_groups_def)

section \<open>One pass\<close>

definition repair_ok ::
    "Assignment \<Rightarrow> Assignment \<Rightarrow> Domains \<Rightarrow> nat \<Rightarrow> LogicalGroups \<Rightarrow> nat \<times> nat \<Rightarrow> repair_state \<Rightarrow> bool" where
  "repair_ok start baseline domains budget groups q0 s \<longleftrightarrow>
     (case s of (a, counts, q, summary) \<Rightarrow>
        same_loads start a \<and> placed_in domains (set (inventory groups)) a
        \<and> domain_counts groups a domains = Some counts \<and> q = quality counts \<and> q \<le> q0
        \<and> (changed_partitions start baseline \<le> budget \<longrightarrow> changed_partitions a baseline \<le> budget))"

lemma consolidate_group_result:
  assumes "repair_ok start baseline domains budget groups q0 s" "g \<in> set groups" "hm_ok start"
    "\<forall>(l, grp) \<in> set groups. \<forall>p \<in> set grp. p mod lc = l"
  shows "\<exists>s'. consolidate_group baseline domains lc budget groups g s = Some s'
    \<and> repair_ok start baseline domains budget groups q0 s'"
proof -
  obtain l grp where g: "g = (l, grp)" by (cases g)
  obtain a counts q summary where s: "s = (a, counts, q, summary)" by (cases s)
  have ok: "same_loads start a" "placed_in domains (set (inventory groups)) a" "domain_counts groups a domains = Some counts"
    "q = quality counts" "q \<le> q0" "changed_partitions start baseline \<le> budget \<longrightarrow> changed_partitions a baseline \<le> budget"
    using assms(1) unfolding repair_ok_def s prod.case by blast+
  have keep: "repair_ok start baseline domains budget groups q0 (a, counts, q, summary')" for summary'
    using ok by (simp add: repair_ok_def)
  have "map fst counts = map fst groups" using domain_counts_total[OF ok(2)] ok(3) by auto
  then have "l \<in> fst ` set counts" using assms(2) g by (metis fst_conv image_eqI list.set_map)
  then obtain gc where gc: "hm_get counts l = Some gc" by (metis map_of_eq_None_iff not_None_eq)
  show ?thesis
  proof (cases "length gc \<le> 1")
    case True
    with gc keep show ?thesis by (simp add: consolidate_group_def g s)
  next
    case False
    then have "min_by_key (\<lambda>(domain, n). (- int n, domain)) gc \<noteq> None" by (auto simp: min_by_key_None)
    then obtain destination n where dest: "min_by_key (\<lambda>(domain, n). (- int n, domain)) gc = Some (destination, n)" by auto
    let ?missing = "filter (\<lambda>p. domain_of domains a p \<noteq> Some destination) grp"
    have sub: "set ?missing \<subseteq> set (inventory groups)" using assms(2) g by force
    have mods: "\<forall>p \<in> set ?missing. p mod lc = l" using assms(2,4) g by auto
    have "hm_ok a" using ok(1) assms(3) by (simp add: same_loads_def)
    from exchange_missing_result[OF sub ok(2) mods this] obtain r where
      r: "exchange_missing domains counts lc l destination ?missing a = Some r"
      "\<forall>a'. r = Some a' \<longrightarrow> same_loads a a' \<and> placed_in domains (set (inventory groups)) a'" by blast
    show ?thesis
    proof (cases r)
      case None
      with gc False dest r(1) keep show ?thesis by (simp add: consolidate_group_def g s Let_def)
    next
      case (Some a')
      with r(2) have a': "same_loads a a'" "placed_in domains (set (inventory groups)) a'" by simp_all
      obtain counts' where c': "domain_counts groups a' domains = Some counts'" by (rule domain_counts_total[OF a'(2)])
      have new: "repair_ok start baseline domains budget groups q0 (a', counts', quality counts', summary')"
        if "changed_partitions a' baseline \<le> budget" "quality counts' < q" for summary'
        using same_loads_trans[OF ok(1) a'(1)] a'(2) c' that ok(5) by (simp add: repair_ok_def)
      show ?thesis using gc False dest r(1) Some c' keep new
        by (cases "budget < changed_partitions a' baseline"; cases "quality counts' < q")
          (simp_all add: consolidate_group_def g s Let_def)
    qed
  qed
qed

lemma consolidate_groups_result:
  assumes "repair_ok start baseline domains budget groups q0 s" "set gs \<subseteq> set groups" "hm_ok start"
    "\<forall>(l, grp) \<in> set groups. \<forall>p \<in> set grp. p mod lc = l"
  shows "\<exists>s'. consolidate_groups baseline domains lc budget groups gs s = Some s'
    \<and> repair_ok start baseline domains budget groups q0 s'"
  using assms(1,2)
proof (induction gs arbitrary: s)
  case (Cons g gs)
  have "g \<in> set groups" using Cons.prems(2) by simp
  then obtain s1 where s1: "consolidate_group baseline domains lc budget groups g s = Some s1"
    "repair_ok start baseline domains budget groups q0 s1"
    using consolidate_group_result[OF Cons.prems(1) _ assms(3,4)] by blast
  from Cons.IH[OF s1(2)] Cons.prems(2) s1(1) show ?case by simp
qed simp

lemma repair_groups_inventory:
  "set (inventory (repair_groups a domains lc)) = fst ` set (filter (\<lambda>(p, worker). hm_get domains worker \<noteq> None) a)"
  unfolding repair_groups_def ordered_inventory(2) by simp

lemma repair_groups_placed:
  assumes "hm_ok a"
  shows "placed_in domains (set (inventory (repair_groups a domains lc))) a"
  unfolding placed_in_def
proof
  fix p
  assume "p \<in> set (inventory (repair_groups a domains lc))"
  then obtain w where w: "(p, w) \<in> set a" "hm_get domains w \<noteq> None" unfolding repair_groups_inventory by auto
  then have "hm_get a p = Some w" using assms by (simp add: hm_get_mem)
  with w(2) show "domain_of domains a p \<noteq> None" by (simp add: domain_of_def)
qed

lemma consolidate_result:
  assumes "hm_ok a" "lc \<noteq> 0"
  obtains summary a' counts counts' where "consolidate a baseline domains lc budget = Some (summary, a')" "same_loads a a'"
    "changed_partitions a baseline \<le> budget \<longrightarrow> changed_partitions a' baseline \<le> budget"
    "domain_counts (repair_groups a domains lc) a domains = Some counts"
    "domain_counts (repair_groups a domains lc) a' domains = Some counts'" "quality counts' \<le> quality counts"
proof -
  let ?groups = "repair_groups a domains lc"
  note placed = repair_groups_placed[OF assms(1), of domains lc]
  obtain counts where counts: "domain_counts ?groups a domains = Some counts" by (rule domain_counts_total[OF placed])
  show thesis
  proof (cases "budget = 0")
    case True
    with counts show thesis by (intro that[of no_repair a counts counts]) (simp_all add: consolidate_def)
  next
    case False
    let ?s = "(a, counts, quality counts, no_repair\<lparr>occupancy_scans := 1\<rparr>)"
    have "repair_ok a baseline domains budget ?groups (quality counts) ?s"
      using placed counts by (simp add: repair_ok_def)
    moreover have "\<forall>(l, grp) \<in> set ?groups. \<forall>p \<in> set grp. p mod lc = l"
      using logical_groups_members by (auto simp: repair_groups_def)
    ultimately obtain s' where s': "consolidate_groups baseline domains lc budget ?groups ?groups ?s = Some s'"
      "repair_ok a baseline domains budget ?groups (quality counts) s'"
      using consolidate_groups_result[OF _ subset_refl assms(1)] by blast
    obtain a' counts' q summary where r: "s' = (a', counts', q, summary)" by (cases s')
    have "consolidate a baseline domains lc budget
        = Some (summary\<lparr>optional_moves := changed_partitions a' baseline\<rparr>, a')"
      using False assms(2) counts s'(1) by (simp add: consolidate_def r)
    with s'(2) counts show thesis unfolding repair_ok_def r prod.case by (intro that) blast+
  qed
qed

section \<open>Split groups\<close>

text \<open>The logical groups whose partitions have several owners.\<close>

definition split_groups :: "u32 \<Rightarrow> Assignment \<Rightarrow> nat" where
  "split_groups lc a = card {l. \<exists>p q v w. hm_get a p = Some v \<and> hm_get a q = Some w \<and> v \<noteq> w
     \<and> p mod lc = l \<and> q mod lc = l}"

lemma quality_splits: "fst (quality counts) = length (filter (\<lambda>(l, owners). 1 < length owners) counts)"
proof -
  have "fst (fold (\<lambda>(l, owners) (splits, fragments).
      (splits + (if 1 < length owners then 1 else 0), fragments + (length owners - 2))) counts (x, y))
      = x + length (filter (\<lambda>(l, owners). 1 < length owners) counts)" for x y :: nat
    by (induction counts arbitrary: x y) auto
  then show ?thesis by (simp add: quality_def)
qed

lemma card_gt_1_iff: "finite A \<Longrightarrow> 1 < card A \<longleftrightarrow> (\<exists>x \<in> A. \<exists>y \<in> A. x \<noteq> y)"
  by (metis One_nat_def card_le_Suc0_iff_eq linorder_not_le)

lemma occupancy_split: "1 < length (occupancy ds) \<longleftrightarrow> (\<exists>x \<in> set ds. \<exists>y \<in> set ds. x \<noteq> y)"
proof -
  have "length (occupancy ds) = card (set ds)" by (simp add: occupancy_def sort_dedup_def distinct_card[symmetric])
  then show ?thesis unfolding card_gt_1_iff[OF finite_set, symmetric] by simp
qed

lemma those_map_set: "those (map f xs) = Some ys \<Longrightarrow> Some ` set ys = f ` set xs"
proof (induction xs arbitrary: ys)
  case (Cons x xs)
  then obtain y zs where "f x = Some y" "those (map f xs) = Some zs" "ys = y # zs" by (auto split: option.splits)
  with Cons.IH[of zs] show ?case by simp
qed simp

lemma domain_counts_splits:
  assumes "domain_counts groups a domains = Some counts"
  shows "length (filter (\<lambda>(l, owners). 1 < length owners) counts)
    = length (filter (\<lambda>(l, grp). \<exists>p \<in> set grp. \<exists>q \<in> set grp. domain_of domains a p \<noteq> domain_of domains a q) groups)"
  using assms
proof (induction groups arbitrary: counts)
  case (Cons g groups)
  obtain l grp where g: "g = (l, grp)" by (cases g)
  obtain ds counts' where d: "those (map (domain_of domains a) grp) = Some ds" "domain_counts groups a domains = Some counts'"
    "counts = (l, occupancy ds) # counts'" using Cons.prems by (auto simp: g split: option.splits)
  let ?split = "\<exists>p \<in> set grp. \<exists>q \<in> set grp. domain_of domains a p \<noteq> domain_of domains a q"
  have split: "1 < length (occupancy ds) \<longleftrightarrow> ?split"
  proof -
    have "(\<exists>x \<in> set ds. \<exists>y \<in> set ds. x \<noteq> y) \<longleftrightarrow> (\<exists>x \<in> Some ` set ds. \<exists>y \<in> Some ` set ds. x \<noteq> y)"
      by (simp only: bex_simps option.inject)
    then show ?thesis unfolding occupancy_split those_map_set[OF d(1)] by (simp only: bex_simps)
  qed
  show ?case unfolding d(3) g filter.simps prod.case split
    using Cons.IH[OF d(2)] by (cases ?split) (simp_all only: if_True if_False list.size)
qed simp

lemma logical_groups_keys:
  "distinct (map fst (order_groups (logical_groups ps lc)))"
  "(l, grp) \<in> set (order_groups (logical_groups ps lc)) \<longleftrightarrow>
     l \<in> (\<lambda>p. p mod lc) ` set ps \<and> grp = sort_dedup (filter (\<lambda>p. p mod lc = l) ps)"
proof -
  have "mset (map fst (order_groups (logical_groups ps lc))) = mset (map fst (logical_groups ps lc))"
    by (simp add: order_groups_def)
  then show "distinct (map fst (order_groups (logical_groups ps lc)))"
    using mset_eq_imp_distinct_iff[of "map fst (order_groups (logical_groups ps lc))" "map fst (logical_groups ps lc)"]
    by (simp add: logical_groups_def comp_def)
  show "(l, grp) \<in> set (order_groups (logical_groups ps lc)) \<longleftrightarrow>
      l \<in> (\<lambda>p. p mod lc) ` set ps \<and> grp = sort_dedup (filter (\<lambda>p. p mod lc = l) ps)"
    by (auto simp: order_groups_def logical_groups_def)
qed

lemma flat_quality:
  assumes "domain_counts (order_groups (logical_groups ps lc)) a domains = Some counts" "dom (hm_get a) = set ps"
    "\<And>p w. hm_get a p = Some w \<Longrightarrow> hm_get domains w = Some w"
  shows "fst (quality counts) = split_groups lc a"
proof -
  let ?groups = "order_groups (logical_groups ps lc)"
  let ?P = "\<lambda>(l, grp). \<exists>p \<in> set grp. \<exists>q \<in> set grp. domain_of domains a p \<noteq> domain_of domains a q"
  have dom: "domain_of domains a p = hm_get a p" for p
    using assms(3) by (cases "hm_get a p") (simp_all add: domain_of_def)
  have "distinct (map fst (filter ?P ?groups))" using logical_groups_keys(1)[of ps lc] by (rule distinct_map_filter)
  then have "length (filter ?P ?groups) = card (fst ` set (filter ?P ?groups))"
    using distinct_card[of "map fst (filter ?P ?groups)"] by simp
  also have "fst ` set (filter ?P ?groups) = {l. \<exists>p q v w. hm_get a p = Some v \<and> hm_get a q = Some w \<and> v \<noteq> w
      \<and> p mod lc = l \<and> q mod lc = l}" (is "?A = ?B")
  proof
    show "?A \<subseteq> ?B"
    proof
      fix l
      assume "l \<in> ?A"
      then obtain grp p q where g: "(l, grp) \<in> set ?groups" "p \<in> set grp" "q \<in> set grp" "hm_get a p \<noteq> hm_get a q"
        by (auto simp: dom)
      then have "p \<in> set ps" "q \<in> set ps" "p mod lc = l" "q mod lc = l" unfolding logical_groups_keys(2) by auto
      moreover from this assms(2) obtain v w where "hm_get a p = Some v" "hm_get a q = Some w" by blast
      ultimately show "l \<in> ?B" using g(4) by auto
    qed
    show "?B \<subseteq> ?A"
    proof
      fix l
      assume "l \<in> ?B"
      then obtain p q v w where h: "hm_get a p = Some v" "hm_get a q = Some w" "v \<noteq> w" "p mod lc = l" "q mod lc = l" by blast
      have ps: "p \<in> set ps" "q \<in> set ps" using h(1,2) assms(2) by blast+
      let ?grp = "sort_dedup (filter (\<lambda>p. p mod lc = l) ps)"
      have "(l, ?grp) \<in> set ?groups" using ps(1) h(4) unfolding logical_groups_keys(2) by auto
      moreover have "?P (l, ?grp)"
        unfolding prod.case by (rule bexI[of _ p], rule bexI[of _ q]) (use h ps in \<open>simp_all add: dom\<close>)
      ultimately have "(l, ?grp) \<in> set (filter ?P ?groups)" by simp
      then show "l \<in> ?A" by (rule image_eqI[rotated]) simp
    qed
  qed
  finally show ?thesis unfolding quality_splits domain_counts_splits[OF assms(1)] split_groups_def .
qed

end
