(* ===== verification/Consumer_Assignment.thy ===== *)
theory Consumer_Assignment
  imports Placement_Repair Membership Text
begin

text \<open>
  The desired placement of a consumer group (\<open>coordination/assignment.rs\<close>): flat placement, placement
  over pods and then over the workers of each pod, the optional repairs, and the plan that the
  planner publishes.
\<close>

section \<open>Model\<close>

definition canonical_members :: "string list \<Rightarrow> string \<Rightarrow> string list" where
  "canonical_members group_members local_member_id =
     (let canonical = filter (\<lambda>member. trim member \<noteq> []) group_members
      in sort_dedup (if trim local_member_id \<noteq> [] \<and> local_member_id \<notin> set canonical
                     then canonical @ [local_member_id] else canonical))"

definition repair_layer ::
    "Assignment \<Rightarrow> Assignment \<Rightarrow> Domains \<Rightarrow> u32 \<Rightarrow> nat \<Rightarrow> Assignment option" where
  "repair_layer assignment baseline domains logical_partition_count budget =
     map_option snd (consolidate assignment baseline domains logical_partition_count budget)"

definition worker_domains :: "string list \<Rightarrow> Domains" where
  "worker_domains group_members = map (\<lambda>member. (member, member)) group_members"

definition cooperative_sticky_assignment ::
    "string list \<Rightarrow> VirtualPartitionId list \<Rightarrow> Assignment \<Rightarrow> string \<Rightarrow> u32 \<Rightarrow> u8 \<Rightarrow> Assignment option" where
  "cooperative_sticky_assignment group_members partitions previous local_member_id logical_partition_count repair_percent =
     (let group_members = canonical_members group_members local_member_id
      in case assign_sticky_groups group_members partitions previous logical_partition_count None of
           None \<Rightarrow> None
         | Some assignment \<Rightarrow>
             let budget = movement_budget (length assignment) repair_percent
             in if 0 < budget
                then repair_layer assignment assignment (worker_domains group_members) logical_partition_count budget
                else Some assignment)"

text \<open>The pods in order, each with its sorted workers.\<close>

definition pod_members_of :: "ConsumerGroupMember list \<Rightarrow> (string, string list) hmap" where
  "pod_members_of group_members =
     map (\<lambda>pod. (pod, sort_dedup (map cgm_member_id (filter (\<lambda>m. cgm_pod_id m = Some pod) group_members))))
       (sort_dedup (List.map_filter cgm_pod_id group_members))"

definition member_pods_of :: "ConsumerGroupMember list \<Rightarrow> (string, string) hmap" where
  "member_pods_of group_members =
     fold (\<lambda>m pods. case cgm_pod_id m of None \<Rightarrow> pods | Some pod \<Rightarrow> hm_insert (cgm_member_id m) pod pods) group_members []"

definition pod_cluster_step :: "ConsumerGroupMember \<Rightarrow> (string, string) hmap \<times> bool \<Rightarrow> (string, string) hmap \<times> bool" where
  "pod_cluster_step m s =
     (case (s, cgm_pod_id m) of
        (_, None) \<Rightarrow> s
      | ((pod_clusters, complete), Some pod) \<Rightarrow>
          (case (cgm_cluster_id m, hm_get pod_clusters pod) of
             (Some cluster, Some existing) \<Rightarrow> (pod_clusters, complete \<and> cluster = existing)
           | (Some cluster, None) \<Rightarrow> (hm_insert pod cluster pod_clusters, complete)
           | (None, _) \<Rightarrow> (pod_clusters, False)))"

definition cluster_pod_counts :: "(string, string) hmap \<Rightarrow> (string, nat) hmap" where
  "cluster_pod_counts pod_clusters =
     fold (\<lambda>(_, cluster) counts.
         hm_insert cluster ((case hm_get counts cluster of None \<Rightarrow> 0 | Some n \<Rightarrow> n) + 1) counts) pod_clusters []"

definition pod_cluster_count :: "string \<Rightarrow> (string, string) hmap \<Rightarrow> (string, nat) hmap \<Rightarrow> nat" where
  "pod_cluster_count pod pod_clusters counts =
     (case Option.bind (hm_get pod_clusters pod) (hm_get counts) of None \<Rightarrow> 0 | Some n \<Rightarrow> n)"

definition residual_preference :: "ConsumerGroupMember list \<Rightarrow> string list \<Rightarrow> (string, nat) hmap option" where
  "residual_preference group_members pod_ids =
     (case fold pod_cluster_step group_members ([], True) of
        (pod_clusters, complete) \<Rightarrow>
          if complete
          then Some (map (\<lambda>pod. (pod, pod_cluster_count pod pod_clusters (cluster_pod_counts pod_clusters))) pod_ids)
          else None)"

definition previous_pods :: "(string, string) hmap \<Rightarrow> Assignment \<Rightarrow> Assignment" where
  "previous_pods member_pods previous =
     List.map_filter (\<lambda>(p, member). map_option (Pair p) (hm_get member_pods member)) previous"

text \<open>The workers of every pod, one pod after the other.\<close>

fun assign_pods ::
    "VirtualPartitionId list \<Rightarrow> Assignment \<Rightarrow> u32 \<Rightarrow> Assignment \<Rightarrow> (string, string list) hmap \<Rightarrow> Assignment \<Rightarrow> Assignment option" where
  "assign_pods partitions previous logical_partition_count partition_pods [] assignments = Some assignments"
| "assign_pods partitions previous logical_partition_count partition_pods ((pod, workers) # pods) assignments =
     (case assign_sticky_groups workers (filter (\<lambda>p. hm_get partition_pods p = Some pod) partitions)
             previous logical_partition_count None of
        None \<Rightarrow> None
      | Some assigned \<Rightarrow>
          assign_pods partitions previous logical_partition_count partition_pods pods
            (fold (\<lambda>(p, worker). hm_insert p worker) assigned assignments))"

fun repair_pods ::
    "Assignment \<Rightarrow> u32 \<Rightarrow> nat \<Rightarrow> (string, string list) hmap \<Rightarrow> Assignment \<Rightarrow> Assignment option" where
  "repair_pods baseline logical_partition_count budget [] assignments = Some assignments"
| "repair_pods baseline logical_partition_count budget ((pod, workers) # pods) assignments =
     (case repair_layer assignments baseline (worker_domains workers) logical_partition_count budget of
        None \<Rightarrow> None
      | Some assignments' \<Rightarrow> repair_pods baseline logical_partition_count budget pods assignments')"

text \<open>Every member with its pod; all members have one here.\<close>

definition active_pods :: "(string, string) hmap \<Rightarrow> ConsumerGroupMember list \<Rightarrow> Domains" where
  "active_pods member_pods group_members =
     fold (\<lambda>m pods. case hm_get member_pods (cgm_member_id m) of
         None \<Rightarrow> pods | Some pod \<Rightarrow> hm_insert (cgm_member_id m) pod pods) group_members []"

definition cooperative_sticky_assignment_with_topology ::
    "ConsumerGroupMember list \<Rightarrow> ConsumerGroupMember list \<Rightarrow> VirtualPartitionId list \<Rightarrow> Assignment \<Rightarrow> u32 \<Rightarrow> u8
     \<Rightarrow> Assignment option" where
  "cooperative_sticky_assignment_with_topology group_members previous_members partitions previous logical_partition_count repair_percent =
     (if list_ex (\<lambda>m. cgm_pod_id m = None) group_members
      then cooperative_sticky_assignment (map cgm_member_id group_members) partitions previous
             (case group_members of [] \<Rightarrow> [] | m # _ \<Rightarrow> cgm_member_id m) logical_partition_count repair_percent
      else
        let pod_members = pod_members_of group_members;
            pod_ids = map fst pod_members;
            member_pods = member_pods_of (previous_members @ group_members)
        in case assign_sticky_groups pod_ids partitions (previous_pods member_pods previous) logical_partition_count
                  (residual_preference group_members pod_ids) of
             None \<Rightarrow> None
           | Some partition_pods \<Rightarrow>
               (case assign_pods partitions previous logical_partition_count partition_pods pod_members [] of
                  None \<Rightarrow> None
                | Some baseline \<Rightarrow>
                    let budget = movement_budget (length baseline) repair_percent
                    in if 0 < budget
                       then case repair_layer baseline baseline (active_pods member_pods group_members) logical_partition_count budget of
                              None \<Rightarrow> None
                            | Some assignments \<Rightarrow> repair_pods baseline logical_partition_count budget pod_members assignments
                       else Some baseline))"

definition assignment_plan ::
    "u64 \<Rightarrow> string list \<Rightarrow> VirtualPartitionId list \<Rightarrow> Assignment \<Rightarrow> ConsumerGroupMember list option \<Rightarrow> string \<Rightarrow> int
     \<Rightarrow> ConsumerGroupAssignmentPlan" where
  "assignment_plan version group_members partitions assignments member_topology local_member_id published_ts_ms =
     \<lparr>plan_version = version, plan_planner_member_id = local_member_id,
      plan_members = canonical_members group_members local_member_id, plan_member_topology = member_topology,
      plan_colocate_logical_partitions = True,
      plan_assignments = List.map_filter (\<lambda>p. map_option (\<lambda>member.
          \<lparr>cga_virtual_partition_id = p, cga_member_id = member\<rparr>) (hm_get assignments p)) (sort_dedup partitions),
      plan_published_ts_ms = published_ts_ms\<rparr>"

definition canonical_member_topology ::
    "string list \<Rightarrow> ConsumerGroupMember list \<Rightarrow> string \<Rightarrow> string option \<Rightarrow> string option \<Rightarrow> ConsumerGroupMember list option" where
  "canonical_member_topology group_members active_members local_member_id local_pod_id local_cluster_id =
     (let known = fold (\<lambda>m topology. case cgm_pod_id m of
              None \<Rightarrow> topology
            | Some pod \<Rightarrow> hm_insert (cgm_member_id m) (pod, cgm_cluster_id m) topology) active_members [];
          topology = (case local_pod_id of
              None \<Rightarrow> known
            | Some pod \<Rightarrow> hm_insert local_member_id (pod, local_cluster_id) known)
      in those (map (\<lambda>member. map_option (\<lambda>(pod, cluster).
           \<lparr>cgm_member_id = member, cgm_pod_id = Some pod, cgm_cluster_id = cluster\<rparr>) (hm_get topology member)) group_members))"

section \<open>Flat placement\<close>

lemma canonical_members_distinct [simp]: "distinct (canonical_members ms local_id)"
  by (simp add: canonical_members_def Let_def)

lemma worker_domains_get: "hm_get (worker_domains ms) w = (if w \<in> set ms then Some w else None)"
  by (induction ms) (auto simp: worker_domains_def)

lemma hm_ok_length: "hm_ok m \<Longrightarrow> length m = card (dom (hm_get m))"
  using distinct_card[of "map fst m"] by (simp add: dom_map_of_conv_image_fst)

lemma changed_self: "hm_ok a \<Longrightarrow> changed_partitions a a = 0"
  by (auto simp: changed_partitions_def filter_empty_conv)

lemma repair_layer_result:
  assumes "hm_ok a" "lpc \<noteq> 0"
  obtains a' where "repair_layer a baseline domains lpc budget = Some a'" "same_loads a a'" "hm_ok a'"
    "changed_partitions a baseline \<le> budget \<longrightarrow> changed_partitions a' baseline \<le> budget"
proof -
  obtain summary a' where c: "consolidate a baseline domains lpc budget = Some (summary, a')" "same_loads a a'"
    "changed_partitions a baseline \<le> budget \<longrightarrow> changed_partitions a' baseline \<le> budget"
    by (rule consolidate_result[OF assms])
  moreover have "hm_ok a'" using c(2) assms(1) by (simp add: same_loads_def)
  ultimately show thesis by (intro that[of a']) (simp_all add: repair_layer_def)
qed

text \<open>Among workers, a repair never splits more logical groups than it joins.\<close>

lemma repair_workers_splits:
  assumes "hm_ok a" "lpc \<noteq> 0" "\<forall>p w. hm_get a p = Some w \<longrightarrow> w \<in> set ms"
    "repair_layer a baseline (worker_domains ms) lpc budget = Some a'"
  shows "split_groups lpc a' \<le> split_groups lpc a"
proof -
  let ?d = "worker_domains ms"
  obtain summary a'' counts counts' where c: "consolidate a baseline ?d lpc budget = Some (summary, a'')" "same_loads a a''"
    "domain_counts (repair_groups a ?d lpc) a ?d = Some counts"
    "domain_counts (repair_groups a ?d lpc) a'' ?d = Some counts'" "quality counts' \<le> quality counts"
    by (rule consolidate_result[OF assms(1,2)])
  have a': "a'' = a'" using c(1) assms(4) by (simp add: repair_layer_def)
  have self: "hm_get ?d w = Some w" if "hm_get a p = Some w" for p w
    using that assms(3) by (simp add: worker_domains_get)
  have self': "hm_get ?d w = Some w" if "hm_get a' p = Some w" for p w
    using same_loads_owner[OF c(2)[unfolded a'] that] self by blast
  have "filter (\<lambda>(p, worker). hm_get ?d worker \<noteq> None) a = a"
    using self assms(1) by (intro filter_True) force
  then have groups: "repair_groups a ?d lpc = order_groups (logical_groups (map fst a) lpc)" by (simp only: repair_groups_def)
  have dom: "dom (hm_get a) = set (map fst a)" by (simp add: dom_map_of_conv_image_fst)
  have "fst (quality counts) = split_groups lpc a" by (rule flat_quality[OF c(3)[unfolded groups] dom self])
  moreover have "fst (quality counts') = split_groups lpc a'"
    by (rule flat_quality[OF c(4)[unfolded groups a'] _ self']) (simp only: same_loads_dom[OF c(2)[unfolded a']] dom)
  ultimately show ?thesis using c(5) by (auto simp: less_eq_prod_def)
qed

lemma flat_placement:
  assumes "canonical_members ms local_id \<noteq> []" "lpc \<noteq> 0"
  obtains baseline a where
    "cooperative_sticky_assignment ms ps previous local_id lpc 0 = Some baseline"
    "cooperative_sticky_assignment ms ps previous local_id lpc percent = Some a"
    "dom (hm_get baseline) = set ps" "same_loads baseline a"
    "\<forall>p w. hm_get baseline p = Some w \<longrightarrow> w \<in> set (canonical_members ms local_id)"
    "share_ok (canonical_members ms local_id) (card (set ps)) (load baseline)"
    "\<forall>w \<in> set (canonical_members ms local_id).
       kept (set ps) previous baseline w = min (card {p \<in> set ps. hm_get previous p = Some w}) (load baseline w)"
    "changed_partitions a baseline \<le> movement_budget (card (set ps)) percent"
    "split_groups lpc a \<le> split_groups lpc baseline"
proof -
  let ?ms = "canonical_members ms local_id"
  obtain b where b: "assign_sticky_groups ?ms ps previous lpc None = Some b" "hm_ok b" "dom (hm_get b) = set ps"
    "\<forall>p w. hm_get b p = Some w \<longrightarrow> w \<in> set ?ms" "share_ok ?ms (card (set ps)) (load b)"
    "\<forall>w \<in> set ?ms. kept (set ps) previous b w = min (card {p \<in> set ps. hm_get previous p = Some w}) (load b w)"
    by (rule assign_sticky_groups_result[OF canonical_members_distinct assms])
  have base: "cooperative_sticky_assignment ms ps previous local_id lpc 0 = Some b"
    using b(1) by (simp add: cooperative_sticky_assignment_def Let_def movement_budget_def)
  let ?budget = "movement_budget (card (set ps)) percent"
  have len: "length b = card (set ps)" using hm_ok_length[OF b(2)] b(3) by simp
  show thesis
  proof (cases "0 < ?budget")
    case False
    then have "cooperative_sticky_assignment ms ps previous local_id lpc percent = Some b"
      using b(1) by (simp add: cooperative_sticky_assignment_def Let_def len)
    then show thesis by (rule that[OF base _ b(3) _ b(4-6)]) (simp_all add: changed_self[OF b(2)])
  next
    case True
    obtain a where a: "repair_layer b b (worker_domains ?ms) lpc ?budget = Some a" "same_loads b a"
      "changed_partitions b b \<le> ?budget \<longrightarrow> changed_partitions a b \<le> ?budget"
      by (rule repair_layer_result[OF b(2) assms(2)])
    have "cooperative_sticky_assignment ms ps previous local_id lpc percent = Some a"
      using b(1) a(1) True by (simp add: cooperative_sticky_assignment_def Let_def len)
    moreover have "changed_partitions a b \<le> ?budget" using a(3) by (simp add: changed_self[OF b(2)])
    ultimately show thesis
      by (intro that[OF base _ b(3) a(2) b(4-6)] repair_workers_splits[OF b(2) assms(2) b(4) a(1)])
  qed
qed

section \<open>Placement over pods\<close>

lemma pod_members_keys:
  "distinct (map fst (pod_members_of ms))"
  "(pod, workers) \<in> set (pod_members_of ms) \<Longrightarrow> distinct workers \<and> workers \<noteq> []
     \<and> set workers = {cgm_member_id m | m. m \<in> set ms \<and> cgm_pod_id m = Some pod}"
proof -
  show "distinct (map fst (pod_members_of ms))" by (simp add: pod_members_of_def comp_def)
  assume "(pod, workers) \<in> set (pod_members_of ms)"
  then have w: "workers = sort_dedup (map cgm_member_id (filter (\<lambda>m. cgm_pod_id m = Some pod) ms))"
    and pod: "pod \<in> set (List.map_filter cgm_pod_id ms)" by (auto simp: pod_members_of_def)
  have set: "set workers = {cgm_member_id m | m. m \<in> set ms \<and> cgm_pod_id m = Some pod}" unfolding w by auto
  moreover obtain m where "m \<in> set ms" "cgm_pod_id m = Some pod" using pod by (auto simp: List.map_filter_def)
  ultimately have "workers \<noteq> []" by auto
  with set show "distinct workers \<and> workers \<noteq> [] \<and> set workers = {cgm_member_id m | m. m \<in> set ms \<and> cgm_pod_id m = Some pod}"
    by (simp add: w)
qed

lemma pod_of_member:
  assumes "m \<in> set ms" "cgm_pod_id m = Some pod"
  shows "pod \<in> set (map fst (pod_members_of ms))"
  using assms by (force simp: pod_members_of_def List.map_filter_def comp_def)

text \<open>With distinct members the workers of two pods are different.\<close>

lemma pod_workers_disjoint:
  assumes "distinct (map cgm_member_id ms)" "(pod, workers) \<in> set (pod_members_of ms)"
    "(pod', workers') \<in> set (pod_members_of ms)" "w \<in> set workers" "w \<in> set workers'"
  shows "pod = pod'"
proof -
  obtain m m' where "m \<in> set ms" "cgm_pod_id m = Some pod" "cgm_member_id m = w"
    "m' \<in> set ms" "cgm_pod_id m' = Some pod'" "cgm_member_id m' = w"
    using pod_members_keys(2)[OF assms(2)] pod_members_keys(2)[OF assms(3)] assms(4,5) by auto
  moreover from this have "m = m'" using assms(1) by (metis distinct_map inj_onD)
  ultimately show ?thesis by simp
qed

lemma fold_insert_get:
  assumes "hm_ok xs"
  shows "hm_get (fold (\<lambda>(p, worker). hm_insert p worker) xs m) q
    = (case hm_get xs q of Some w \<Rightarrow> Some w | None \<Rightarrow> hm_get m q)"
  using assms
proof (induction xs arbitrary: m)
  case (Cons x xs)
  obtain p w where x: "x = (p, w)" by (cases x)
  have "hm_get xs p = None" using Cons.prems x by (simp add: map_of_eq_None_iff)
  with Cons.IH[of "hm_insert p w m"] Cons.prems show ?case by (auto simp: x hash_map split: option.splits)
qed simp

lemma fold_insert_ok: "hm_ok m \<Longrightarrow> hm_ok (fold (\<lambda>(p, worker). hm_insert p worker) xs m)"
  by (induction xs arbitrary: m) (auto simp: hm_ok_insert)

lemma load_merge:
  assumes "\<And>q. hm_get c q = (case hm_get a q of Some w \<Rightarrow> Some w | None \<Rightarrow> hm_get b q)"
    "dom (hm_get a) \<inter> dom (hm_get b) = {}"
  shows "load c w = load a w + load b w"
proof -
  have "{p. hm_get c p = Some w} = {p. hm_get a p = Some w} \<union> {p. hm_get b p = Some w}"
    using assms(2) unfolding assms(1) by (fastforce split: option.splits)
  moreover have "{p. hm_get a p = Some w} \<inter> {p. hm_get b p = Some w} = {}" using assms(2) by auto
  ultimately show ?thesis unfolding load_def by (simp add: card_Un_disjoint)
qed

lemma load_0: "load a w = 0 \<longleftrightarrow> (\<forall>p. hm_get a p \<noteq> Some w)"
  unfolding load_def using finite_owned[of a w] by (auto simp: card_eq_0_iff)

text \<open>The placement of the pods handled so far.\<close>

definition pods_placed ::
    "VirtualPartitionId list \<Rightarrow> Assignment \<Rightarrow> (string, string list) hmap \<Rightarrow> Assignment \<Rightarrow> bool" where
  "pods_placed ps partition_pods handled a \<longleftrightarrow> hm_ok a
     \<and> (\<forall>p. hm_get a p \<noteq> None \<longleftrightarrow> p \<in> set ps \<and> (\<exists>pod \<in> fst ` set handled. hm_get partition_pods p = Some pod))
     \<and> (\<forall>p w. hm_get a p = Some w \<longrightarrow> (\<exists>(pod, workers) \<in> set handled. w \<in> set workers))
     \<and> (\<forall>(pod, workers) \<in> set handled. share_ok workers (card {p \<in> set ps. hm_get partition_pods p = Some pod}) (load a))"

lemma share_ok_cong: "(\<And>w. w \<in> set ws \<Longrightarrow> f w = g w) \<Longrightarrow> share_ok ws n f \<longleftrightarrow> share_ok ws n g"
  by (simp add: share_ok_def)

lemma assign_pod_step:
  assumes placed: "pods_placed ps partition_pods handled a" and pod: "pod \<notin> fst ` set handled"
    and workers: "distinct workers" "workers \<noteq> []" "\<forall>(d, ws) \<in> set handled. set ws \<inter> set workers = {}" and "lpc \<noteq> 0"
  obtains b where "assign_sticky_groups workers (filter (\<lambda>p. hm_get partition_pods p = Some pod) ps) previous lpc None = Some b"
    "pods_placed ps partition_pods (handled @ [(pod, workers)]) (fold (\<lambda>(p, worker). hm_insert p worker) b a)"
proof -
  let ?ps = "filter (\<lambda>p. hm_get partition_pods p = Some pod) ps"
  have set_ps: "set ?ps = {p \<in> set ps. hm_get partition_pods p = Some pod}" by auto
  have ok: "hm_ok a" and dom_a: "\<And>p. hm_get a p \<noteq> None \<longleftrightarrow> p \<in> set ps \<and> (\<exists>pod \<in> fst ` set handled. hm_get partition_pods p = Some pod)"
    and own_a: "\<And>p w. hm_get a p = Some w \<Longrightarrow> \<exists>(pod, workers) \<in> set handled. w \<in> set workers"
    and share_a: "\<And>d ws. (d, ws) \<in> set handled \<Longrightarrow> share_ok ws (card {p \<in> set ps. hm_get partition_pods p = Some d}) (load a)"
    using placed unfolding pods_placed_def by (blast+)
  obtain b where b: "assign_sticky_groups workers ?ps previous lpc None = Some b" "hm_ok b" "dom (hm_get b) = set ?ps"
    "\<forall>p w. hm_get b p = Some w \<longrightarrow> w \<in> set workers" "share_ok workers (card (set ?ps)) (load b)"
    by (rule assign_sticky_groups_result[OF workers(1,2) assms(6)])
  let ?c = "fold (\<lambda>(p, worker). hm_insert p worker) b a"
  note get = fold_insert_get[OF b(2), of a]
  have disj: "dom (hm_get b) \<inter> dom (hm_get a) = {}"
    using dom_a pod unfolding b(3) set_ps by force
  have loads: "load ?c w = load b w + load a w" for w by (rule load_merge[OF get disj])
  have old: "load a w = 0" if "w \<in> set workers" for w
    unfolding load_0 using own_a workers(3) that by fast
  have new: "load b w = 0" if "(d, ws) \<in> set handled" "w \<in> set ws" for d ws w
    unfolding load_0 using b(4) workers(3) that by fast
  have "pods_placed ps partition_pods (handled @ [(pod, workers)]) ?c"
    unfolding pods_placed_def
  proof (intro conjI allI impI)
    show "hm_ok ?c" by (rule fold_insert_ok[OF ok])
    fix p
    have "hm_get ?c p \<noteq> None \<longleftrightarrow> p \<in> dom (hm_get b) \<or> hm_get a p \<noteq> None" unfolding get by (auto split: option.splits)
    then show "hm_get ?c p \<noteq> None \<longleftrightarrow>
        p \<in> set ps \<and> (\<exists>d \<in> fst ` set (handled @ [(pod, workers)]). hm_get partition_pods p = Some d)"
      unfolding b(3) set_ps dom_a by auto
    fix w
    assume "hm_get ?c p = Some w"
    then have "hm_get b p = Some w \<or> hm_get a p = Some w" unfolding get by (auto split: option.splits)
    then show "\<exists>(d, ws) \<in> set (handled @ [(pod, workers)]). w \<in> set ws" using b(4) own_a[of p w] by auto
  next
    show "\<forall>(d, ws) \<in> set (handled @ [(pod, workers)]).
        share_ok ws (card {p \<in> set ps. hm_get partition_pods p = Some d}) (load ?c)"
    proof (safe, goal_cases)
      case (1 d ws)
      show ?case
      proof (cases "(d, ws) \<in> set handled")
        case True
        show ?thesis using share_a[OF True] new[OF True] by (subst share_ok_cong[of ws _ "load a"]) (simp_all add: loads)
      next
        case False
        with 1 have "d = pod" "ws = workers" by simp_all
        then show ?thesis using b(5) old unfolding set_ps by (subst share_ok_cong[of ws _ "load b"]) (simp_all add: loads)
      qed
    qed
  qed
  with b(1) show thesis by (rule that)
qed

lemma assign_pods_result:
  assumes "pods_placed ps partition_pods handled a" "distinct (map fst (handled @ pods))" "lpc \<noteq> 0"
    "\<forall>(d, ws) \<in> set pods. distinct ws \<and> ws \<noteq> []"
    "\<forall>(d, ws) \<in> set (handled @ pods). \<forall>(d', ws') \<in> set (handled @ pods). d \<noteq> d' \<longrightarrow> set ws \<inter> set ws' = {}"
  shows "\<exists>b. assign_pods ps previous lpc partition_pods pods a = Some b \<and> pods_placed ps partition_pods (handled @ pods) b"
  using assms(1,2,4,5)
proof (induction pods arbitrary: handled a)
  case (Cons x pods)
  obtain pod workers where x: "x = (pod, workers)" by (cases x)
  have pod: "pod \<notin> fst ` set handled" using Cons.prems(2) by (auto simp: x)
  have workers: "distinct workers" "workers \<noteq> []" using Cons.prems(3) by (simp_all add: x)
  have disj: "\<forall>(d, ws) \<in> set handled. set ws \<inter> set workers = {}"
  proof (safe, goal_cases)
    case (1 d ws w)
    have "(d, ws) \<in> set (handled @ x # pods)" "(pod, workers) \<in> set (handled @ x # pods)" "d \<noteq> pod"
      using 1 pod by (force simp: x)+
    with Cons.prems(4) 1 show ?case by blast
  qed
  obtain b where b: "assign_sticky_groups workers (filter (\<lambda>p. hm_get partition_pods p = Some pod) ps) previous lpc None = Some b"
    "pods_placed ps partition_pods (handled @ [(pod, workers)]) (fold (\<lambda>(p, worker). hm_insert p worker) b a)"
    by (rule assign_pod_step[OF Cons.prems(1) pod workers disj assms(3)])
  have rest: "distinct (map fst ((handled @ [(pod, workers)]) @ pods))" "\<forall>(d, ws) \<in> set pods. distinct ws \<and> ws \<noteq> []"
    "\<forall>(d, ws) \<in> set ((handled @ [(pod, workers)]) @ pods). \<forall>(d', ws') \<in> set ((handled @ [(pod, workers)]) @ pods).
       d \<noteq> d' \<longrightarrow> set ws \<inter> set ws' = {}"
    using Cons.prems(2-4) unfolding x by simp_all
  from Cons.IH[OF b(2) rest] b(1) show ?case by (simp add: x)
qed simp

lemma repair_pods_result:
  assumes "hm_ok a" "lpc \<noteq> 0" "changed_partitions a baseline \<le> budget"
  shows "\<exists>a'. repair_pods baseline lpc budget pods a = Some a' \<and> same_loads a a' \<and> changed_partitions a' baseline \<le> budget"
  using assms(1,3)
proof (induction pods arbitrary: a)
  case (Cons x pods)
  obtain pod workers where x: "x = (pod, workers)" by (cases x)
  obtain a1 where a1: "repair_layer a baseline (worker_domains workers) lpc budget = Some a1" "same_loads a a1" "hm_ok a1"
    "changed_partitions a baseline \<le> budget \<longrightarrow> changed_partitions a1 baseline \<le> budget"
    by (rule repair_layer_result[OF Cons.prems(1) assms(2)])
  obtain a' where "repair_pods baseline lpc budget pods a1 = Some a'" "same_loads a1 a'" "changed_partitions a' baseline \<le> budget"
    using Cons.IH[OF a1(3)] a1(4) Cons.prems(2) by blast
  with a1(1) same_loads_trans[OF a1(2)] show ?case by (auto simp: x)
qed simp

lemma topology_placement:
  assumes "ms \<noteq> []" "\<forall>m \<in> set ms. cgm_pod_id m \<noteq> None" "distinct (map cgm_member_id ms)" "lpc \<noteq> 0"
  obtains partition_pods baseline a where
    "cooperative_sticky_assignment_with_topology ms old ps previous lpc 0 = Some baseline"
    "cooperative_sticky_assignment_with_topology ms old ps previous lpc percent = Some a"
    "share_ok (map fst (pod_members_of ms)) (card (set ps)) (load partition_pods)"
    "dom (hm_get partition_pods) = set ps"
    "pods_placed ps partition_pods (pod_members_of ms) baseline" "dom (hm_get baseline) = set ps"
    "same_loads baseline a" "changed_partitions a baseline \<le> movement_budget (card (set ps)) percent"
proof -
  let ?pods = "pod_members_of ms" and ?ids = "map fst (pod_members_of ms)"
  let ?mp = "member_pods_of (old @ ms)"
  obtain m pod where "m \<in> set ms" "cgm_pod_id m = Some pod" using assms(1,2) by (cases ms) auto
  then have "pod \<in> set ?ids" by (rule pod_of_member)
  then have ids: "?ids \<noteq> []" by auto
  obtain pp where pp: "assign_sticky_groups ?ids ps (previous_pods ?mp previous) lpc (residual_preference ms ?ids) = Some pp"
    "dom (hm_get pp) = set ps" "\<forall>p w. hm_get pp p = Some w \<longrightarrow> w \<in> set ?ids" "share_ok ?ids (card (set ps)) (load pp)"
    by (rule assign_sticky_groups_result[OF pod_members_keys(1) ids assms(4)])
  have init: "pods_placed ps pp [] []" by (simp add: pods_placed_def)
  have workers: "\<forall>(d, ws) \<in> set ?pods. distinct ws \<and> ws \<noteq> []" using pod_members_keys(2) by blast
  have disj: "\<forall>(d, ws) \<in> set ([] @ ?pods). \<forall>(d', ws') \<in> set ([] @ ?pods). d \<noteq> d' \<longrightarrow> set ws \<inter> set ws' = {}"
    using pod_workers_disjoint[OF assms(3)] unfolding append_Nil by blast
  have "distinct (map fst ([] @ ?pods))" using pod_members_keys(1) by simp
  then obtain b where b: "assign_pods ps previous lpc pp ?pods [] = Some b" "pods_placed ps pp ?pods b"
    using assign_pods_result[OF init _ assms(4) workers disj] by auto
  have "hm_get b p \<noteq> None \<longleftrightarrow> p \<in> set ps" for p
  proof -
    have "hm_get b p \<noteq> None \<longleftrightarrow> p \<in> set ps \<and> (\<exists>pod \<in> fst ` set ?pods. hm_get pp p = Some pod)"
      using b(2) unfolding pods_placed_def by blast
    moreover have "\<exists>pod \<in> fst ` set ?pods. hm_get pp p = Some pod" if "p \<in> set ps"
      using that pp(2,3) by (metis domD list.set_map)
    ultimately show ?thesis by blast
  qed
  then have dom: "dom (hm_get b) = set ps" by blast
  have ok: "hm_ok b" using b(2) by (simp add: pods_placed_def)
  let ?budget = "movement_budget (card (set ps)) percent"
  have len: "length b = card (set ps)" using hm_ok_length[OF ok] dom by simp
  have pods: "\<not> list_ex (\<lambda>m. cgm_pod_id m = None) ms" using assms(2) by (auto simp: list_ex_iff)
  have base: "cooperative_sticky_assignment_with_topology ms old ps previous lpc 0 = Some b"
    using pods pp(1) b(1) by (simp add: cooperative_sticky_assignment_with_topology_def Let_def movement_budget_def)
  show thesis
  proof (cases "0 < ?budget")
    case False
    then have "cooperative_sticky_assignment_with_topology ms old ps previous lpc percent = Some b"
      using pods pp(1) b(1) by (simp add: cooperative_sticky_assignment_with_topology_def Let_def len)
    then show thesis by (rule that[OF base _ pp(4,2) b(2) dom]) (simp_all add: changed_self[OF ok])
  next
    case True
    obtain a1 where a1: "repair_layer b b (active_pods ?mp ms) lpc ?budget = Some a1" "same_loads b a1" "hm_ok a1"
      "changed_partitions b b \<le> ?budget \<longrightarrow> changed_partitions a1 b \<le> ?budget"
      by (rule repair_layer_result[OF ok assms(4)])
    then have "changed_partitions a1 b \<le> ?budget" by (simp add: changed_self[OF ok])
    from repair_pods_result[OF a1(3) assms(4) this, of ?pods] obtain a where
      a: "repair_pods b lpc ?budget ?pods a1 = Some a" "same_loads a1 a" "changed_partitions a b \<le> ?budget" by blast
    have "cooperative_sticky_assignment_with_topology ms old ps previous lpc percent = Some a"
      using pods pp(1) b(1) a1(1) a(1) True by (simp add: cooperative_sticky_assignment_with_topology_def Let_def len)
    then show thesis by (rule that[OF base _ pp(4,2) b(2) dom same_loads_trans[OF a1(2) a(2)] a(3)])
  qed
qed

lemma share_ok_close: "share_ok ws n f \<Longrightarrow> v \<in> set ws \<Longrightarrow> w \<in> set ws \<Longrightarrow> f v \<le> f w + 1"
  unfolding share_ok_def by (metis add.commute add_le_mono1 le_add2 nat_le_linear order_refl trans_le_add2)

text \<open>What a placement of all pods means for the loads.\<close>

lemma pods_balanced:
  assumes share: "share_ok (map fst (pod_members_of ms)) (card (set ps)) (load pp)" and dom: "dom (hm_get pp) = set ps"
    and placed: "pods_placed ps pp (pod_members_of ms) b" and same: "same_loads b a"
  shows "hm_get a p = Some w \<Longrightarrow> w \<in> cgm_member_id ` set ms"
    and "(pod, ws) \<in> set (pod_members_of ms) \<Longrightarrow> (pod', ws') \<in> set (pod_members_of ms)
       \<Longrightarrow> sum (load a) (set ws) \<le> sum (load a) (set ws') + 1"
    and "(pod, ws) \<in> set (pod_members_of ms) \<Longrightarrow> v \<in> set ws \<Longrightarrow> w \<in> set ws \<Longrightarrow> load a v \<le> load a w + 1"
proof -
  have loads: "load a = load b" using same by (auto simp: same_loads_def)
  have shares: "share_ok ws (load pp pod) (load b)" if "(pod, ws) \<in> set (pod_members_of ms)" for pod ws
  proof -
    have "{p \<in> set ps. hm_get pp p = Some pod} = {p. hm_get pp p = Some pod}" using dom by blast
    with placed that show ?thesis unfolding pods_placed_def load_def[of pp] by fastforce
  qed
  show "w \<in> cgm_member_id ` set ms" if "hm_get a p = Some w"
  proof -
    have "\<exists>q. hm_get b q = Some w" by (rule same_loads_owner[OF same that])
    then obtain pod ws where "(pod, ws) \<in> set (pod_members_of ms)" "w \<in> set ws" using placed unfolding pods_placed_def by blast
    then show ?thesis using pod_members_keys(2) by blast
  qed
  show "sum (load a) (set ws) \<le> sum (load a) (set ws') + 1"
    if "(pod, ws) \<in> set (pod_members_of ms)" "(pod', ws') \<in> set (pod_members_of ms)"
  proof -
    have "pod \<in> set (map fst (pod_members_of ms))" "pod' \<in> set (map fst (pod_members_of ms))" using that by force+
    from share_ok_close[OF share this] shares[OF that(1)] shares[OF that(2)] show ?thesis unfolding loads by (simp add: share_ok_def)
  qed
  show "load a v \<le> load a w + 1" if "(pod, ws) \<in> set (pod_members_of ms)" "v \<in> set ws" "w \<in> set ws"
    unfolding loads by (rule share_ok_close[OF shares[OF that(1)] that(2,3)])
qed

section \<open>Properties\<close>

text \<open>
  Claim C14.  The flat placement of a consumer group never panics, covers exactly the partitions,
  places them on members only and balances them: the loads of two members differ by at most one.
  Before repair every member keeps as many of the partitions it had as its load allows.  Repair
  changes no load, moves no more partitions than its budget and never increases the number of split
  logical groups.
\<close>

theorem flat_placement_balanced_and_sticky:
  assumes "canonical_members ms local_id \<noteq> []" "lpc \<noteq> 0"
  shows "\<exists>baseline a. cooperative_sticky_assignment ms ps previous local_id lpc 0 = Some baseline
    \<and> cooperative_sticky_assignment ms ps previous local_id lpc percent = Some a
    \<and> dom (hm_get a) = set ps \<and> (\<forall>p w. hm_get a p = Some w \<longrightarrow> w \<in> set (canonical_members ms local_id))
    \<and> (\<forall>v \<in> set (canonical_members ms local_id). \<forall>w \<in> set (canonical_members ms local_id). load a v \<le> load a w + 1)
    \<and> (\<forall>w \<in> set (canonical_members ms local_id). load a w = load baseline w
         \<and> kept (set ps) previous baseline w = min (card {p \<in> set ps. hm_get previous p = Some w}) (load baseline w))
    \<and> changed_partitions a baseline \<le> movement_budget (card (set ps)) percent
    \<and> split_groups lpc a \<le> split_groups lpc baseline"
proof -
  obtain b a where r: "cooperative_sticky_assignment ms ps previous local_id lpc 0 = Some b"
    "cooperative_sticky_assignment ms ps previous local_id lpc percent = Some a"
    "dom (hm_get b) = set ps" "same_loads b a"
    "\<forall>p w. hm_get b p = Some w \<longrightarrow> w \<in> set (canonical_members ms local_id)"
    "share_ok (canonical_members ms local_id) (card (set ps)) (load b)"
    "\<forall>w \<in> set (canonical_members ms local_id).
       kept (set ps) previous b w = min (card {p \<in> set ps. hm_get previous p = Some w}) (load b w)"
    "changed_partitions a b \<le> movement_budget (card (set ps)) percent" "split_groups lpc a \<le> split_groups lpc b"
    by (rule flat_placement[OF assms])
  have loads: "load a w = load b w" for w using r(4) by (simp add: same_loads_def)
  have owners: "\<forall>p w. hm_get a p = Some w \<longrightarrow> w \<in> set (canonical_members ms local_id)"
    using same_loads_owner[OF r(4)] r(5) by blast
  have balanced: "\<forall>v \<in> set (canonical_members ms local_id). \<forall>w \<in> set (canonical_members ms local_id). load a v \<le> load a w + 1"
    unfolding loads using share_ok_close[OF r(6)] by blast
  show ?thesis
    by (intro exI[of _ b] exI[of _ a] conjI r(1,2,8,9) owners balanced)
      (use r(7) loads same_loads_dom[OF r(4)] r(3) in simp_all)
qed

theorem flat_placement_balanced_and_sticky_witness:
  "\<exists>baseline a. cooperative_sticky_assignment [''b'', ''a''] [0, 1, 2] [(0, ''b''), (1, ''b'')] ''a'' 2 50 = Some a
     \<and> cooperative_sticky_assignment [''b'', ''a''] [0, 1, 2] [(0, ''b''), (1, ''b'')] ''a'' 2 0 = Some baseline
     \<and> dom (hm_get a) = {0, 1, 2} \<and> load a ''a'' \<le> load a ''b'' + 1 \<and> load a ''b'' \<le> load a ''a'' + 1
     \<and> load a ''b'' = load baseline ''b''
     \<and> changed_partitions a baseline \<le> movement_budget 3 50 \<and> split_groups 2 a \<le> split_groups 2 baseline"
proof -
  have members: "canonical_members [''b'', ''a''] ''a'' = [''a'', ''b'']" by code_simp
  have ne: "canonical_members [''b'', ''a''] ''a'' \<noteq> []" unfolding members by simp
  have two: "(2 :: u32) \<noteq> 0" by simp
  have set: "set [0, 1, 2 :: VirtualPartitionId] = {0, 1, 2}" by simp
  have card: "card {0, 1, 2 :: VirtualPartitionId} = 3" by simp
  from flat_placement_balanced_and_sticky[OF ne two, of "[0, 1, 2]" "[(0, ''b''), (1, ''b'')]" 50, unfolded members set card]
  show ?thesis by (elim exE conjE, intro exI conjI) simp_all
qed

text \<open>
  Claim C15.  When all members of a group have a pod, placement never panics, covers exactly the
  partitions and balances them on two levels: the loads of two pods differ by at most one, and so do
  the loads of two workers of one pod.  Repair moves no more partitions than its budget, counted
  against the placement without repair.
\<close>

theorem pod_placement_balanced:
  assumes "ms \<noteq> []" "\<forall>m \<in> set ms. cgm_pod_id m \<noteq> None" "distinct (map cgm_member_id ms)" "lpc \<noteq> 0"
  shows "\<exists>baseline a. cooperative_sticky_assignment_with_topology ms old ps previous lpc 0 = Some baseline
    \<and> cooperative_sticky_assignment_with_topology ms old ps previous lpc percent = Some a
    \<and> dom (hm_get a) = set ps \<and> (\<forall>p w. hm_get a p = Some w \<longrightarrow> w \<in> cgm_member_id ` set ms)
    \<and> (\<forall>(pod, ws) \<in> set (pod_members_of ms). \<forall>(pod', ws') \<in> set (pod_members_of ms).
         sum (load a) (set ws) \<le> sum (load a) (set ws') + 1)
    \<and> (\<forall>(pod, ws) \<in> set (pod_members_of ms). \<forall>v \<in> set ws. \<forall>w \<in> set ws. load a v \<le> load a w + 1)
    \<and> changed_partitions a baseline \<le> movement_budget (card (set ps)) percent"
proof -
  obtain pp b a where r: "cooperative_sticky_assignment_with_topology ms old ps previous lpc 0 = Some b"
    "cooperative_sticky_assignment_with_topology ms old ps previous lpc percent = Some a"
    "share_ok (map fst (pod_members_of ms)) (card (set ps)) (load pp)" "dom (hm_get pp) = set ps"
    "pods_placed ps pp (pod_members_of ms) b" "dom (hm_get b) = set ps"
    "same_loads b a" "changed_partitions a b \<le> movement_budget (card (set ps)) percent"
    by (rule topology_placement[OF assms])
  note balanced = pods_balanced[OF r(3-5,7)]
  show ?thesis
    by (intro exI[of _ b] exI[of _ a] conjI r(1,2,8))
      (use balanced same_loads_dom[OF r(7)] r(6) in \<open>auto split: prod.splits\<close>)
qed

definition sample_members :: "ConsumerGroupMember list" where
  "sample_members = [\<lparr>cgm_member_id = ''a'', cgm_pod_id = Some ''x'', cgm_cluster_id = None\<rparr>,
     \<lparr>cgm_member_id = ''b'', cgm_pod_id = Some ''y'', cgm_cluster_id = None\<rparr>]"

theorem pod_placement_balanced_witness:
  "\<exists>baseline a. cooperative_sticky_assignment_with_topology sample_members [] [0, 1, 2] [] 2 50 = Some a
     \<and> cooperative_sticky_assignment_with_topology sample_members [] [0, 1, 2] [] 2 0 = Some baseline
     \<and> dom (hm_get a) = {0, 1, 2} \<and> sum (load a) {''a''} \<le> sum (load a) {''b''} + 1
     \<and> sum (load a) {''b''} \<le> sum (load a) {''a''} + 1
     \<and> changed_partitions a baseline \<le> movement_budget 3 50"
proof -
  have pods: "pod_members_of sample_members = [(''x'', [''a'']), (''y'', [''b''])]" unfolding sample_members_def by code_simp
  have ms: "sample_members \<noteq> []" "\<forall>m \<in> set sample_members. cgm_pod_id m \<noteq> None" "distinct (map cgm_member_id sample_members)"
    by (simp_all add: sample_members_def)
  have two: "(2 :: u32) \<noteq> 0" by simp
  have set: "set [0, 1, 2 :: VirtualPartitionId] = {0, 1, 2}" by simp
  have card: "card {0, 1, 2 :: VirtualPartitionId} = 3" by simp
  from pod_placement_balanced[OF ms two, of "[]" "[0, 1, 2]" "[]" 50, unfolded pods set card]
  show ?thesis by (elim exE conjE, intro exI conjI) simp_all
qed

end
