(* ===== verification/Plan_Validation.thy ===== *)
theory Plan_Validation
  imports Consumer_Assignment
begin

text \<open>
  The check of a persisted assignment plan (\<open>assignment_plan_validation_error\<close> of
  \<open>coordination.rs\<close>), what it means, and that every plan the planner computes passes it.
\<close>

section \<open>Model\<close>

datatype AssignmentPlanValidationError =
    EmptyMembers
  | PlannerNotMember
  | AssignmentCountMismatch nat nat
  | AssignmentOwnerNotMember string
  | DuplicatePartitionAssignment VirtualPartitionId
  | MissingExpectedPartition VirtualPartitionId
  | TopologyMembersMismatch
  | TopologyMemberWithoutPod string
  | ImbalancedLoad nat nat

text \<open>The loop over the assignments: owners, duplicates and the load of every member.\<close>

fun scan_assignments ::
    "string list \<Rightarrow> VirtualPartitionId list \<Rightarrow> (string, nat) hmap \<Rightarrow> ConsumerGroupAssignment list
     \<Rightarrow> AssignmentPlanValidationError + VirtualPartitionId list \<times> (string, nat) hmap" where
  "scan_assignments group_members seen loads [] = Inr (seen, loads)"
| "scan_assignments group_members seen loads (a # rest) =
     (if cga_member_id a \<notin> set group_members then Inl (AssignmentOwnerNotMember (cga_member_id a))
      else if cga_virtual_partition_id a \<in> set seen then Inl (DuplicatePartitionAssignment (cga_virtual_partition_id a))
      else scan_assignments group_members (cga_virtual_partition_id a # seen)
             (case hm_get loads (cga_member_id a) of
                None \<Rightarrow> loads
              | Some n \<Rightarrow> hm_insert (cga_member_id a) (n + 1) loads) rest)"

definition min_or_default :: "nat list \<Rightarrow> nat" where
  "min_or_default xs = (if xs = [] then 0 else Min (set xs))"

definition max_or_default :: "nat list \<Rightarrow> nat" where
  "max_or_default xs = (if xs = [] then 0 else Max (set xs))"

definition load_imbalance :: "nat list \<Rightarrow> AssignmentPlanValidationError option" where
  "load_imbalance loads =
     (if 1 < max_or_default loads - min_or_default loads
      then Some (ImbalancedLoad (min_or_default loads) (max_or_default loads)) else None)"

fun scan_topology ::
    "(string, string) hmap \<Rightarrow> ConsumerGroupMember list \<Rightarrow> AssignmentPlanValidationError + (string, string) hmap" where
  "scan_topology pods [] = Inr pods"
| "scan_topology pods (m # rest) =
     (case cgm_pod_id m of
        None \<Rightarrow> Inl (TopologyMemberWithoutPod (cgm_member_id m))
      | Some pod \<Rightarrow>
          if hm_get pods (cgm_member_id m) \<noteq> None then Inl TopologyMembersMismatch
          else scan_topology (hm_insert (cgm_member_id m) pod pods) rest)"

text \<open>
  The loads per pod and the loads of each pod's members.  Both loops look pods up that are known to
  be there.
\<close>

definition add_count :: "'k \<Rightarrow> nat \<Rightarrow> ('k, nat) hmap \<Rightarrow> ('k, nat) hmap" where
  "add_count k n m = hm_insert k ((case hm_get m k of None \<Rightarrow> 0 | Some c \<Rightarrow> c) + n) m"

definition pod_loads_of :: "(string, string) hmap \<Rightarrow> ConsumerGroupAssignmentPlan \<Rightarrow> (string, nat) hmap" where
  "pod_loads_of pods plan =
     fold (\<lambda>a loads. case hm_get pods (cga_member_id a) of None \<Rightarrow> loads | Some pod \<Rightarrow> add_count pod 1 loads) (plan_assignments plan)
       (fold (\<lambda>member loads. case hm_get pods member of None \<Rightarrow> loads | Some pod \<Rightarrow> add_count pod 0 loads) (plan_members plan) [])"

definition pod_member_loads_of ::
    "(string, string) hmap \<Rightarrow> (string, nat) hmap \<Rightarrow> string list \<Rightarrow> (string, nat list) hmap" where
  "pod_member_loads_of pods loads group_members =
     fold (\<lambda>member acc. case hm_get pods member of
         None \<Rightarrow> acc
       | Some pod \<Rightarrow> hm_insert pod ((case hm_get acc pod of None \<Rightarrow> [] | Some ls \<Rightarrow> ls)
           @ [case hm_get loads member of None \<Rightarrow> 0 | Some n \<Rightarrow> n]) acc) group_members []"

fun first_imbalance :: "nat list list \<Rightarrow> AssignmentPlanValidationError option" where
  "first_imbalance [] = None"
| "first_imbalance (loads # rest) = (case load_imbalance loads of Some e \<Rightarrow> Some e | None \<Rightarrow> first_imbalance rest)"

definition topology_error ::
    "ConsumerGroupAssignmentPlan \<Rightarrow> (string, nat) hmap \<Rightarrow> ConsumerGroupMember list \<Rightarrow> AssignmentPlanValidationError option" where
  "topology_error plan loads topology =
     (if length topology \<noteq> length (plan_members plan) then Some TopologyMembersMismatch
      else case scan_topology [] topology of
        Inl e \<Rightarrow> Some e
      | Inr pods \<Rightarrow>
          if length pods \<noteq> card (set (plan_members plan)) \<or> \<not> list_all (\<lambda>member. hm_get pods member \<noteq> None) (plan_members plan)
          then Some TopologyMembersMismatch
          else case load_imbalance (map snd (pod_loads_of pods plan)) of
            Some e \<Rightarrow> Some e
          | None \<Rightarrow> first_imbalance (map snd (pod_member_loads_of pods loads (plan_members plan))))"

definition assignment_plan_validation_error ::
    "ConsumerGroupAssignmentPlan \<Rightarrow> VirtualPartitionId list \<Rightarrow> AssignmentPlanValidationError option" where
  "assignment_plan_validation_error plan partitions =
     (if plan_members plan = [] then Some EmptyMembers
      else if plan_planner_member_id plan \<notin> set (plan_members plan) then Some PlannerNotMember
      else
        let expected = sort_dedup partitions
        in if length (plan_assignments plan) \<noteq> length expected
           then Some (AssignmentCountMismatch (length expected) (length (plan_assignments plan)))
           else case scan_assignments (plan_members plan) [] (fold (\<lambda>member. hm_insert member 0) (plan_members plan) [])
                       (plan_assignments plan) of
             Inl e \<Rightarrow> Some e
           | Inr (seen, loads) \<Rightarrow>
               (case find (\<lambda>p. p \<notin> set seen) expected of
                  Some p \<Rightarrow> Some (MissingExpectedPartition p)
                | None \<Rightarrow>
                    (case plan_member_topology plan of
                       None \<Rightarrow> load_imbalance (map snd loads)
                     | Some topology \<Rightarrow> topology_error plan loads topology)))"

definition plan_assignment_map :: "ConsumerGroupAssignmentPlan \<Rightarrow> Assignment" where
  "plan_assignment_map plan =
     fold (\<lambda>a. hm_insert (cga_virtual_partition_id a) (cga_member_id a)) (plan_assignments plan) []"

text \<open>
  The members as the coordinator counts them: as in \<^const>\<open>canonical_members\<close>, but a blank local
  identifier is kept.
\<close>

definition coordinator_members :: "string list \<Rightarrow> string \<Rightarrow> string list" where
  "coordinator_members group_members local_member_id =
     (let canonical = filter (\<lambda>member. trim member \<noteq> []) group_members
      in sort_dedup (if local_member_id \<notin> set canonical then canonical @ [local_member_id] else canonical))"

section \<open>What the check means\<close>

text \<open>The number of assignments of a member.\<close>

definition plan_load :: "ConsumerGroupAssignmentPlan \<Rightarrow> string \<Rightarrow> nat" where
  "plan_load plan member = length (filter (\<lambda>a. cga_member_id a = member) (plan_assignments plan))"

definition close :: "nat set \<Rightarrow> bool" where
  "close A \<longleftrightarrow> (\<forall>x \<in> A. \<forall>y \<in> A. x \<le> y + 1)"

text \<open>
  A topology names exactly the members, once each and with their pods, and balances the loads over the
  pods and within every pod.
\<close>

definition topology_well_formed :: "ConsumerGroupAssignmentPlan \<Rightarrow> ConsumerGroupMember list \<Rightarrow> bool" where
  "topology_well_formed plan topology \<longleftrightarrow>
     length topology = length (plan_members plan)
     \<and> (\<forall>m \<in> set topology. cgm_pod_id m \<noteq> None) \<and> distinct (map cgm_member_id topology)
     \<and> set (map cgm_member_id topology) = set (plan_members plan)
     \<and> close ((\<lambda>pod. \<Sum>m \<in> {m \<in> set topology. cgm_pod_id m = Some pod}. plan_load plan (cgm_member_id m))
          ` {pod. \<exists>m \<in> set topology. cgm_pod_id m = Some pod})
     \<and> (\<forall>pod. close ((\<lambda>m. plan_load plan (cgm_member_id m)) ` {m \<in> set topology. cgm_pod_id m = Some pod}))"

text \<open>
  A plan gives every partition exactly one owner, which is a member, and balances the loads: over
  all members, or over the topology.
\<close>

definition plan_well_formed :: "ConsumerGroupAssignmentPlan \<Rightarrow> VirtualPartitionId list \<Rightarrow> bool" where
  "plan_well_formed plan partitions \<longleftrightarrow>
     plan_planner_member_id plan \<in> set (plan_members plan)
     \<and> distinct (map cga_virtual_partition_id (plan_assignments plan))
     \<and> set (map cga_virtual_partition_id (plan_assignments plan)) = set partitions
     \<and> cga_member_id ` set (plan_assignments plan) \<subseteq> set (plan_members plan)
     \<and> (case plan_member_topology plan of
          None \<Rightarrow> close (plan_load plan ` set (plan_members plan))
        | Some topology \<Rightarrow> topology_well_formed plan topology)"

lemma load_imbalance_None: "load_imbalance xs = None \<longleftrightarrow> close (set xs)"
proof (cases "xs = []")
  case False
  then have mm: "min_or_default xs = Min (set xs)" "max_or_default xs = Max (set xs)" by (simp_all add: min_or_default_def max_or_default_def)
  have fin: "finite (set xs)" "set xs \<noteq> {}" using False by simp_all
  have "close (set xs) \<longleftrightarrow> Max (set xs) \<le> Min (set xs) + 1"
  proof
    assume "close (set xs)"
    then show "Max (set xs) \<le> Min (set xs) + 1" using Max_in[OF fin] Min_in[OF fin] by (simp add: close_def)
  next
    assume h: "Max (set xs) \<le> Min (set xs) + 1"
    have "x \<le> y + 1" if "x \<in> set xs" "y \<in> set xs" for x y
      using Max_ge[OF fin(1) that(1)] Min_le[OF fin(1) that(2)] h by linarith
    then show "close (set xs)" by (simp add: close_def)
  qed
  then show ?thesis by (auto simp: load_imbalance_def mm)
qed (simp add: load_imbalance_def close_def max_or_default_def min_or_default_def)

lemma first_imbalance_None: "first_imbalance xss = None \<longleftrightarrow> (\<forall>xs \<in> set xss. load_imbalance xs = None)"
  by (induction xss) (auto split: option.splits)

lemma hm_values: "hm_ok m \<Longrightarrow> set (map snd m) = {v. \<exists>k. hm_get m k = Some v}"
  by (force simp: hm_get_mem)

subsection \<open>Assignments\<close>

definition scan_passes :: "string list \<Rightarrow> VirtualPartitionId list \<Rightarrow> ConsumerGroupAssignment list \<Rightarrow> bool" where
  "scan_passes ms seen as \<longleftrightarrow> cga_member_id ` set as \<subseteq> set ms \<and> distinct (map cga_virtual_partition_id as)
     \<and> set (map cga_virtual_partition_id as) \<inter> set seen = {}"

lemma scan_assignments_fails:
  "\<not> scan_passes ms seen as \<Longrightarrow> \<exists>e. scan_assignments ms seen loads as = Inl e"
proof (induction as arbitrary: seen loads)
  case (Cons a as)
  show ?case
  proof (cases "cga_member_id a \<in> set ms \<and> cga_virtual_partition_id a \<notin> set seen")
    case True
    then have "\<not> scan_passes ms (cga_virtual_partition_id a # seen) as" using Cons.prems by (auto simp: scan_passes_def)
    with True Cons.IH show ?thesis by simp
  next
    case False
    then show ?thesis by auto
  qed
qed (simp add: scan_passes_def)

lemma scan_assignments_passes:
  assumes "scan_passes ms seen as" "hm_ok loads"
  shows "\<exists>seen' loads'. scan_assignments ms seen loads as = Inr (seen', loads')
    \<and> set seen' = set (map cga_virtual_partition_id as) \<union> set seen \<and> hm_ok loads'
    \<and> (\<forall>w. hm_get loads' w = map_option (\<lambda>n. n + length (filter (\<lambda>a. cga_member_id a = w) as)) (hm_get loads w))"
  using assms
proof (induction as arbitrary: seen loads)
  case (Cons a as)
  let ?loads = "case hm_get loads (cga_member_id a) of None \<Rightarrow> loads | Some n \<Rightarrow> hm_insert (cga_member_id a) (n + 1) loads"
  have pass: "scan_passes ms (cga_virtual_partition_id a # seen) as" using Cons.prems(1) by (auto simp: scan_passes_def)
  have ok: "hm_ok ?loads" using Cons.prems(2) by (simp add: hm_ok_insert split: option.splits)
  obtain seen' loads' where r: "scan_assignments ms (cga_virtual_partition_id a # seen) ?loads as = Inr (seen', loads')"
    "set seen' = set (map cga_virtual_partition_id as) \<union> set (cga_virtual_partition_id a # seen)" "hm_ok loads'"
    "\<forall>w. hm_get loads' w = map_option (\<lambda>n. n + length (filter (\<lambda>a. cga_member_id a = w) as)) (hm_get ?loads w)"
    using Cons.IH[OF pass ok] by blast
  have head: "cga_member_id a \<in> set ms" "cga_virtual_partition_id a \<notin> set seen" using Cons.prems(1) by (auto simp: scan_passes_def)
  have "hm_get loads' w = map_option (\<lambda>n. n + length (filter (\<lambda>a. cga_member_id a = w) (a # as))) (hm_get loads w)" for w
    unfolding spec[OF r(4), of w] by (auto simp: hash_map option.map_comp comp_def split: option.splits)
  moreover have "set seen' = set (map cga_virtual_partition_id (a # as)) \<union> set seen" using r(2) by auto
  ultimately show ?case using r(1,3) head by simp
qed (simp add: scan_passes_def option.map_ident)

subsection \<open>Topology\<close>

definition topology_passes :: "(string, string) hmap \<Rightarrow> ConsumerGroupMember list \<Rightarrow> bool" where
  "topology_passes pods ms \<longleftrightarrow> (\<forall>m \<in> set ms. cgm_pod_id m \<noteq> None) \<and> distinct (map cgm_member_id ms)
     \<and> (\<forall>m \<in> set ms. hm_get pods (cgm_member_id m) = None)"

lemma topology_passes_Cons:
  assumes "cgm_pod_id m = Some pod" "hm_get pods (cgm_member_id m) = None"
  shows "topology_passes (hm_insert (cgm_member_id m) pod pods) ms \<longleftrightarrow> topology_passes pods (m # ms)"
proof -
  have "(\<forall>x \<in> set ms. hm_get (hm_insert (cgm_member_id m) pod pods) (cgm_member_id x) = None)
      \<longleftrightarrow> cgm_member_id m \<notin> cgm_member_id ` set ms \<and> (\<forall>x \<in> set ms. hm_get pods (cgm_member_id x) = None)"
    unfolding hm_get_insert image_iff by auto
  with assms show ?thesis unfolding topology_passes_def by auto
qed

lemma scan_topology_fails: "\<not> topology_passes pods ms \<Longrightarrow> \<exists>e. scan_topology pods ms = Inl e"
proof (induction ms arbitrary: pods)
  case (Cons m ms)
  show ?case
  proof (cases "\<exists>pod. cgm_pod_id m = Some pod \<and> hm_get pods (cgm_member_id m) = None")
    case True
    then obtain pod where pod: "cgm_pod_id m = Some pod" "hm_get pods (cgm_member_id m) = None" by blast
    have "\<not> topology_passes (hm_insert (cgm_member_id m) pod pods) ms"
      using Cons.prems topology_passes_Cons[OF pod] by simp
    from Cons.IH[OF this] pod show ?thesis by simp
  next
    case False
    then show ?thesis by (auto split: option.splits)
  qed
qed (simp add: topology_passes_def)

lemma scan_topology_passes:
  assumes "topology_passes pods ms"
  shows "\<exists>pods'. scan_topology pods ms = Inr pods' \<and> length pods' = length pods + length ms
    \<and> (\<forall>w. hm_get pods' w = (case find (\<lambda>m. cgm_member_id m = w) ms of Some m \<Rightarrow> cgm_pod_id m | None \<Rightarrow> hm_get pods w))"
  using assms
proof (induction ms arbitrary: pods)
  case (Cons m ms)
  obtain pod where pod: "cgm_pod_id m = Some pod" using Cons.prems by (auto simp: topology_passes_def)
  have none: "hm_get pods (cgm_member_id m) = None" using Cons.prems by (auto simp: topology_passes_def)
  have "topology_passes (hm_insert (cgm_member_id m) pod pods) ms"
    using Cons.prems topology_passes_Cons[OF pod none] by simp
  from Cons.IH[OF this] obtain pods' where r: "scan_topology (hm_insert (cgm_member_id m) pod pods) ms = Inr pods'"
    "length pods' = length (hm_insert (cgm_member_id m) pod pods) + length ms"
    "\<forall>w. hm_get pods' w = (case find (\<lambda>m. cgm_member_id m = w) ms of Some m \<Rightarrow> cgm_pod_id m
        | None \<Rightarrow> hm_get (hm_insert (cgm_member_id m) pod pods) w)" by blast
  have "length (hm_insert (cgm_member_id m) pod pods) = Suc (length pods)"
    using none hm_insert_fresh[of "cgm_member_id m" pods pod] by (simp add: map_of_eq_None_iff)
  moreover have "find (\<lambda>x. cgm_member_id x = cgm_member_id m) ms = None"
  proof -
    have "cgm_member_id m \<notin> cgm_member_id ` set ms" using Cons.prems by (simp add: topology_passes_def)
    then show ?thesis unfolding find_None_iff image_iff by metis
  qed
  ultimately show ?case using r pod none by (auto simp: hash_map split: option.splits)
qed simp

subsection \<open>Loads of pods\<close>

lemma add_count_get: "hm_get (add_count k n m) k' = (if k' = k then Some ((case hm_get m k of None \<Rightarrow> 0 | Some c \<Rightarrow> c) + n) else hm_get m k')"
  by (simp add: add_count_def hash_map)

lemma add_count_ok: "hm_ok m \<Longrightarrow> hm_ok (add_count k n m)"
  by (simp add: add_count_def hm_ok_insert)

text \<open>Both loops count items by the pod that a function gives them.\<close>

definition count_items :: "('a \<Rightarrow> 'k option) \<Rightarrow> nat \<Rightarrow> 'a list \<Rightarrow> ('k, nat) hmap \<Rightarrow> ('k, nat) hmap" where
  "count_items f n xs m = fold (\<lambda>x m. case f x of None \<Rightarrow> m | Some k \<Rightarrow> add_count k n m) xs m"

lemma count_items_ok: "hm_ok m \<Longrightarrow> hm_ok (count_items f n xs m)"
  unfolding count_items_def by (induction xs arbitrary: m) (auto simp: add_count_ok split: option.splits)

lemma count_items_get:
  "hm_get (count_items f n xs m) k =
     (if \<exists>x \<in> set xs. f x = Some k
      then Some ((case hm_get m k of None \<Rightarrow> 0 | Some c \<Rightarrow> c) + n * length (filter (\<lambda>x. f x = Some k) xs))
      else hm_get m k)"
proof (induction xs arbitrary: m)
  case (Cons x xs)
  have step: "count_items f n (x # xs) m = count_items f n xs (case f x of None \<Rightarrow> m | Some k \<Rightarrow> add_count k n m)"
    by (simp add: count_items_def)
  have none: "length (filter (\<lambda>x. f x = Some k) xs) = 0" if "\<not> (\<exists>x \<in> set xs. f x = Some k)"
    using that by (simp add: filter_empty_conv)
  show ?case unfolding step Cons.IH using none by (auto simp: add_count_get algebra_simps split: option.splits)
qed (simp add: count_items_def)

lemma pod_loads_count:
  "pod_loads_of pods plan = count_items (\<lambda>a. hm_get pods (cga_member_id a)) 1 (plan_assignments plan)
     (count_items (hm_get pods) 0 (plan_members plan) [])"
  unfolding pod_loads_of_def count_items_def by (rule refl)

lemma pod_member_loads_get:
  "hm_get (pod_member_loads_of pods loads ms) pod =
     (if \<exists>m \<in> set ms. hm_get pods m = Some pod
      then Some (map (\<lambda>m. case hm_get loads m of None \<Rightarrow> 0 | Some n \<Rightarrow> n) (filter (\<lambda>m. hm_get pods m = Some pod) ms)) else None)"
  "hm_ok (pod_member_loads_of pods loads ms)"
proof -
  let ?f = "\<lambda>member acc. case hm_get pods member of None \<Rightarrow> acc
     | Some pod \<Rightarrow> hm_insert pod ((case hm_get acc pod of None \<Rightarrow> [] | Some ls \<Rightarrow> ls)
         @ [case hm_get loads member of None \<Rightarrow> 0 | Some n \<Rightarrow> n]) acc"
  have "hm_get (fold ?f ms acc) pod =
     (if \<exists>m \<in> set ms. hm_get pods m = Some pod
      then Some ((case hm_get acc pod of None \<Rightarrow> [] | Some ls \<Rightarrow> ls)
        @ map (\<lambda>m. case hm_get loads m of None \<Rightarrow> 0 | Some n \<Rightarrow> n) (filter (\<lambda>m. hm_get pods m = Some pod) ms))
      else hm_get acc pod)" for acc
  proof (induction ms arbitrary: acc)
    case (Cons m ms)
    have none: "filter (\<lambda>m. hm_get pods m = Some pod) ms = []" if "\<not> (\<exists>m \<in> set ms. hm_get pods m = Some pod)"
      using that by (simp add: filter_empty_conv)
    show ?case unfolding fold_simps Cons.IH using none by (auto simp: hash_map split: option.splits)
  qed simp
  then show "hm_get (pod_member_loads_of pods loads ms) pod =
     (if \<exists>m \<in> set ms. hm_get pods m = Some pod
      then Some (map (\<lambda>m. case hm_get loads m of None \<Rightarrow> 0 | Some n \<Rightarrow> n) (filter (\<lambda>m. hm_get pods m = Some pod) ms)) else None)"
    unfolding pod_member_loads_of_def by simp
  have "hm_ok acc \<Longrightarrow> hm_ok (fold ?f ms acc)" for acc
    by (induction ms arbitrary: acc) (auto simp: hm_ok_insert split: option.splits)
  then show "hm_ok (pod_member_loads_of pods loads ms)" unfolding pod_member_loads_of_def by simp
qed

lemma filter_owner_sum:
  assumes "finite W"
  shows "length (filter (\<lambda>a. f a \<in> W) as) = (\<Sum>w \<in> W. length (filter (\<lambda>a. f a = w) as))"
proof (induction as)
  case (Cons a as)
  have "(\<Sum>w \<in> W. length (filter (\<lambda>a. f a = w) (a # as)))
      = (\<Sum>w \<in> W. (if w = f a then 1 else 0) + length (filter (\<lambda>a. f a = w) as))"
    by (rule sum.cong) auto
  also have "\<dots> = (if f a \<in> W then 1 else 0) + (\<Sum>w \<in> W. length (filter (\<lambda>a. f a = w) as))"
    using assms by (simp add: sum.distrib)
  finally show ?case using Cons.IH by simp
qed simp

lemma find_by_id:
  assumes "distinct (map f xs)" "x \<in> set xs"
  shows "find (\<lambda>y. f y = f x) xs = Some x"
proof (cases "find (\<lambda>y. f y = f x) xs")
  case None
  with assms(2) show ?thesis unfolding find_None_iff by blast
next
  case (Some y)
  then have "y \<in> set xs" "f y = f x" by (auto simp: find_Some_iff)
  from distinct_map_eq[OF assms(1) this(1) assms(2) this(2)] Some show ?thesis by simp
qed

lemma topology_lookup:
  assumes "distinct (map cgm_member_id topology)"
    "\<forall>w. hm_get pods w = (case find (\<lambda>m. cgm_member_id m = w) topology of Some m \<Rightarrow> cgm_pod_id m | None \<Rightarrow> None)"
  shows "x \<in> set topology \<Longrightarrow> hm_get pods (cgm_member_id x) = cgm_pod_id x"
    and "w \<notin> cgm_member_id ` set topology \<Longrightarrow> hm_get pods w = None"
proof -
  show "hm_get pods (cgm_member_id x) = cgm_pod_id x" if "x \<in> set topology"
    unfolding spec[OF assms(2)] find_by_id[OF assms(1) that] by simp
  show "hm_get pods w = None" if "w \<notin> cgm_member_id ` set topology"
  proof -
    have "find (\<lambda>m. cgm_member_id m = w) topology = None" using that unfolding find_None_iff by blast
    then show ?thesis unfolding spec[OF assms(2)] by simp
  qed
qed

lemma pod_load_values:
  assumes top: "distinct (map cgm_member_id topology)"
    and get: "\<And>w pod. hm_get pods w = Some pod \<longleftrightarrow> (\<exists>m \<in> set topology. cgm_member_id m = w \<and> cgm_pod_id m = Some pod)"
    and ids: "set (map cgm_member_id topology) = set (plan_members plan)"
    and owners: "cga_member_id ` set (plan_assignments plan) \<subseteq> set (plan_members plan)"
  shows "set (map snd (pod_loads_of pods plan))
    = (\<lambda>pod. \<Sum>m \<in> {m \<in> set topology. cgm_pod_id m = Some pod}. plan_load plan (cgm_member_id m))
        ` {pod. \<exists>m \<in> set topology. cgm_pod_id m = Some pod}"
proof -
  let ?sum = "\<lambda>pod. \<Sum>m \<in> {m \<in> set topology. cgm_pod_id m = Some pod}. plan_load plan (cgm_member_id m)"
  let ?pods = "{pod. \<exists>m \<in> set topology. cgm_pod_id m = Some pod}"
  have members: "(\<exists>w \<in> set (plan_members plan). hm_get pods w = Some pod) \<longleftrightarrow> pod \<in> ?pods" for pod
    unfolding ids[symmetric] get by auto
  have count: "length (filter (\<lambda>a. hm_get pods (cga_member_id a) = Some pod) (plan_assignments plan)) = ?sum pod" for pod
  proof -
    let ?M = "{m \<in> set topology. cgm_pod_id m = Some pod}"
    have eq: "(\<lambda>a. hm_get pods (cga_member_id a) = Some pod) = (\<lambda>a. cga_member_id a \<in> cgm_member_id ` ?M)"
      unfolding get by (rule ext) force
    have "length (filter (\<lambda>a. hm_get pods (cga_member_id a) = Some pod) (plan_assignments plan))
        = (\<Sum>w \<in> cgm_member_id ` ?M. plan_load plan w)"
      unfolding eq plan_load_def by (rule filter_owner_sum) simp
    also have "\<dots> = ?sum pod" using top by (subst sum.reindex) (auto simp: distinct_map inj_on_def)
    finally show ?thesis .
  qed
  have "hm_get (pod_loads_of pods plan) pod = (if pod \<in> ?pods then Some (?sum pod) else None)" for pod
  proof (cases "pod \<in> ?pods")
    case True
    then have "hm_get (count_items (hm_get pods) 0 (plan_members plan) []) pod = Some 0"
      unfolding count_items_get members by simp
    then show ?thesis unfolding pod_loads_count count_items_get[of "\<lambda>a. hm_get pods (cga_member_id a)"]
      using True count[of pod] by (auto simp: filter_empty_conv)
  next
    case False
    then have "hm_get (count_items (hm_get pods) 0 (plan_members plan) []) pod = None"
      unfolding count_items_get members by simp
    moreover have "\<not> (\<exists>a \<in> set (plan_assignments plan). hm_get pods (cga_member_id a) = Some pod)"
      using False owners unfolding members[symmetric] by blast
    ultimately show ?thesis unfolding pod_loads_count count_items_get[of "\<lambda>a. hm_get pods (cga_member_id a)"] using False by simp
  qed
  moreover have "hm_ok (pod_loads_of pods plan)" unfolding pod_loads_count by (intro count_items_ok) simp
  ultimately show ?thesis
    unfolding hm_values[OF \<open>hm_ok (pod_loads_of pods plan)\<close>] by (simp add: image_def) blast
qed

lemma pod_member_values:
  assumes get: "\<And>w pod. hm_get pods w = Some pod \<longleftrightarrow> (\<exists>m \<in> set topology. cgm_member_id m = w \<and> cgm_pod_id m = Some pod)"
    and ids: "set (map cgm_member_id topology) = set (plan_members plan)"
    and loads: "\<forall>w \<in> set (plan_members plan). hm_get loads w = Some (plan_load plan w)"
  shows "first_imbalance (map snd (pod_member_loads_of pods loads (plan_members plan))) = None
    \<longleftrightarrow> (\<forall>pod. close ((\<lambda>m. plan_load plan (cgm_member_id m)) ` {m \<in> set topology. cgm_pod_id m = Some pod}))"
proof -
  let ?ms = "plan_members plan"
  let ?list = "\<lambda>pod. map (\<lambda>m. case hm_get loads m of None \<Rightarrow> 0 | Some n \<Rightarrow> n) (filter (\<lambda>m. hm_get pods m = Some pod) ?ms)"
  have "set (?list pod) = plan_load plan ` {w \<in> set ?ms. hm_get pods w = Some pod}" for pod
  proof -
    have "set (?list pod) = (\<lambda>m. case hm_get loads m of None \<Rightarrow> 0 | Some n \<Rightarrow> n) ` {w \<in> set ?ms. hm_get pods w = Some pod}" by simp
    also have "\<dots> = plan_load plan ` {w \<in> set ?ms. hm_get pods w = Some pod}"
      using loads by (intro image_cong) simp_all
    finally show ?thesis .
  qed
  moreover have "{w \<in> set ?ms. hm_get pods w = Some pod} = cgm_member_id ` {m \<in> set topology. cgm_pod_id m = Some pod}" for pod
    unfolding ids[symmetric] get by (auto simp: image_def)
  ultimately have list: "set (?list pod) = (\<lambda>m. plan_load plan (cgm_member_id m)) ` {m \<in> set topology. cgm_pod_id m = Some pod}" for pod
    by (simp only: image_image)
  have vals: "set (map snd (pod_member_loads_of pods loads ?ms)) = {?list pod | pod. \<exists>w \<in> set ?ms. hm_get pods w = Some pod}"
    unfolding hm_values[OF pod_member_loads_get(2)] pod_member_loads_get(1) by (auto split: if_splits)
  have empty: "close (set (?list pod))" if "\<not> (\<exists>w \<in> set ?ms. hm_get pods w = Some pod)" for pod
    using that by (simp add: close_def)
  have "(\<forall>xs \<in> set (map snd (pod_member_loads_of pods loads ?ms)). close (set xs)) \<longleftrightarrow> (\<forall>pod. close (set (?list pod)))"
    unfolding vals using empty by blast
  then show ?thesis unfolding first_imbalance_None load_imbalance_None list .
qed

lemma topology_error_None:
  assumes owners: "cga_member_id ` set (plan_assignments plan) \<subseteq> set (plan_members plan)"
    and loads: "\<forall>w \<in> set (plan_members plan). hm_get loads w = Some (plan_load plan w)"
  shows "topology_error plan loads topology = None \<longleftrightarrow> topology_well_formed plan topology"
proof (cases "length topology = length (plan_members plan) \<and> topology_passes [] topology")
  case False
  then have "\<not> topology_well_formed plan topology" by (auto simp: topology_well_formed_def topology_passes_def)
  moreover have "topology_error plan loads topology \<noteq> None"
  proof (cases "length topology = length (plan_members plan)")
    case True
    with False obtain e where "scan_topology [] topology = Inl e" using scan_topology_fails by blast
    with True show ?thesis by (simp add: topology_error_def)
  qed (simp add: topology_error_def)
  ultimately show ?thesis by simp
next
  case True
  then have pass: "topology_passes [] topology" and len: "length topology = length (plan_members plan)" by simp_all
  have d: "distinct (map cgm_member_id topology)" and pod: "\<forall>m \<in> set topology. cgm_pod_id m \<noteq> None"
    using pass by (simp_all add: topology_passes_def)
  obtain pods where pods: "scan_topology [] topology = Inr pods" "length pods = length topology"
    "\<forall>w. hm_get pods w = (case find (\<lambda>m. cgm_member_id m = w) topology of Some m \<Rightarrow> cgm_pod_id m | None \<Rightarrow> None)"
    using scan_topology_passes[OF pass] unfolding map_of.simps list.size add_0 by blast
  note look = topology_lookup[OF d pods(3)]
  have get: "hm_get pods w = Some q \<longleftrightarrow> (\<exists>m \<in> set topology. cgm_member_id m = w \<and> cgm_pod_id m = Some q)" for w q
    using look(1) look(2)[of w] by (metis image_iff option.distinct(1))
  have present: "hm_get pods w \<noteq> None \<longleftrightarrow> w \<in> cgm_member_id ` set topology" for w
    using look(1) look(2)[of w] pod by (metis image_iff)
  have "length pods = card (set (map cgm_member_id topology))" using distinct_card[OF d] pods(2) by simp
  then have names: "length pods = card (set (plan_members plan)) \<and> list_all (\<lambda>w. hm_get pods w \<noteq> None) (plan_members plan)
      \<longleftrightarrow> set (map cgm_member_id topology) = set (plan_members plan)"
    unfolding list_all_iff present
    by (metis (mono_tags, lifting) List.finite_set card_subset_eq list.set_map subsetI)
  show ?thesis
  proof (cases "set (map cgm_member_id topology) = set (plan_members plan)")
    case ids: True
    have "topology_error plan loads topology = None \<longleftrightarrow>
        load_imbalance (map snd (pod_loads_of pods plan)) = None
        \<and> first_imbalance (map snd (pod_member_loads_of pods loads (plan_members plan))) = None"
      using len pods(1) ids names unfolding topology_error_def by (auto split: option.splits)
    then show ?thesis
      unfolding load_imbalance_None pod_load_values[OF d get ids owners] pod_member_values[OF get ids loads]
        topology_well_formed_def using len pod d ids by blast
  next
    case False
    with len pods(1) names show ?thesis unfolding topology_error_def topology_well_formed_def by auto
  qed
qed

subsection \<open>The whole check\<close>

lemma validation_exact:
  "assignment_plan_validation_error plan ps = None \<longleftrightarrow> plan_well_formed plan ps"
proof -
  let ?ms = "plan_members plan" and ?as = "plan_assignments plan"
  let ?vps = "map cga_virtual_partition_id ?as" and ?expected = "sort_dedup ps"
  let ?loads = "fold (\<lambda>member. hm_insert member (0 :: nat)) ?ms []"
  show ?thesis
  proof (cases "plan_planner_member_id plan \<in> set ?ms \<and> length ?as = length ?expected \<and> scan_passes ?ms [] ?as")
    case False
    have "length ?as = length ?expected" if "plan_well_formed plan ps"
      using that distinct_card[of ?vps] distinct_card[OF distinct_sort_dedup, of ps]
      by (simp add: plan_well_formed_def)
    with False have "\<not> plan_well_formed plan ps" by (auto simp: plan_well_formed_def scan_passes_def)
    moreover have "assignment_plan_validation_error plan ps \<noteq> None"
    proof (cases "plan_planner_member_id plan \<in> set ?ms \<and> length ?as = length ?expected")
      case True
      with False obtain e where "scan_assignments ?ms [] ?loads ?as = Inl e" using scan_assignments_fails by blast
      with True show ?thesis by (auto simp: assignment_plan_validation_error_def Let_def)
    qed (auto simp: assignment_plan_validation_error_def Let_def)
    ultimately show ?thesis by simp
  next
    case True
    then have pass: "scan_passes ?ms [] ?as" by simp
    have "hm_ok m \<Longrightarrow> hm_ok (fold (\<lambda>member. hm_insert member 0) xs m)" for xs and m :: "(string, nat) hmap"
      by (induction xs arbitrary: m) (simp_all add: hm_ok_insert)
    then have "hm_ok ?loads" by simp
    from scan_assignments_passes[OF pass this] obtain seen loads where
      scan: "scan_assignments ?ms [] ?loads ?as = Inr (seen, loads)" and seen: "set seen = set ?vps" and ok: "hm_ok loads"
      and get: "\<forall>w. hm_get loads w = map_option (\<lambda>n. n + length (filter (\<lambda>a. cga_member_id a = w) ?as)) (hm_get ?loads w)"
      by auto
    have loads: "hm_get loads w = (if w \<in> set ?ms then Some (plan_load plan w) else None)" for w
      unfolding spec[OF get] fold_capacity by (simp add: plan_load_def)
    have d: "distinct ?vps" and owners: "cga_member_id ` set ?as \<subseteq> set ?ms" using pass by (simp_all add: scan_passes_def)
    have "card (set ?vps) = card (set ps)"
      using distinct_card[OF d] distinct_card[OF distinct_sort_dedup, of ps] True by simp
    then have cover: "find (\<lambda>p. p \<notin> set seen) ?expected = None \<longleftrightarrow> set ?vps = set ps"
      unfolding find_None_iff seen set_sort_dedup
      by (metis List.finite_set card_subset_eq subsetI)
    have vals: "set (map snd loads) = plan_load plan ` set ?ms"
      unfolding hm_values[OF ok] loads by (auto split: if_splits)
    have "assignment_plan_validation_error plan ps = None \<longleftrightarrow> set ?vps = set ps
        \<and> (case plan_member_topology plan of
             None \<Rightarrow> close (plan_load plan ` set ?ms) | Some topology \<Rightarrow> topology_well_formed plan topology)"
    proof (cases "plan_member_topology plan")
      case None
      then show ?thesis
        unfolding assignment_plan_validation_error_def Let_def scan cover[symmetric] vals[symmetric] load_imbalance_None[symmetric]
        using True by (auto split: option.splits)
    next
      case (Some topology)
      have err: "topology_error plan loads topology = None \<longleftrightarrow> topology_well_formed plan topology"
        by (rule topology_error_None[OF owners]) (simp add: loads)
      show ?thesis
        unfolding assignment_plan_validation_error_def Let_def scan cover[symmetric] using True Some err
        by (auto split: option.splits)
    qed
    then show ?thesis unfolding plan_well_formed_def using True d owners by blast
  qed
qed

text \<open>
  Claim C16.  The check of a stored plan is exact: it reports no error just when the plan has members,
  its planner is one of them, it assigns every partition of the topic exactly once and to a member,
  and the loads differ by at most one; with a topology, the topology lists each member once with a
  pod, and the bound holds between pods and within each pod.
\<close>

theorem plan_validation_exact: "assignment_plan_validation_error plan ps = None \<longleftrightarrow> plan_well_formed plan ps"
  by (rule validation_exact)

section \<open>Computed plans\<close>

lemma coordinator_members_canonical: "trim local_id \<noteq> [] \<Longrightarrow> coordinator_members ms local_id = canonical_members ms local_id"
  by (simp add: coordinator_members_def canonical_members_def Let_def)

lemma local_member_canonical: "trim local_id \<noteq> [] \<Longrightarrow> local_id \<in> set (canonical_members ms local_id)"
  by (auto simp: canonical_members_def Let_def)

lemma topology_names:
  assumes "canonical_member_topology ms active local_id pod cluster = Some topology"
  shows "map cgm_member_id topology = ms" "\<forall>m \<in> set topology. cgm_pod_id m \<noteq> None"
proof -
  have "map cgm_member_id topology = ms \<and> (\<forall>m \<in> set topology. cgm_pod_id m \<noteq> None)"
    if "those (map (\<lambda>member. map_option (\<lambda>(pod, cluster).
        \<lparr>cgm_member_id = member, cgm_pod_id = Some pod, cgm_cluster_id = cluster\<rparr>) (f member)) xs) = Some topology"
      "xs = ms" for f :: "string \<Rightarrow> (string \<times> string option) option" and xs
    using that
    by (induction xs arbitrary: ms topology) (auto split: option.splits)
  then show "map cgm_member_id topology = ms" "\<forall>m \<in> set topology. cgm_pod_id m \<noteq> None"
    using assms unfolding canonical_member_topology_def Let_def by blast+
qed

text \<open>The plan of a complete assignment has its loads.\<close>

lemma assignment_plan_entries:
  assumes "dom (hm_get a) = set ps"
  shows "plan_assignments (assignment_plan v ms ps a topology local_id now)
    = map (\<lambda>p. \<lparr>cga_virtual_partition_id = p, cga_member_id = the (hm_get a p)\<rparr>) (sort_dedup ps)"
proof -
  have "List.map_filter (\<lambda>p. map_option (\<lambda>member. \<lparr>cga_virtual_partition_id = p, cga_member_id = member\<rparr>) (hm_get a p)) qs
      = map (\<lambda>p. \<lparr>cga_virtual_partition_id = p, cga_member_id = the (hm_get a p)\<rparr>) qs" if "set qs \<subseteq> dom (hm_get a)" for qs
    using that by (induction qs) (auto simp: List.map_filter_def)
  then show ?thesis using assms by (simp add: assignment_plan_def)
qed

lemma assignment_plan_load:
  assumes "dom (hm_get a) = set ps"
  shows "plan_load (assignment_plan v ms ps a topology local_id now) w = load a w"
proof -
  have "plan_load (assignment_plan v ms ps a topology local_id now) w
      = length (filter (\<lambda>p. the (hm_get a p) = w) (sort_dedup ps))"
    unfolding plan_load_def assignment_plan_entries[OF assms] by (simp add: filter_map comp_def)
  also have "\<dots> = card {p \<in> set ps. the (hm_get a p) = w}"
    using distinct_card[of "filter (\<lambda>p. the (hm_get a p) = w) (sort_dedup ps)"] by simp
  also have "{p \<in> set ps. the (hm_get a p) = w} = {p. hm_get a p = Some w}"
    unfolding assms[symmetric] by (auto simp: domIff)
  finally show ?thesis by (simp add: load_def)
qed

lemma assignment_plan_well_formed:
  assumes "dom (hm_get a) = set ps" "\<forall>p w. hm_get a p = Some w \<longrightarrow> w \<in> set (canonical_members ms local_id)" "trim local_id \<noteq> []"
    "case topology of None \<Rightarrow> close (load a ` set (canonical_members ms local_id))
     | Some t \<Rightarrow> topology_well_formed (assignment_plan v ms ps a topology local_id now) t"
  shows "plan_well_formed (assignment_plan v ms ps a topology local_id now) ps"
proof -
  let ?plan = "assignment_plan v ms ps a topology local_id now"
  note entries = assignment_plan_entries[OF assms(1), of v ms topology local_id now]
  have fields: "plan_planner_member_id ?plan = local_id" "plan_members ?plan = canonical_members ms local_id"
    "plan_member_topology ?plan = topology" by (simp_all add: assignment_plan_def)
  have vps: "map cga_virtual_partition_id (plan_assignments ?plan) = sort_dedup ps" unfolding entries by (simp add: comp_def)
  have "cga_member_id ` set (plan_assignments ?plan) \<subseteq> set (canonical_members ms local_id)"
    unfolding entries using assms(1,2) by force
  moreover have "plan_load ?plan = load a" by (rule ext) (rule assignment_plan_load[OF assms(1)])
  ultimately show ?thesis
    unfolding plan_well_formed_def fields vps using assms(3,4) local_member_canonical[OF assms(3)]
    by (auto split: option.splits)
qed

lemma flat_plan_well_formed:
  assumes "trim local_id \<noteq> []" "lpc \<noteq> 0"
  obtains a where "cooperative_sticky_assignment ms ps previous local_id lpc percent = Some a"
    "plan_well_formed (assignment_plan v ms ps a None local_id now) ps"
proof -
  have ne: "canonical_members ms local_id \<noteq> []" using local_member_canonical[OF assms(1), of ms] by auto
  obtain b a where r: "cooperative_sticky_assignment ms ps previous local_id lpc 0 = Some b"
    "cooperative_sticky_assignment ms ps previous local_id lpc percent = Some a"
    "dom (hm_get b) = set ps" "same_loads b a"
    "\<forall>p w. hm_get b p = Some w \<longrightarrow> w \<in> set (canonical_members ms local_id)"
    "share_ok (canonical_members ms local_id) (card (set ps)) (load b)"
    by (rule flat_placement[OF ne assms(2)])
  have loads: "load a = load b" using r(4) by (auto simp: same_loads_def)
  have "dom (hm_get a) = set ps" using same_loads_dom[OF r(4)] r(3) by simp
  moreover have "\<forall>p w. hm_get a p = Some w \<longrightarrow> w \<in> set (canonical_members ms local_id)"
    using same_loads_owner[OF r(4)] r(5) by blast
  moreover have "close (load a ` set (canonical_members ms local_id))"
    unfolding loads close_def using share_ok_close[OF r(6)] by blast
  ultimately show thesis by (intro that[OF r(2)] assignment_plan_well_formed assms(1)) simp_all
qed

lemma pod_plan_well_formed:
  assumes "trim local_id \<noteq> []" "lpc \<noteq> 0" "map cgm_member_id topology = canonical_members ms local_id"
    "\<forall>m \<in> set topology. cgm_pod_id m \<noteq> None"
  obtains a where "cooperative_sticky_assignment_with_topology topology old ps previous lpc percent = Some a"
    "plan_well_formed (assignment_plan v ms ps a (Some topology) local_id now) ps"
proof -
  have ne: "topology \<noteq> []" using local_member_canonical[OF assms(1), of ms] assms(3) by auto
  have d: "distinct (map cgm_member_id topology)" unfolding assms(3) by simp
  obtain pp b a where r: "cooperative_sticky_assignment_with_topology topology old ps previous lpc 0 = Some b"
    "cooperative_sticky_assignment_with_topology topology old ps previous lpc percent = Some a"
    "share_ok (map fst (pod_members_of topology)) (card (set ps)) (load pp)" "dom (hm_get pp) = set ps"
    "pods_placed ps pp (pod_members_of topology) b" "dom (hm_get b) = set ps"
    "same_loads b a" "changed_partitions a b \<le> movement_budget (card (set ps)) percent"
    by (rule topology_placement[OF ne assms(4) d assms(2)])
  note balanced = pods_balanced[OF r(3-5,7)]
  let ?plan = "assignment_plan v ms ps a (Some topology) local_id now"
  have dom: "dom (hm_get a) = set ps" using same_loads_dom[OF r(7)] r(6) by simp
  have load: "plan_load ?plan = load a" by (rule ext) (rule assignment_plan_load[OF dom])
  have members: "plan_members ?plan = map cgm_member_id topology" by (simp add: assignment_plan_def assms(3))
  let ?of = "\<lambda>pod. {m \<in> set topology. cgm_pod_id m = Some pod}"
  have pod: "\<exists>ws. (pod, ws) \<in> set (pod_members_of topology) \<and> set ws = cgm_member_id ` ?of pod" if "?of pod \<noteq> {}" for pod
  proof -
    from that obtain m where "m \<in> set topology" "cgm_pod_id m = Some pod" by blast
    from pod_of_member[OF this] obtain ws where "(pod, ws) \<in> set (pod_members_of topology)" by auto
    moreover from this have "set ws = cgm_member_id ` ?of pod" using pod_members_keys(2) by blast
    ultimately show ?thesis by blast
  qed
  have sums: "(\<Sum>m \<in> ?of pod. load a (cgm_member_id m)) = sum (load a) (cgm_member_id ` ?of pod)" for pod
    using d by (subst sum.reindex) (auto simp: distinct_map inj_on_def)
  have "close ((\<lambda>pod. \<Sum>m \<in> ?of pod. load a (cgm_member_id m)) ` {pod. \<exists>m \<in> set topology. cgm_pod_id m = Some pod})"
    unfolding close_def sums
  proof (intro ballI)
    fix x y
    assume "x \<in> (\<lambda>pod. sum (load a) (cgm_member_id ` ?of pod)) ` {pod. \<exists>m \<in> set topology. cgm_pod_id m = Some pod}"
      "y \<in> (\<lambda>pod. sum (load a) (cgm_member_id ` ?of pod)) ` {pod. \<exists>m \<in> set topology. cgm_pod_id m = Some pod}"
    then obtain q q' where q: "x = sum (load a) (cgm_member_id ` ?of q)" "?of q \<noteq> {}"
      "y = sum (load a) (cgm_member_id ` ?of q')" "?of q' \<noteq> {}" by blast
    from pod[OF q(2)] pod[OF q(4)] obtain ws ws' where "(q, ws) \<in> set (pod_members_of topology)" "set ws = cgm_member_id ` ?of q"
      "(q', ws') \<in> set (pod_members_of topology)" "set ws' = cgm_member_id ` ?of q'" by blast
    with balanced(2)[of q ws q' ws'] show "x \<le> y + 1" unfolding q(1,3) by simp
  qed
  moreover have "close ((\<lambda>m. load a (cgm_member_id m)) ` ?of q)" for q
    unfolding close_def
  proof (intro ballI)
    fix x y
    assume "x \<in> (\<lambda>m. load a (cgm_member_id m)) ` ?of q" "y \<in> (\<lambda>m. load a (cgm_member_id m)) ` ?of q"
    then obtain m m' where m: "m \<in> ?of q" "x = load a (cgm_member_id m)" "m' \<in> ?of q" "y = load a (cgm_member_id m')" by blast
    from pod[of q] m(1) obtain ws where "(q, ws) \<in> set (pod_members_of topology)" "set ws = cgm_member_id ` ?of q" by blast
    with balanced(3)[of q ws "cgm_member_id m" "cgm_member_id m'"] m show "x \<le> y + 1" by blast
  qed
  ultimately have "topology_well_formed ?plan topology"
    unfolding topology_well_formed_def members load using assms(4) d by simp
  moreover have "\<forall>p w. hm_get a p = Some w \<longrightarrow> w \<in> set (canonical_members ms local_id)"
    unfolding assms(3)[symmetric] using balanced(1) by auto
  ultimately show thesis using that[OF r(2)] assignment_plan_well_formed[OF dom _ assms(1), where topology = "Some topology" and v = v and now = now and ms = ms]
    by simp
qed

end
