(* ===== verification/Shared_Plan.thy ===== *)
theory Shared_Plan
  imports Plan_Validation Write_Config Consumer_Lease
begin

text \<open>
  How a member of a consumer group comes to the plan it follows (\<open>shared_assignment\<close> of
  \<open>coordination.rs\<close>): it reads the stored plan, follows a valid one while its planner is active, and
  otherwise becomes planner, computes the next plan, checks it and publishes it.  Other members use
  the same store between its calls.
\<close>

section \<open>Model\<close>

record ConsumerGroupConfig =
  cgc_topic :: string
  cgc_group_id :: string
  cgc_member_id :: string
  cgc_lease_duration :: "duration option"
  cgc_heartbeat_interval :: "duration option"
  cgc_rebalance_interval :: "duration option"
  cgc_pod_id :: "string option"
  cgc_cluster_id :: "string option"

definition consumer_lease_duration :: "ConsumerGroupConfig \<Rightarrow> duration" where
  "consumer_lease_duration config =
     (case cgc_lease_duration config of None \<Rightarrow> seconds 30 | Some d \<Rightarrow> d)"

definition consumer_colocation_repair_percent :: "FeatureFlagsWatch option \<Rightarrow> u8" where
  "consumer_colocation_repair_percent feature_flags =
     (let percent = flag_integer feature_flags ''blob_stream_consumer_colocation_repair_percent'' 10
      in case try_from_nat (unat percent) of
           Some p \<Rightarrow> if p \<le> 100 then p else 10
         | None \<Rightarrow> 10)"

record SharedAssignment =
  sa_plan :: "ConsumerGroupAssignmentPlan option"
  sa_rejected_assignment_plan_version :: "u64 option"

datatype CoordinationError =
    MembershipFailed MembershipError
  | ComputedPlanInvalid AssignmentPlanValidationError

text \<open>
  The coordinator, whose two stores are passed as state, and its environment: the conversion of an
  instant to milliseconds and what the other members do to the membership store before each of the
  seven calls of \<open>shared_assignment\<close>.
\<close>

record Coordinator =
  co_config :: ConsumerGroupConfig
  co_logical_partition_count :: u32
  co_planner_session_id :: string
  co_generation :: u64
  co_owned :: "(VirtualPartitionId, ConsumerGroupLease) hmap"
  co_feature_flags :: "FeatureFlagsWatch option"

record coordination_env =
  ce_unix_timestamp_ms :: "instant \<Rightarrow> int"
  ce_others :: "nat \<Rightarrow> MembershipState \<Rightarrow> MembershipState"

text \<open>The plan a planner computes from the plan it read; a panic is \<^const>\<open>None\<close>.\<close>

definition compute_plan ::
    "Coordinator \<Rightarrow> u8 \<Rightarrow> string list \<Rightarrow> VirtualPartitionId list \<Rightarrow> ConsumerGroupAssignmentPlan option
     \<Rightarrow> ConsumerGroupMember list option \<Rightarrow> int \<Rightarrow> ConsumerGroupAssignmentPlan option" where
  "compute_plan self repair_percent group_members partitions current_plan member_topology now_ts_ms =
     (let member_id = cgc_member_id (co_config self);
          previous_assignment = (case current_plan of None \<Rightarrow> [] | Some plan \<Rightarrow> plan_assignment_map plan);
          version = (case current_plan of None \<Rightarrow> 1 | Some plan \<Rightarrow> saturating_add (plan_version plan) 1);
          previous_topology = (case current_plan of
              Some plan \<Rightarrow>
                if assignment_plan_validation_error plan partitions = None
                then (case plan_member_topology plan of None \<Rightarrow> [] | Some topology \<Rightarrow> topology) else []
            | None \<Rightarrow> [])
      in map_option (\<lambda>assignment.
           assignment_plan version group_members partitions assignment member_topology member_id now_ts_ms)
         (case member_topology of
            None \<Rightarrow> cooperative_sticky_assignment group_members partitions previous_assignment member_id
              (co_logical_partition_count self) repair_percent
          | Some topology \<Rightarrow> cooperative_sticky_assignment_with_topology topology previous_topology partitions
              previous_assignment (co_logical_partition_count self) repair_percent))"

definition refreshed_assignment ::
    "Coordinator \<Rightarrow> coordination_env \<Rightarrow> VirtualPartitionId list \<Rightarrow> u64 option \<Rightarrow> MembershipState
     \<Rightarrow> ((CoordinationError + SharedAssignment) \<times> MembershipState) option" where
  "refreshed_assignment self env partitions rejected st0 =
     (let st = ce_others env 6 st0;
          refreshed = get_assignment_plan st (cgc_topic (co_config self)) (cgc_group_id (co_config self))
      in Some (Inr (case refreshed of
           None \<Rightarrow> \<lparr>sa_plan = None, sa_rejected_assignment_plan_version = rejected\<rparr>
         | Some plan \<Rightarrow>
             if assignment_plan_validation_error plan partitions \<noteq> None
             then \<lparr>sa_plan = None, sa_rejected_assignment_plan_version =
                     (case rejected of None \<Rightarrow> Some (plan_version plan) | Some v \<Rightarrow> Some v)\<rparr>
             else \<lparr>sa_plan = Some plan, sa_rejected_assignment_plan_version = rejected\<rparr>), st))"

text \<open>From the acquisition of the planner lease on.\<close>

definition plan_as_planner ::
    "Coordinator \<Rightarrow> coordination_env \<Rightarrow> string list \<Rightarrow> VirtualPartitionId list \<Rightarrow> instant
     \<Rightarrow> ConsumerGroupAssignmentPlan option \<Rightarrow> bool \<Rightarrow> ConsumerGroupMember list option \<Rightarrow> u64 option \<Rightarrow> MembershipState
     \<Rightarrow> ((CoordinationError + SharedAssignment) \<times> MembershipState) option" where
  "plan_as_planner self env group_members partitions now current_plan membership_changed member_topology rejected st0 =
     (let config = co_config self
      in case acquire_or_renew_planner (ce_others env 4 st0) (cgc_topic config) (cgc_group_id config)
                (cgc_member_id config) (co_planner_session_id self) now (consumer_lease_duration config) of
        (Inl e, st) \<Rightarrow> Some (Inl (MembershipFailed e), st)
      | (Inr PlannerHeldByOther, st) \<Rightarrow> refreshed_assignment self env partitions rejected st
      | (Inr PlannerAcquired, st) \<Rightarrow>
          (case compute_plan self
                  (if membership_changed then consumer_colocation_repair_percent (co_feature_flags self) else 0)
                  group_members partitions current_plan member_topology (ce_unix_timestamp_ms env now) of
             None \<Rightarrow> None
           | Some plan \<Rightarrow>
               (case assignment_plan_validation_error plan partitions of
                  Some reason \<Rightarrow> Some (Inl (ComputedPlanInvalid reason), st)
                | None \<Rightarrow>
                    (case publish_assignment_plan (ce_others env 5 st) (cgc_topic config) (cgc_group_id config)
                            (cgc_member_id config) (co_planner_session_id self) now plan of
                       (Inl e, st) \<Rightarrow> Some (Inl (MembershipFailed e), st)
                     | (Inr True, st) \<Rightarrow>
                         Some (Inr \<lparr>sa_plan = Some plan, sa_rejected_assignment_plan_version = rejected\<rparr>, st)
                     | (Inr False, st) \<Rightarrow> refreshed_assignment self env partitions rejected st))))"

definition planned_topology ::
    "ConsumerGroupConfig \<Rightarrow> string list \<Rightarrow> instant \<Rightarrow> MembershipState \<Rightarrow> MembershipError + ConsumerGroupMember list option" where
  "planned_topology config current_members now st =
     (case cgc_pod_id config of
        None \<Rightarrow> Inr None
      | Some local_pod_id \<Rightarrow>
          (case list_active_members st (cgc_topic config) (cgc_group_id config) now of
             Inl e \<Rightarrow> Inl e
           | Inr active_members \<Rightarrow> Inr (canonical_member_topology current_members active_members
               (cgc_member_id config) (Some local_pod_id) (cgc_cluster_id config))))"

definition shared_assignment ::
    "Coordinator \<Rightarrow> coordination_env \<Rightarrow> string list \<Rightarrow> VirtualPartitionId list \<Rightarrow> instant \<Rightarrow> MembershipState
     \<Rightarrow> ((CoordinationError + SharedAssignment) \<times> MembershipState) option" where
  "shared_assignment self env group_members partitions now st0 =
     (let config = co_config self;
          st1 = ce_others env 0 st0;
          current_plan = get_assignment_plan st1 (cgc_topic config) (cgc_group_id config);
          validation_error = Option.bind current_plan (\<lambda>plan. assignment_plan_validation_error plan partitions);
          valid = (current_plan \<noteq> None \<and> validation_error = None);
          rejected = Option.bind current_plan (\<lambda>plan. map_option (\<lambda>_. plan_version plan) validation_error);
          current_members = coordinator_members group_members (cgc_member_id config);
          membership_changed =
            (case current_plan of None \<Rightarrow> False | Some plan \<Rightarrow> valid \<and> plan_members plan \<noteq> current_members);
          st2 = (if cgc_pod_id config = None then st1 else ce_others env 1 st1)
      in case planned_topology config current_members now st2 of
           Inl e \<Rightarrow> Some (Inl (MembershipFailed e), st2)
         | Inr member_topology \<Rightarrow>
             let compute = plan_as_planner self env group_members partitions now current_plan membership_changed
                   member_topology rejected
             in case current_plan of
                  None \<Rightarrow> compute st2
                | Some plan \<Rightarrow>
                    if \<not> valid then compute st2
                    else
                      let topology_changed = (plan_members plan \<noteq> current_members \<or> plan_member_topology plan \<noteq> member_topology);
                          st3 = ce_others env 2 st2;
                          planner_is_active = (case get_planner_lease st3 (cgc_topic config) (cgc_group_id config) of
                              None \<Rightarrow> False
                            | Some lease \<Rightarrow> cgp_member_id lease = plan_planner_member_id plan
                                \<and> ce_unix_timestamp_ms env now < cgp_lease_expiration_ts_ms lease);
                          kept = Inr \<lparr>sa_plan = Some plan, sa_rejected_assignment_plan_version = rejected\<rparr>
                      in if planner_is_active \<and> plan_planner_member_id plan \<noteq> cgc_member_id config then Some (kept, st3)
                         else if planner_is_active \<and> \<not> topology_changed
                         then (case acquire_or_renew_planner (ce_others env 3 st3) (cgc_topic config) (cgc_group_id config)
                                 (cgc_member_id config) (co_planner_session_id self) now (consumer_lease_duration config) of
                                 (Inl e, st) \<Rightarrow> Some (Inl (MembershipFailed e), st)
                               | (Inr PlannerAcquired, st) \<Rightarrow> Some (kept, st)
                               | (Inr PlannerHeldByOther, st) \<Rightarrow> compute st)
                         else compute st3)"

section \<open>Every plan that is followed is well formed\<close>

text \<open>What a call of the coordinator may end with.\<close>

definition sound_answer ::
    "VirtualPartitionId list \<Rightarrow> ((CoordinationError + SharedAssignment) \<times> MembershipState) option \<Rightarrow> bool" where
  "sound_answer ps r \<longleftrightarrow> (\<exists>e st. r = Some (Inl (MembershipFailed e), st))
     \<or> (\<exists>sa st. r = Some (Inr sa, st) \<and> pred_option (\<lambda>plan. plan_well_formed plan ps) (sa_plan sa))"

lemma sound_answerI:
  "sound_answer ps (Some (Inl (MembershipFailed e), st))"
  "pred_option (\<lambda>plan. plan_well_formed plan ps) (sa_plan sa) \<Longrightarrow> sound_answer ps (Some (Inr sa, st))"
  by (simp_all add: sound_answer_def)

lemma refreshed_assignment_sound: "sound_answer ps (refreshed_assignment self env ps rejected st)"
  unfolding refreshed_assignment_def Let_def
  by (rule sound_answerI) (simp add: validation_exact split: option.split)

lemma assignment_plan_version [simp]: "plan_version (assignment_plan v ms ps a topology local_id now) = v"
  by (simp add: assignment_plan_def)

lemma computed_plan:
  assumes "trim (cgc_member_id (co_config self)) \<noteq> []" "co_logical_partition_count self \<noteq> 0"
    "planned_topology (co_config self) (coordinator_members ms (cgc_member_id (co_config self))) now st = Inr topology"
  obtains plan where "compute_plan self percent ms ps current topology now_ts_ms = Some plan" "plan_well_formed plan ps"
    "plan_version plan = (case current of None \<Rightarrow> 1 | Some p \<Rightarrow> saturating_add (plan_version p) 1)"
proof (cases topology)
  case None
  obtain a where "cooperative_sticky_assignment ms ps (case current of None \<Rightarrow> [] | Some plan \<Rightarrow> plan_assignment_map plan)
      (cgc_member_id (co_config self)) (co_logical_partition_count self) percent = Some a"
    "plan_well_formed (assignment_plan (case current of None \<Rightarrow> 1 | Some p \<Rightarrow> saturating_add (plan_version p) 1)
      ms ps a None (cgc_member_id (co_config self)) now_ts_ms) ps"
    by (rule flat_plan_well_formed[OF assms(1,2)])
  then show thesis by (intro that[OF _ _ assignment_plan_version]) (simp_all add: compute_plan_def Let_def None)
next
  case (Some t)
  have "\<exists>active pod cluster. canonical_member_topology (coordinator_members ms (cgc_member_id (co_config self))) active
      (cgc_member_id (co_config self)) pod cluster = Some t"
    using assms(3) unfolding Some planned_topology_def by (auto split: option.splits sum.splits)
  then obtain active pod cluster where "canonical_member_topology (canonical_members ms (cgc_member_id (co_config self))) active
      (cgc_member_id (co_config self)) pod cluster = Some t"
    unfolding coordinator_members_canonical[OF assms(1)] by blast
  note names = topology_names[OF this]
  let ?old = "case current of Some plan \<Rightarrow> if assignment_plan_validation_error plan ps = None
      then (case plan_member_topology plan of None \<Rightarrow> [] | Some topology \<Rightarrow> topology) else [] | None \<Rightarrow> []"
  obtain a where "cooperative_sticky_assignment_with_topology t ?old ps
      (case current of None \<Rightarrow> [] | Some plan \<Rightarrow> plan_assignment_map plan) (co_logical_partition_count self) percent = Some a"
    "plan_well_formed (assignment_plan (case current of None \<Rightarrow> 1 | Some p \<Rightarrow> saturating_add (plan_version p) 1)
      ms ps a (Some t) (cgc_member_id (co_config self)) now_ts_ms) ps"
    by (rule pod_plan_well_formed[OF assms(1,2) names])
  then show thesis by (intro that[OF _ _ assignment_plan_version]) (simp_all add: compute_plan_def Let_def Some)
qed

lemma plan_as_planner_sound:
  assumes "trim (cgc_member_id (co_config self)) \<noteq> []" "co_logical_partition_count self \<noteq> 0"
    "planned_topology (co_config self) (coordinator_members ms (cgc_member_id (co_config self))) now st' = Inr topology"
  shows "sound_answer ps (plan_as_planner self env ms ps now current changed topology rejected st)"
proof -
  obtain plan where plan: "compute_plan self (if changed then consumer_colocation_repair_percent (co_feature_flags self) else 0)
      ms ps current topology (ce_unix_timestamp_ms env now) = Some plan" "plan_well_formed plan ps"
    by (rule computed_plan[OF assms])
  have valid: "assignment_plan_validation_error plan ps = None" using plan(2) by (simp add: validation_exact)
  show ?thesis
    unfolding plan_as_planner_def Let_def plan(1) option.case valid
    by (simp add: sound_answerI refreshed_assignment_sound plan(2)
        split: prod.split sum.split ConsumerGroupPlannerLeaseOutcome.split bool.split)
qed

text \<open>
  Claim C13.  Whatever the other members do to the membership store between its calls, a coordinator
  whose identifier is not blank neither panics nor rejects its own plan: it fails only when the store
  does.  The plan it goes on to follow, whether read, kept, computed or published by another member,
  assigns every partition of the topic once, to a member, with loads that differ by at most one
  (between pods and within each pod when the plan has a topology).
\<close>

theorem followed_plan_well_formed:
  assumes "trim (cgc_member_id (co_config self)) \<noteq> []" "co_logical_partition_count self \<noteq> 0"
  shows "(\<exists>e st'. shared_assignment self env ms ps now st = Some (Inl (MembershipFailed e), st'))
    \<or> (\<exists>sa st'. shared_assignment self env ms ps now st = Some (Inr sa, st')
         \<and> pred_option (\<lambda>plan. plan_well_formed plan ps) (sa_plan sa))"
proof -
  let ?config = "co_config self"
  let ?st1 = "ce_others env 0 st"
  let ?st2 = "if cgc_pod_id ?config = None then ?st1 else ce_others env 1 ?st1"
  have "sound_answer ps (shared_assignment self env ms ps now st)"
  proof (cases "planned_topology ?config (coordinator_members ms (cgc_member_id ?config)) now ?st2")
    case (Inl e)
    then show ?thesis by (simp add: shared_assignment_def Let_def sound_answerI)
  next
    case (Inr topology)
    note planner = plan_as_planner_sound[OF assms Inr]
    show ?thesis
    proof (cases "get_assignment_plan ?st1 (cgc_topic ?config) (cgc_group_id ?config)")
      case None
      then show ?thesis using planner by (simp add: shared_assignment_def Let_def Inr)
    next
      case (Some plan)
      have kept: "sound_answer ps (Some (Inr \<lparr>sa_plan = Some plan, sa_rejected_assignment_plan_version = v\<rparr>, s))"
        if "assignment_plan_validation_error plan ps = None" for v s
        using that by (intro sound_answerI) (simp add: validation_exact)
      show ?thesis
        unfolding shared_assignment_def Let_def Inr Some option.case sum.case bind.simps
        by (simp add: planner kept sound_answerI split: prod.split sum.split ConsumerGroupPlannerLeaseOutcome.split)
    qed
  qed
  then show ?thesis unfolding sound_answer_def .
qed

theorem followed_plan_well_formed_witness:
  "\<exists>sa st'. shared_assignment
       \<lparr>co_config = \<lparr>cgc_topic = ''t'', cgc_group_id = ''g'', cgc_member_id = ''a'', cgc_lease_duration = None,
          cgc_heartbeat_interval = None, cgc_rebalance_interval = None, cgc_pod_id = None, cgc_cluster_id = None\<rparr>,
        co_logical_partition_count = 2, co_planner_session_id = ''s'', co_generation = 0, co_owned = [], co_feature_flags = None\<rparr>
       \<lparr>ce_unix_timestamp_ms = \<lambda>now. now div 1000000, ce_others = \<lambda>_ st. st\<rparr>
       [''a'', ''b''] [0, 1, 2] 0 empty_membership = Some (Inr sa, st')
     \<and> sa_plan sa \<noteq> None \<and> pred_option (\<lambda>plan. plan_well_formed plan [0, 1, 2]) (sa_plan sa)"
  (is "\<exists>sa st'. shared_assignment ?self ?env ?ms ?ps 0 ?st = Some (Inr sa, st') \<and> _")
proof -
  have member: "trim (cgc_member_id (co_config ?self)) \<noteq> []" by code_simp
  have lpc: "co_logical_partition_count ?self \<noteq> 0" by simp
  have runs: "(case shared_assignment ?self ?env ?ms ?ps 0 ?st of Some (Inr sa, _) \<Rightarrow> sa_plan sa \<noteq> None | _ \<Rightarrow> False)"
    by code_simp
  from followed_plan_well_formed[OF member lpc, of ?env ?ms ?ps 0 ?st] runs show ?thesis
    by (elim disjE exE conjE) simp_all
qed

text \<open>
  Claim C35.  A coordinator whose identifier is only white space can never plan: the plan it computes
  leaves it out and is rejected by its own check, whatever the group, although such an identifier is
  accepted by the configuration.
\<close>

theorem blank_member_cannot_plan:
  assumes "trim (cgc_member_id (co_config self)) = []"
    "acquire_or_renew_planner (ce_others env 4 st) (cgc_topic (co_config self)) (cgc_group_id (co_config self))
       (cgc_member_id (co_config self)) (co_planner_session_id self) now (consumer_lease_duration (co_config self))
     = (Inr PlannerAcquired, st')"
    "compute_plan self (if changed then consumer_colocation_repair_percent (co_feature_flags self) else 0)
       ms ps current topology (ce_unix_timestamp_ms env now) = Some plan"
  shows "\<exists>reason. reason \<in> {EmptyMembers, PlannerNotMember}
    \<and> plan_as_planner self env ms ps now current changed topology rejected st
        = Some (Inl (ComputedPlanInvalid reason), st')"
proof -
  have plan: "plan_planner_member_id plan = cgc_member_id (co_config self)"
    "plan_members plan = canonical_members ms (cgc_member_id (co_config self))"
    using assms(3) by (auto simp: compute_plan_def Let_def assignment_plan_def)
  have "cgc_member_id (co_config self) \<notin> set (canonical_members ms (cgc_member_id (co_config self)))"
    using assms(1) by (simp add: canonical_members_def Let_def)
  then have "assignment_plan_validation_error plan ps \<in> {Some EmptyMembers, Some PlannerNotMember}"
    using plan by (simp add: assignment_plan_validation_error_def)
  then show ?thesis
    unfolding plan_as_planner_def Let_def assms(2) prod.case sum.case ConsumerGroupPlannerLeaseOutcome.case assms(3) option.case
    by auto
qed

theorem blank_member_cannot_plan_witness:
  "\<exists>reason st'. reason \<in> {EmptyMembers, PlannerNotMember}
     \<and> plan_as_planner
         \<lparr>co_config = \<lparr>cgc_topic = ''t'', cgc_group_id = ''g'', cgc_member_id = '' '', cgc_lease_duration = None,
            cgc_heartbeat_interval = None, cgc_rebalance_interval = None, cgc_pod_id = None, cgc_cluster_id = None\<rparr>,
          co_logical_partition_count = 2, co_planner_session_id = ''s'', co_generation = 0, co_owned = [], co_feature_flags = None\<rparr>
         \<lparr>ce_unix_timestamp_ms = \<lambda>now. now div 1000000, ce_others = \<lambda>_ st. st\<rparr>
         [''b''] [0, 1] 0 None False None None empty_membership = Some (Inl (ComputedPlanInvalid reason), st')"
  (is "\<exists>reason st'. _ \<and> plan_as_planner ?self ?env ?ms ?ps 0 None False None None ?st = _")
proof -
  let ?c = "co_config ?self"
  have blank: "trim (cgc_member_id ?c) = []" by code_simp
  have acquired: "\<exists>st'. acquire_or_renew_planner (ce_others ?env 4 ?st) (cgc_topic ?c) (cgc_group_id ?c) (cgc_member_id ?c)
      (co_planner_session_id ?self) 0 (consumer_lease_duration ?c) = (Inr PlannerAcquired, st')"
    by (rule exI, code_simp)
  have computed: "compute_plan ?self (if False then consumer_colocation_repair_percent (co_feature_flags ?self) else 0)
      ?ms ?ps None None (ce_unix_timestamp_ms ?env 0) \<noteq> None"
    by code_simp
  from acquired computed show ?thesis
    using blank_member_cannot_plan[OF blank, of ?env ?st 0 _ False ?ms ?ps None None] by blast
qed

end
