(* ===== verification/Spec2Isabelle.thy ===== *)
theory Spec2Isabelle
  imports Consumer_Lease Membership Segment_Codec Memory_Stores Adaptive_Delay Cluster Flush_Publication Shared_Plan
begin

text \<open>
  Verification of \<open>blob-stream\<close>, a log service that keeps its data in a blob store and its index and
  leases in a metadata store.

  \<^bold>\<open>The program.\<close>  A producer sends record batches to the broker that holds the lease of their virtual
  partition.  The broker numbers them from a range of sequence numbers it has reserved in the lease
  store, buffers them, and flushes buffers as plans: the batches of a partition are merged and
  encoded, partitions are packed into blob objects, the objects are uploaded, a metadata row per topic
  and object makes them visible, and only then are the requests answered.  Consumers form groups.  A
  group's planner publishes a plan that places partitions on members; the members hold leases on
  their partitions and commit cursors there.

  \<^bold>\<open>Shared material.\<close>  \<open>Prelude\<close> (machine integers, instants, hash maps), \<open>Decimal\<close> and \<open>Text\<close> (what
  the code uses of Rust's formatting, parsing and trimming), \<open>Types\<close> (\<open>blob-stream-types/src/lib.rs\<close>,
  keys and ranges of \<open>blob-stream-blob-store/src/lib.rs\<close>: partition routing, windows, storage keys).

  \<^bold>\<open>Stores\<close> (\<open>blob-stream-metadata-store\<close>, \<open>blob-stream-blob-store\<close>).  \<open>Lease_Contracts\<close> states what
  clients rely on: exclusive ownership, fencing epochs, disjoint reservations, a register of the last
  write.  \<open>Producer_Lease\<close>, \<open>Consumer_Lease\<close> and \<open>Membership\<close> model the three in-memory stores and
  interpret the contracts; their state is a record of hash maps and each operation maps a state to a
  result and a state.  \<open>Segment_Codec\<close> models \<open>codec.rs\<close> with the round trip of segment rows;
  \<open>Memory_Stores\<close> models the in-memory segment and blob stores.

  \<^bold>\<open>Broker, write path\<close> (\<open>blob-stream-broker/src/write\<close>, \<open>blob-stream-broker-discovery\<close>).
  \<^item> \<open>Discovery\<close>: partition inventory, balanced assignment of partitions to brokers, rendezvous owners.
  \<^item> \<open>Write_Config\<close>, \<open>Adaptive_Delay\<close>: limits in effect and the flush delay controller with its bounds
    and convergence.
  \<^item> \<open>Write_Api\<close>, \<open>Write_Buffer\<close>, \<open>Write_State\<close>, \<open>Allocation\<close>, \<open>Write_Engine\<close>: the state under the
    broker's mutex, lease and reservation transitions, and \<open>produce_batch\<close> with the termination of
    its loop.
  \<^item> \<open>Lease_Assignment\<close>: the coordinator that admits, maintains and releases partitions.
  \<^item> \<open>Scheduler\<close>, \<open>Flush_Rounds\<close>: the choice of flush plans (\<open>scheduler.rs\<close>); batches are conserved and
    requests answered once.
  \<^item> \<open>Flush_Packing\<close>, \<open>Flush_Objects\<close>, \<open>Flush_Publication\<close>: \<open>flush.rs\<close>.  Packing uses the least number of
    objects; a request that is told success can be read back, for all stores that satisfy the locale
    \<open>segment_stores\<close>, which the in-memory stores do.
  \<^item> \<open>Write_Path\<close>: all tasks of a broker as one step relation, a step being a critical section or a
    store call.  \<open>Number_Spec\<close>: an abstract specification of sequence numbering.  \<open>Cluster\<close>: brokers on
    a shared lease store refine it, so no number of a partition is given twice.

  \<^bold>\<open>Consumer coordination\<close> (\<open>blob-stream-consumer/src/coordination.rs\<close> and \<open>coordination/\<close>).
  \<open>Sticky_Assignment\<close>, \<open>Placement_Repair\<close> and \<open>Consumer_Assignment\<close> model placement: balance, coverage,
  stickiness and the movement budget of repairs.  \<open>Plan_Validation\<close> models the check of a plan and
  shows that it is exact; \<open>Shared_Plan\<close> models how a member reads, keeps or computes a plan while
  other members change the store, and shows that every plan it follows is well formed.

  \<^bold>\<open>Conventions.\<close>  \<open>u8\<close>, \<open>u32\<close> and \<open>u64\<close> are words with the checked, saturating and wrapping
  operations of the source; \<open>i64\<close> is an integer with its range checked where the source checks it;
  \<open>usize\<close> is a natural number; instants and durations are nanoseconds.  A hash map is an association
  list without duplicate keys.  Errors are left injections, panics are \<open>None\<close>, and messages sent on
  one-shot channels are returned.  Loops are recursions with a
  termination proof, except the loop of \<open>produce_batch\<close>, a partial function whose result for a run
  that does not end is \<open>None\<close>; that it ends is a theorem.  Code
  outside the repository is a parameter: protobuf bytes, zstd, the snowflake generator, SipHash and
  \<open>DefaultHasher\<close>, the range of \<open>OffsetDateTime\<close>, feature flags, the clock and the order in which
  concurrent calls finish.

  \<^bold>\<open>Not modelled.\<close>  The DynamoDB and S3 backends, Kubernetes discovery and the gRPC service, which are
  requests to other systems; the asynchronous loops that start the modelled steps; metrics, logging,
  lifecycle hooks and memory sampling; the broker's read caches; lease claiming and the read path of
  the consumer (\<open>rebalance\<close>, scanning, prefetch, delivery); the producer client; generated protocol
  code, the inspector and the tests.
\<close>

end
